(* ===== verification/Go_Prelude.thy ===== *)
theory Go_Prelude
  imports Main "HOL-Library.Sublist"
begin

text \<open>
  What the components share: the outcome of a Go expression that may panic, checked indexing
  and slicing, the string functions of the standard library the program calls, and decimal
  formatting and parsing. A Go \<open>string\<close> or \<open>[]byte\<close> is a HOL \<open>string\<close> (a list of bytes).
  A Go \<open>int\<close> that only counts or indexes is an \<open>int\<close>: every such value of the program is
  bounded by the length of a slice, far below \<open>2 ^ 63\<close>. Where the width matters
  (\<open>strconv.ParseUint\<close>, the candlestick) it is written out.
\<close>

section \<open>Outcomes: a value, or a run-time panic\<close>

datatype 'a go = Ret 'a | Panic

fun go_bind :: "'a go \<Rightarrow> ('a \<Rightarrow> 'b go) \<Rightarrow> 'b go" where
  "go_bind (Ret x) f = f x"
| "go_bind Panic f = Panic"

fun go_map :: "('a \<Rightarrow> 'b) \<Rightarrow> 'a go \<Rightarrow> 'b go" where
  "go_map f (Ret x) = Ret (f x)"
| "go_map f Panic = Panic"

fun go_list :: "('a \<Rightarrow> 'b go) \<Rightarrow> 'a list \<Rightarrow> 'b list go" where
  "go_list f [] = Ret []"
| "go_list f (x # xs) = go_bind (f x) (\<lambda>y. go_bind (go_list f xs) (\<lambda>ys. Ret (y # ys)))"

fun is_panic :: "'a go \<Rightarrow> bool" where
  "is_panic (Ret x) = False"
| "is_panic Panic = True"

named_theorems go_simps \<open>unfolding rules for outcomes, slices and strings\<close>
named_theorems go_intros \<open>preservation of the components' invariants\<close>

lemma go_bind_Ret_iff: "go_bind m f = Ret y \<longleftrightarrow> (\<exists>x. m = Ret x \<and> f x = Ret y)"
  by (cases m) auto

lemma go_bind_Panic_iff: "go_bind m f = Panic \<longleftrightarrow> m = Panic \<or> (\<exists>x. m = Ret x \<and> f x = Panic)"
  by (cases m) auto

lemma go_map_Ret_iff: "go_map f m = Ret y \<longleftrightarrow> (\<exists>x. m = Ret x \<and> y = f x)"
  by (cases m) auto

lemma go_map_Panic_iff: "go_map f m = Panic \<longleftrightarrow> m = Panic"
  by (cases m) auto

lemmas go_result_iffs = go_bind_Ret_iff go_bind_Panic_iff go_map_Ret_iff go_map_Panic_iff

lemma go_bind_assoc: "go_bind (go_bind m f) g = go_bind m (\<lambda>x. go_bind (f x) g)"
  by (cases m) auto

lemma go_map_go_bind: "go_map g (go_bind m f) = go_bind m (\<lambda>x. go_map g (f x))"
  by (cases m) auto

lemma go_bind_cong [fundef_cong]:
  "m = m' \<Longrightarrow> (\<And>x. m' = Ret x \<Longrightarrow> f x = f' x) \<Longrightarrow> go_bind m f = go_bind m' f'"
  by (cases m) auto

lemma is_panic_iff [simp]: "is_panic m \<longleftrightarrow> m = Panic"
  by (cases m) auto

lemma go_not_Panic_iff: "m \<noteq> Panic \<longleftrightarrow> (\<exists>x. m = Ret x)"
  by (cases m) auto

lemma go_list_Ret: "(\<And>x. x \<in> set xs \<Longrightarrow> f x = Ret (g x)) \<Longrightarrow> go_list f xs = Ret (map g xs)"
  by (induction xs) auto

lemma go_list_RetD: "go_list f xs = Ret ys \<Longrightarrow> list_all2 (\<lambda>x y. f x = Ret y) xs ys"
  by (induction xs arbitrary: ys) (auto simp: go_result_iffs)

lemma go_list_cong [fundef_cong]:
  "xs = ys \<Longrightarrow> (\<And>x. x \<in> set ys \<Longrightarrow> f x = g x) \<Longrightarrow> go_list f xs = go_list g ys"
  by (induction xs arbitrary: ys) auto

section \<open>Checked indexing and slicing\<close>

definition slice_get :: "'a list \<Rightarrow> int \<Rightarrow> 'a go" where
  "slice_get xs i = (if 0 \<le> i \<and> i < int (length xs) then Ret (xs ! nat i) else Panic)"

definition slice_set :: "'a list \<Rightarrow> int \<Rightarrow> 'a \<Rightarrow> 'a list go" where
  "slice_set xs i v = (if 0 \<le> i \<and> i < int (length xs) then Ret (xs[nat i := v]) else Panic)"

definition slice_sub :: "'a list \<Rightarrow> int \<Rightarrow> int \<Rightarrow> 'a list go" where
  \<comment> \<open>\<open>xs[lo:hi]\<close>, for a slice whose capacity is its length\<close>
  "slice_sub xs lo hi =
     (if 0 \<le> lo \<and> lo \<le> hi \<and> hi \<le> int (length xs)
      then Ret (take (nat (hi - lo)) (drop (nat lo) xs)) else Panic)"

definition slice_copy :: "'a list \<Rightarrow> 'a list \<Rightarrow> 'a list" where
  \<comment> \<open>the built-in \<open>copy(dst, src)\<close>: \<open>min(len(dst), len(src))\<close> elements\<close>
  "slice_copy dst src = take (length dst) src @ drop (length src) dst"

lemma length_slice_copy [simp]: "length (slice_copy dst src) = length dst"
  by (simp add: slice_copy_def)

lemma slice_copy_fits:
  "length src \<le> length dst \<Longrightarrow> slice_copy dst src = src @ drop (length src) dst"
  by (simp add: slice_copy_def)

lemma slice_get_Ret [go_simps]: "0 \<le> i \<Longrightarrow> i < int (length xs) \<Longrightarrow> slice_get xs i = Ret (xs ! nat i)"
  by (simp add: slice_get_def)

lemma slice_set_Ret [go_simps]: "0 \<le> i \<Longrightarrow> i < int (length xs) \<Longrightarrow> slice_set xs i v = Ret (xs[nat i := v])"
  by (simp add: slice_set_def)

lemma slice_sub_Ret [go_simps]:
  "0 \<le> lo \<Longrightarrow> lo \<le> hi \<Longrightarrow> hi \<le> int (length xs) \<Longrightarrow>
   slice_sub xs lo hi = Ret (take (nat (hi - lo)) (drop (nat lo) xs))"
  by (simp add: slice_sub_def)

section \<open>Strings\<close>

definition HasPrefix :: "string \<Rightarrow> string \<Rightarrow> bool" where
  "HasPrefix s p \<longleftrightarrow> take (length p) s = p"

definition TrimPrefix :: "string \<Rightarrow> string \<Rightarrow> string" where
  "TrimPrefix s p = (if HasPrefix s p then drop (length p) s else s)"

lemma HasPrefix_append [simp]: "HasPrefix (p @ s) p"
  by (simp add: HasPrefix_def)

lemma HasPrefix_iff: "HasPrefix s p \<longleftrightarrow> (\<exists>r. s = p @ r)"
  by (metis HasPrefix_append HasPrefix_def append_take_drop_id)

lemma TrimPrefix_append [simp]: "TrimPrefix (p @ s) p = s"
  by (simp add: TrimPrefix_def)

definition is_space :: "char \<Rightarrow> bool" where
  \<comment> \<open>the ASCII part of \<open>unicode.IsSpace\<close>\<close>
  "is_space c \<longleftrightarrow> of_char c \<in> {9, 10, 11, 12, 13, 32 :: nat}"

definition TrimSpace :: "string \<Rightarrow> string" where
  "TrimSpace s = rev (dropWhile is_space (rev (dropWhile is_space s)))"

text \<open>\<open>strings.Split(s, sep)\<close> for a one-byte separator: never empty, one part per separator more.\<close>

fun split_on :: "char \<Rightarrow> string \<Rightarrow> string list" where
  "split_on sep [] = [[]]"
| "split_on sep (c # cs) =
     (if c = sep then [] # split_on sep cs
      else case split_on sep cs of [] \<Rightarrow> [[c]] | p # ps \<Rightarrow> (c # p) # ps)"

lemma split_on_not_Nil [simp]: "split_on sep s \<noteq> []"
  by (induction s) (auto split: list.splits)

lemma length_split_on: "length (split_on sep s) = Suc (count_list s sep)"
  by (induction s) (auto split: list.splits)

section \<open>Decimal numbers\<close>

definition digit :: "nat \<Rightarrow> char" where
  "digit d = char_of (48 + d)"

fun dec :: "nat \<Rightarrow> string" where
  "dec n = (if n < 10 then [digit n] else dec (n div 10) @ [digit (n mod 10)])"

declare dec.simps [simp del]

definition is_digit :: "char \<Rightarrow> bool" where
  "is_digit c \<longleftrightarrow> 48 \<le> (of_char c :: nat) \<and> (of_char c :: nat) \<le> 57"

definition dec_value :: "string \<Rightarrow> nat" where
  "dec_value s = foldl (\<lambda>a c. 10 * a + (of_char c - 48)) 0 s"

definition ParseUint64 :: "string \<Rightarrow> nat option" where
  \<comment> \<open>\<open>strconv.ParseUint(s, 10, 64)\<close>\<close>
  "ParseUint64 s =
     (if s \<noteq> [] \<and> list_all is_digit s \<and> dec_value s < 2 ^ 64 then Some (dec_value s) else None)"

definition ParseInt64 :: "string \<Rightarrow> int option" where
  \<comment> \<open>\<open>strconv.ParseInt(s, 10, 64)\<close>\<close>
  "ParseInt64 s =
     (let neg = (take 1 s = ''-''); ds = (if neg \<or> take 1 s = ''+'' then drop 1 s else s);
          n = int (dec_value ds)
      in if ds = [] \<or> \<not> list_all is_digit ds then None
         else if neg then (if n \<le> 2 ^ 63 then Some (- n) else None)
         else if n < 2 ^ 63 then Some n else None)"

definition itoa :: "int \<Rightarrow> string" where
  "itoa i = (if i < 0 then ''-'' @ dec (nat (- i)) else dec (nat i))"

lemma of_char_digit [simp]: "d < 10 \<Longrightarrow> (of_char (digit d) :: nat) = 48 + d"
  by (simp add: digit_def)

lemma is_digit_digit [simp]: "d < 10 \<Longrightarrow> is_digit (digit d)"
  by (simp add: is_digit_def)

lemma dec_nonempty [simp]: "dec n \<noteq> []"
  by (subst dec.simps) simp

lemma dec_digits [simp]: "list_all is_digit (dec n)"
proof (induction n rule: dec.induct)
  case (1 n)
  then show ?case by (subst dec.simps) auto
qed

lemma dec_value_snoc [simp]: "dec_value (s @ [c]) = 10 * dec_value s + (of_char c - 48)"
  by (simp add: dec_value_def)

lemma dec_value_dec [simp]: "dec_value (dec n) = n"
proof (induction n rule: dec.induct)
  case (1 n)
  then show ?case
  proof (cases "n < 10")
    case True
    then show ?thesis by (subst dec.simps) (simp add: dec_value_def)
  next
    case False
    with 1 show ?thesis by (subst dec.simps) simp
  qed
qed

lemma ParseUint64_dec: "n < 2 ^ 64 \<Longrightarrow> ParseUint64 (dec n) = Some n"
  by (simp add: ParseUint64_def)

lemma dec_inject [simp]: "dec m = dec n \<longleftrightarrow> m = n"
  by (metis dec_value_dec)

lemma dec_head:
  "\<exists>c cs. dec n = c # cs \<and> is_digit c \<and> (c = CHR ''0'' \<longrightarrow> cs = [] \<and> n = 0)"
proof (induction n rule: dec.induct)
  case (1 n)
  show ?case
  proof (cases "n < 10")
    case True
    moreover from this have "n = 0" if "digit n = CHR ''0''"
      using of_char_digit [of n] that by simp
    ultimately show ?thesis by (subst dec.simps) simp
  next
    case False
    then obtain c cs where c: "dec (n div 10) = c # cs" "is_digit c"
        "c = CHR ''0'' \<longrightarrow> cs = [] \<and> n div 10 = 0"
      using 1 by blast
    with False have "c \<noteq> CHR ''0''" by auto
    with c False show ?thesis by (subst dec.simps) auto
  qed
qed

section \<open>64-bit signed integers\<close>

text \<open>The value an \<open>int64\<close> computation has, from the exact one; and Go's division.\<close>

definition wrap64 :: "int \<Rightarrow> int" where
  "wrap64 x = (x + 2 ^ 63) mod 2 ^ 64 - 2 ^ 63"

lemma wrap64_id [simp]: "- (2 ^ 63) \<le> x \<Longrightarrow> x < 2 ^ 63 \<Longrightarrow> wrap64 x = x"
  by (simp add: wrap64_def)

definition quot :: "int \<Rightarrow> int \<Rightarrow> int" where
  \<comment> \<open>division truncated toward zero\<close>
  "quot a b = sgn a * sgn b * (abs a div abs b)"

definition go_rem :: "int \<Rightarrow> int \<Rightarrow> int" where
  \<comment> \<open>the remainder of that division: the sign of the dividend\<close>
  "go_rem a b = a - b * quot a b"

end
