(* ===== verification/Interfaces.thy ===== *)
theory Interfaces
  imports Go_Prelude
begin

text \<open>
  The contracts between components, one locale each. The laws speak of an abstraction function
  and an invariant of the provider; the lemmas inside a locale are what a client needs, proved
  once. Every locale is interpreted in the theory of the component that provides it.
\<close>

section \<open>A first-in first-out log, and a log that can be read by index\<close>

locale fifo_log =
  fixes push :: "'v \<Rightarrow> 'q \<Rightarrow> 'q go"
    and pop :: "'q \<Rightarrow> ('v option \<times> 'q) go"
    and list :: "'q \<Rightarrow> 'v list"
    and invar :: "'q \<Rightarrow> bool"
  assumes push_law: "invar q \<Longrightarrow> \<exists>q'. push v q = Ret q' \<and> invar q' \<and> list q' = list q @ [v]"
    and pop_empty_law: "invar q \<Longrightarrow> list q = [] \<Longrightarrow> pop q = Ret (None, q)"
    and pop_law: "invar q \<Longrightarrow> list q = v # vs \<Longrightarrow>
      \<exists>q'. pop q = Ret (Some v, q') \<and> invar q' \<and> list q' = vs"
begin

lemma push_no_panic: "invar q \<Longrightarrow> push v q \<noteq> Panic"
  by (metis push_law go.distinct(1))

lemma pop_no_panic: "invar q \<Longrightarrow> pop q \<noteq> Panic"
  by (cases "list q") (metis pop_empty_law pop_law go.distinct(1))+

end

text \<open>\<open>lastn d xs\<close>: the last \<open>d\<close> elements, what a window of depth \<open>d\<close> over a history keeps.\<close>

definition lastn :: "nat \<Rightarrow> 'a list \<Rightarrow> 'a list" where
  "lastn d xs = drop (length xs - d) xs"

lemma length_lastn [simp]: "length (lastn d xs) = min d (length xs)"
  by (simp add: lastn_def)

lemma lastn_short [simp]: "length xs \<le> d \<Longrightarrow> lastn d xs = xs"
  by (simp add: lastn_def)

lemma lastn_snoc: "lastn d (lastn d xs @ [x]) = lastn d (xs @ [x])"
  by (cases "length xs \<le> d") (auto simp: lastn_def Suc_diff_le min_def)

lemma nth_lastn: "i < min d (length xs) \<Longrightarrow> lastn d xs ! i = xs ! (length xs - d + i)"
  by (simp add: lastn_def)

locale window_log = fifo_log push pop list invar
  for push :: "'v \<Rightarrow> 'q \<Rightarrow> 'q go"
    and pop :: "'q \<Rightarrow> ('v option \<times> 'q) go"
    and list :: "'q \<Rightarrow> 'v list"
    and invar :: "'q \<Rightarrow> bool" +
  fixes len :: "'q \<Rightarrow> int"
    and at :: "int \<Rightarrow> 'q \<Rightarrow> 'v option go"
  assumes len_law: "invar q \<Longrightarrow> len q = int (length (list q))"
    and at_law: "invar q \<Longrightarrow> 0 \<le> i \<Longrightarrow>
      at i q = Ret (if nat i < length (list q) then Some (list q ! nat i) else None)"
begin

text \<open>Pushing and then dropping the oldest entry of a log that grew past \<open>d\<close> keeps a window.\<close>

lemma push_trim:
  assumes "invar q" "length (list q) \<le> d"
  shows "\<exists>q'. go_bind (push v q) (\<lambda>q1. if len q1 > int d then go_map snd (pop q1) else Ret q1) = Ret q'
    \<and> invar q' \<and> list q' = lastn d (list q @ [v])"
proof -
  obtain q1 where q1: "push v q = Ret q1" "invar q1" "list q1 = list q @ [v]"
    using push_law [OF assms(1)] by blast
  show ?thesis
  proof (cases "length (list q) = d")
    case True
    obtain w ws where ws: "list q @ [v] = w # ws" by (cases "list q") auto
    with q1 obtain q2 where "pop q1 = Ret (Some w, q2)" "invar q2" "list q2 = ws"
      using pop_law [OF q1(2)] by metis
    moreover have "length ws = d" using True arg_cong [OF ws, of length] by simp
    then have "ws = lastn d (list q @ [v])" using ws by (simp add: lastn_def)
    ultimately show ?thesis using q1 True len_law [OF q1(2)] by auto
  next
    case False
    with assms q1 len_law [OF q1(2)] show ?thesis by auto
  qed
qed

end

section \<open>What a proxy does when its backend is unhealthy\<close>

text \<open>
  The contract of the callback the health checker calls: afterwards no connection is active any
  more, and every connection that was active or being closed is being closed.
\<close>

locale unhealthy_handler =
  fixes handle :: "'s \<Rightarrow> 's"
    and active :: "'s \<Rightarrow> 'c set"
    and closing :: "'s \<Rightarrow> 'c set"
  assumes handle_active: "active (handle s) = {}"
    and handle_closing: "closing (handle s) = closing s \<union> active s"
begin

lemma handle_idem: "active (handle (handle s)) = {} \<and> closing (handle (handle s)) = closing (handle s)"
  by (simp add: handle_active handle_closing)

end

section \<open>A bounded first-in first-out queue\<close>

locale bounded_queue =
  fixes try_send :: "'v \<Rightarrow> 'q \<Rightarrow> 'q option"
    and recv :: "'q \<Rightarrow> ('v \<times> 'q) option"
    and list :: "'q \<Rightarrow> 'v list"
    and bound :: "'q \<Rightarrow> nat"
  assumes send_law: "length (list q) < bound q \<Longrightarrow>
      \<exists>q'. try_send v q = Some q' \<and> list q' = list q @ [v] \<and> bound q' = bound q"
    and full_law: "bound q \<le> length (list q) \<Longrightarrow> try_send v q = None"
    and recv_empty_law: "list q = [] \<Longrightarrow> recv q = None"
    and recv_law: "list q = v # vs \<Longrightarrow> \<exists>q'. recv q = Some (v, q') \<and> list q' = vs \<and> bound q' = bound q"
begin

lemma try_send_SomeD:
  assumes "try_send v q = Some q'"
  shows "list q' = list q @ [v] \<and> bound q' = bound q \<and> length (list q) < bound q"
proof -
  have lt: "length (list q) < bound q" using assms full_law [of q v] by fastforce
  with send_law [OF lt, of v] assms show ?thesis by auto
qed

lemma recv_SomeD: "recv q = Some (v, q') \<Longrightarrow> list q = v # list q' \<and> bound q' = bound q"
  using recv_empty_law [of q] recv_law [of q] by (cases "list q") fastforce+

lemma recv_None_iff: "recv q = None \<longleftrightarrow> list q = []"
  using recv_empty_law [of q] recv_law [of q] by (cases "list q") fastforce+

lemma try_send_None_iff: "try_send v q = None \<longleftrightarrow> bound q \<le> length (list q)"
  using send_law [of q v] full_law [of q v] by fastforce

text \<open>What is in the queue, and within the bound: nothing is lost, duplicated or reordered.\<close>

definition conserves :: "'v list \<Rightarrow> 'v list \<Rightarrow> 'q \<Rightarrow> bool" where
  "conserves sent received q \<longleftrightarrow> sent = received @ list q \<and> length (list q) \<le> bound q"

lemma conserves_send:
  "conserves sent received q \<Longrightarrow> try_send v q = Some q' \<Longrightarrow> conserves (sent @ [v]) received q'"
  using try_send_SomeD [of v q q'] by (simp add: conserves_def)

lemma conserves_recv:
  "conserves sent received q \<Longrightarrow> recv q = Some (v, q') \<Longrightarrow> conserves sent (received @ [v]) q'"
  using recv_SomeD [of q v q'] by (simp add: conserves_def)

end

end
