(* ===== verification/Ring_Buffer.thy ===== *)
theory Ring_Buffer
  imports Interfaces
begin

text \<open>
  \<open>data/ring_buffer.go\<close>: a growing circular buffer. The state is the Go struct; the zero value
  of the element type, which \<open>make\<close> fills a slice with, is the argument \<open>zero\<close>. A read or
  write out of the slice is \<^const>\<open>Panic\<close>; the pair \<open>(v, ok)\<close> the getters return is an
  \<open>option\<close>. \<open>rb_list\<close> is the abstraction: the stored elements, oldest first.
\<close>

section \<open>The code\<close>

record 'a RingBuffer =
  buf :: "'a list"
  head :: int
  tail :: int

definition NewRingBuffer :: "'a \<Rightarrow> int list \<Rightarrow> 'a RingBuffer" where
  "NewRingBuffer zero capacity =
     (let c = (if capacity \<noteq> [] \<and> hd capacity > 0 then hd capacity else 16)
      in \<lparr>buf = replicate (nat c) zero, head = 0, tail = 0\<rparr>)"

definition buf_len :: "'a RingBuffer \<Rightarrow> int" where
  "buf_len b = int (length (buf b))"

definition Capacity :: "'a RingBuffer \<Rightarrow> int" where
  "Capacity b = buf_len b"

definition Length :: "'a RingBuffer \<Rightarrow> int" where
  "Length b = (if head b \<ge> tail b then head b - tail b else buf_len b + head b - tail b)"

definition Push :: "'a \<Rightarrow> 'a \<Rightarrow> 'a RingBuffer \<Rightarrow> 'a RingBuffer go" where
  "Push zero value b =
     (if head b \<ge> tail b then
        let size = head b - tail b;
            bs = (if size = buf_len b - 1
                  then slice_copy (replicate (2 * length (buf b)) zero) (buf b) else buf b)
        in go_bind (slice_set bs (head b) value) (\<lambda>bs'.
             let h = head b + 1
             in Ret (b\<lparr>buf := bs', head := (if h = int (length bs') then 0 else h)\<rparr>))
      else
        let size = buf_len b + head b - tail b
        in go_bind
             (if size = buf_len b - 1 then
                go_bind (slice_sub (buf b) (tail b) (buf_len b)) (\<lambda>upper.
                go_bind (slice_sub (buf b) 0 (head b)) (\<lambda>lower.
                  let newBuf = slice_copy (replicate (2 * length (buf b)) zero) upper;
                      k = nat (buf_len b - tail b)
                  in Ret \<lparr>buf = take k newBuf @ slice_copy (drop k newBuf) lower,
                          head = size, tail = 0\<rparr>))
              else Ret b)
             (\<lambda>b'. go_bind (slice_set (buf b') (head b') value) (\<lambda>bs'.
                Ret (b'\<lparr>buf := bs', head := head b' + 1\<rparr>))))"

definition Pop :: "'a RingBuffer \<Rightarrow> ('a option \<times> 'a RingBuffer) go" where
  "Pop b =
     (if head b = tail b then Ret (None, b)
      else go_bind (slice_get (buf b) (tail b)) (\<lambda>v.
        let t = tail b + 1
        in Ret (Some v, b\<lparr>tail := (if t = buf_len b then 0 else t)\<rparr>)))"

definition Pick :: "'a RingBuffer \<Rightarrow> ('a option \<times> 'a RingBuffer) go" where
  "Pick b =
     (if head b = tail b then Ret (None, b)
      else let h = head b - 1;
               h' = (if h < 0 then h + buf_len b else h)
           in go_bind (slice_get (buf b) h') (\<lambda>v. Ret (Some v, b\<lparr>head := h'\<rparr>)))"

definition Forget :: "int \<Rightarrow> 'a RingBuffer \<Rightarrow> 'a RingBuffer" where
  "Forget count b =
     (if count \<ge> Length b then b\<lparr>head := 0, tail := 0\<rparr>
      else let h = head b - count
           in b\<lparr>head := (if h < 0 then h + buf_len b else h)\<rparr>)"

definition At :: "int \<Rightarrow> 'a RingBuffer \<Rightarrow> 'a option go" where
  "At idx b =
     (if idx \<ge> Length b then Ret None
      else let pos = tail b + idx;
               pos' = (if pos \<ge> buf_len b then pos - buf_len b else pos)
           in go_map Some (slice_get (buf b) pos'))"

section \<open>Invariant and abstraction\<close>

definition rb_inv :: "'a RingBuffer \<Rightarrow> bool" where
  "rb_inv b \<longleftrightarrow> 0 \<le> head b \<and> head b < buf_len b \<and> 0 \<le> tail b \<and> tail b < buf_len b"

definition rb_list :: "'a RingBuffer \<Rightarrow> 'a list" where
  "rb_list b =
     (if head b \<ge> tail b then take (nat (head b - tail b)) (drop (nat (tail b)) (buf b))
      else drop (nat (tail b)) (buf b) @ take (nat (head b)) (buf b))"

text \<open>A buffer in its invariant, with its indices as natural numbers.\<close>

definition rb_of :: "'a list \<Rightarrow> nat \<Rightarrow> nat \<Rightarrow> 'a RingBuffer" where
  "rb_of bs h t = \<lparr>buf = bs, head = int h, tail = int t\<rparr>"

lemma rb_of_sel: "buf (rb_of bs h t) = bs" "head (rb_of bs h t) = int h" "tail (rb_of bs h t) = int t"
    "buf_len (rb_of bs h t) = int (length bs)"
  by (simp_all add: rb_of_def buf_len_def)

lemma rb_of_inject: "rb_of bs h t = rb_of bs' h' t' \<longleftrightarrow> bs = bs' \<and> h = h' \<and> t = t'"
  by (auto simp: rb_of_def)

lemma rb_eqI: "buf b = bs \<Longrightarrow> head b = int h \<Longrightarrow> tail b = int t \<Longrightarrow> (b :: 'a RingBuffer) = rb_of bs h t"
  by (simp add: rb_of_def)

lemma rb_cases:
  assumes "rb_inv b"
  obtains (linear) bs h t where "b = rb_of bs h t" "t \<le> h" "h < length bs"
    | (wrapped) bs h t where "b = rb_of bs h t" "h < t" "t < length bs"
proof -
  define h t where "h = nat (head b)" and "t = nat (tail b)"
  have b: "b = rb_of (buf b) h t" and l: "h < length (buf b)" "t < length (buf b)"
    using assms by (auto simp: rb_inv_def buf_len_def h_def t_def rb_of_def)
  show thesis
  proof (cases "t \<le> h")
    case True
    then show thesis using linear [OF b] l by simp
  next
    case False
    then show thesis using wrapped [OF b] l by simp
  qed
qed

lemma rb_linear [simp]:
  assumes "t \<le> h" "h < length bs"
  shows "rb_list (rb_of bs h t) = take (h - t) (drop t bs)"
    and "Length (rb_of bs h t) = int (h - t)"
    and "rb_inv (rb_of bs h t)"
  using assms by (auto simp: rb_list_def Length_def rb_inv_def rb_of_sel nat_diff_distrib)

lemma rb_wrapped [simp]:
  assumes "h < t" "t < length bs"
  shows "rb_list (rb_of bs h t) = drop t bs @ take h bs"
    and "Length (rb_of bs h t) = int (length bs + h - t)"
    and "rb_inv (rb_of bs h t)"
  using assms by (auto simp: rb_list_def Length_def rb_inv_def rb_of_sel)

lemma Capacity_rb_of [simp]: "Capacity (rb_of bs h t) = int (length bs)"
  by (simp add: Capacity_def rb_of_sel)

lemma Length_rb_list: "rb_inv b \<Longrightarrow> Length b = int (length (rb_list b))"
  by (erule rb_cases) auto

lemma Length_less_Capacity: "rb_inv b \<Longrightarrow> Length b < Capacity b"
  by (erule rb_cases) auto

lemma rb_inv_New [go_intros]: "rb_inv (NewRingBuffer zero capacity)"
  by (auto simp: NewRingBuffer_def rb_inv_def buf_len_def Let_def)

lemma rb_list_New [simp]: "rb_list (NewRingBuffer zero capacity) = []"
  by (simp add: NewRingBuffer_def rb_list_def Let_def)

section \<open>Every operation implements its list counterpart\<close>

lemma take_drop_snoc_update:
  "t \<le> h \<Longrightarrow> h < length bs \<Longrightarrow> take (Suc h - t) (drop t (bs[h := v])) = take (h - t) (drop t bs) @ [v]"
  by (simp add: Suc_diff_le take_Suc_conv_app_nth drop_update_swap)

lemma Push_linear:
  assumes "t \<le> h" "h < length bs"
  shows "Push zero v (rb_of bs h t) =
    Ret (if h - t = length bs - 1
         then rb_of ((bs @ replicate (length bs) zero)[h := v]) (Suc h) t
         else rb_of (bs[h := v]) (if Suc h = length bs then 0 else Suc h) t)"
proof -
  have size: "int h - int t = int (length bs) - 1 \<longleftrightarrow> h - t = length bs - 1"
    using assms by auto
  have copy: "slice_copy (replicate (2 * length bs) zero) bs = bs @ replicate (length bs) zero"
    by (simp add: slice_copy_fits)
  show ?thesis
    using assms size copy
    by (cases "h - t = length bs - 1")
      (auto simp: Push_def rb_of_sel slice_set_def Let_def intro!: rb_eqI)
qed

lemma slice_wrapped:
  assumes "h < t" "t < length bs"
  shows "slice_sub bs (int t) (int (length bs)) = Ret (drop t bs)"
    and "slice_sub bs 0 (int h) = Ret (take h bs)"
  using assms by (simp_all add: slice_sub_def nat_diff_distrib)

lemma Push_wrapped:
  assumes "h < t" "t < length bs"
  shows "Push zero v (rb_of bs h t) =
    Ret (if Suc h = t
         then rb_of ((drop t bs @ take h bs @ replicate (length bs + t - h) zero)
                [length bs - 1 := v]) (Suc (length bs - 1)) 0
         else rb_of (bs[h := v]) (Suc h) t)"
proof -
  let ?n = "length bs"
  have "slice_copy (replicate (2 * ?n) zero) (drop t bs) = drop t bs @ replicate (?n + t) zero"
    using assms by (simp add: slice_copy_fits drop_replicate)
  then have grown: "take (?n - t) (slice_copy (replicate (2 * ?n) zero) (drop t bs)) @
      slice_copy (drop (?n - t) (slice_copy (replicate (2 * ?n) zero) (drop t bs))) (take h bs)
      = drop t bs @ take h bs @ replicate (?n + t - h) zero"
    using assms by (simp add: slice_copy_fits drop_replicate)
  have size: "int ?n + int h - int t = int ?n - 1 \<longleftrightarrow> Suc h = t" using assms by auto
  have k: "nat (int ?n - int t) = ?n - t" by (simp add: nat_diff_distrib)
  show ?thesis
  proof (cases "Suc h = t")
    case True
    then have last: "nat (int ?n + int h - int t) = ?n - Suc 0" using assms by auto
    show ?thesis
      using assms True size grown slice_wrapped [OF assms] k last
      by (simp add: Push_def rb_of_sel slice_set_def Let_def)
  next
    case False
    then show ?thesis
      using assms size by (auto simp: Push_def rb_of_sel slice_set_def Let_def intro!: rb_eqI)
  qed
qed

lemma Push_correct:
  assumes "rb_inv b"
  shows "\<exists>b'. Push zero v b = Ret b' \<and> rb_inv b' \<and> rb_list b' = rb_list b @ [v] \<and>
    Capacity b' = (if Length b = Capacity b - 1 then 2 else 1) * Capacity b"
  using assms
proof (cases b rule: rb_cases)
  case (linear bs h t)
  note snoc = take_drop_snoc_update [OF linear(2), of _ v]
  have size: "Length b = Capacity b - 1 \<longleftrightarrow> h - t = length bs - 1" using linear by auto
  show ?thesis
  proof (cases "h - t = length bs - 1")
    case True
    with linear have "Suc h < length (bs @ replicate (length bs) zero)" by (cases bs) auto
    with linear True size snoc [of "bs @ replicate (length bs) zero"] show ?thesis
      by (simp add: Push_linear)
  next
    case False
    with linear size snoc [of bs] show ?thesis
      by (cases "Suc h = length bs") (auto simp: Push_linear)
  qed
next
  case (wrapped bs h t)
  have size: "Length b = Capacity b - 1 \<longleftrightarrow> Suc h = t" using wrapped by auto
  show ?thesis
  proof (cases "Suc h = t")
    case True
    let ?cs = "drop t bs @ take h bs @ replicate (length bs + t - h) zero"
    have "length bs - 1 = length (drop t bs @ take h bs)" using wrapped True by simp
    moreover have "Suc (length bs - 1) < length ?cs" using wrapped by simp
    ultimately show ?thesis
      using wrapped True size take_drop_snoc_update [of 0 "length bs - 1" ?cs v]
      by (simp add: Push_wrapped)
  next
    case False
    with wrapped size take_drop_snoc_update [of 0 h bs v] show ?thesis
      by (simp add: Push_wrapped)
  qed
qed

lemma Pop_empty: "rb_inv b \<Longrightarrow> rb_list b = [] \<Longrightarrow> Pop b = Ret (None, b)"
  by (erule rb_cases) (auto simp: Pop_def rb_of_sel)

lemma Pop_correct:
  assumes "rb_inv b" "rb_list b = v # vs"
  shows "\<exists>b'. Pop b = Ret (Some v, b') \<and> rb_inv b' \<and> rb_list b' = vs \<and> Capacity b' = Capacity b"
  using assms(1)
proof (cases b rule: rb_cases)
  case (linear bs h t)
  with assms(2) have "t < h" by (cases "t = h") auto
  with linear assms(2) have v: "v = bs ! t" "vs = take (h - Suc t) (drop (Suc t) bs)"
    by (simp_all add: Cons_nth_drop_Suc [symmetric] take_Cons')
  have "Pop b = Ret (Some v, rb_of bs h (Suc t))"
    using linear \<open>t < h\<close> v by (auto simp: Pop_def slice_get_def rb_of_sel Let_def intro!: rb_eqI)
  with linear \<open>t < h\<close> v show ?thesis by simp
next
  case (wrapped bs h t)
  have v: "v = bs ! t" "vs = drop (Suc t) bs @ take h bs"
    using wrapped assms(2) by (simp_all add: Cons_nth_drop_Suc [symmetric])
  have "Pop b = Ret (Some v, rb_of bs h (if Suc t = length bs then 0 else Suc t))"
    using wrapped v by (auto simp: Pop_def slice_get_def rb_of_sel Let_def intro!: rb_eqI)
  with wrapped v show ?thesis by auto
qed

lemma Pick_empty: "rb_inv b \<Longrightarrow> rb_list b = [] \<Longrightarrow> Pick b = Ret (None, b)"
  by (erule rb_cases) (auto simp: Pick_def rb_of_sel)

lemma Pick_correct:
  assumes "rb_inv b" "rb_list b = vs @ [v]"
  shows "\<exists>b'. Pick b = Ret (Some v, b') \<and> rb_inv b' \<and> rb_list b' = vs \<and> Capacity b' = Capacity b"
  using assms(1)
proof (cases b rule: rb_cases)
  case (linear bs h t)
  with assms(2) have "t < h" by (cases "t = h") auto
  then obtain k where k: "h = Suc k" "t \<le> k" by (cases h) auto
  with linear assms(2) have v: "v = bs ! k" "vs = take (k - t) (drop t bs)"
    by (simp_all add: Suc_diff_le take_Suc_conv_app_nth)
  have "Pick b = Ret (Some v, rb_of bs k t)"
    using linear k v by (auto simp: Pick_def slice_get_def rb_of_sel Let_def intro!: rb_eqI)
  with linear k v show ?thesis by simp
next
  case (wrapped bs h t)
  show ?thesis
  proof (cases h)
    case 0
    with wrapped assms(2) have "vs @ [v] = drop t bs" by simp
    moreover have "drop t bs = take (length bs - 1 - t) (drop t bs) @ [bs ! (length bs - 1)]"
      using wrapped(3) take_Suc_conv_app_nth [of "length bs - 1 - t" "drop t bs"] by simp
    ultimately have v: "vs = take (length bs - 1 - t) (drop t bs)" "v = bs ! (length bs - 1)"
      by (metis append1_eq_conv)+
    have "Pick b = Ret (Some v, rb_of bs (length bs - 1) t)"
      using wrapped 0 v
      by (auto simp: Pick_def slice_get_def rb_of_sel Let_def nat_diff_distrib of_nat_diff intro!: rb_eqI)
    with wrapped 0 v show ?thesis by simp
  next
    case (Suc k)
    with wrapped assms(2) have v: "v = bs ! k" "vs = drop t bs @ take k bs"
      by (simp_all add: take_Suc_conv_app_nth)
    have "Pick b = Ret (Some v, rb_of bs k t)"
      using wrapped Suc v by (auto simp: Pick_def slice_get_def rb_of_sel Let_def intro!: rb_eqI)
    with wrapped Suc v show ?thesis by simp
  qed
qed

lemma At_correct:
  assumes "rb_inv b" "0 \<le> idx"
  shows "At idx b = Ret (if nat idx < length (rb_list b) then Some (rb_list b ! nat idx) else None)"
proof -
  obtain i where i: "idx = int i" using assms(2) by (metis nonneg_int_cases)
  from assms(1) show ?thesis unfolding i
  proof (cases b rule: rb_cases)
    case (linear bs h t)
    then show "At (int i) b = Ret (if nat (int i) < length (rb_list b)
        then Some (rb_list b ! nat (int i)) else None)"
      by (auto simp: At_def slice_get_def rb_of_sel Let_def nat_add_distrib)
  next
    case (wrapped bs h t)
    then have "nat (int t + int i - int (length bs)) = t + i - length bs"
      and "length bs \<le> t + i \<Longrightarrow> i - (length bs - t) = t + i - length bs" by auto
    with wrapped show "At (int i) b = Ret (if nat (int i) < length (rb_list b)
        then Some (rb_list b ! nat (int i)) else None)"
      by (auto simp: At_def slice_get_def rb_of_sel Let_def nat_add_distrib nth_append)
  qed
qed

lemma Forget_rb_of:
  assumes "rb_inv (rb_of bs h t)" "int c < Length (rb_of bs h t)"
  shows "Forget (int c) (rb_of bs h t) = rb_of bs (if c \<le> h then h - c else h + length bs - c) t"
  using assms
  by (auto simp: Forget_def Let_def rb_of_sel rb_inv_def Length_def split: if_splits intro!: rb_eqI)

lemma Forget_correct:
  assumes "rb_inv b" "0 \<le> count"
  shows "rb_inv (Forget count b)"
    and "rb_list (Forget count b) = take (length (rb_list b) - nat count) (rb_list b)"
    and "Capacity (Forget count b) = Capacity b"
proof -
  obtain c where c: "count = int c" using assms(2) by (metis nonneg_int_cases)
  have "rb_inv (Forget count b) \<and> Capacity (Forget count b) = Capacity b \<and>
    rb_list (Forget count b) = take (length (rb_list b) - nat count) (rb_list b)"
  proof (cases "count \<ge> Length b")
    case True
    with assms(1) show ?thesis
      by (auto simp: Forget_def rb_inv_def rb_list_def buf_len_def Length_rb_list Capacity_def)
  next
    case False
    from assms(1) show ?thesis
    proof (cases b rule: rb_cases)
      case (linear bs h t)
      with False c have "c < h - t" by simp
      moreover from this have "h - c - t = h - t - c" by simp
      ultimately show ?thesis
        using linear c False assms(1) by (simp add: Forget_rb_of)
    next
      case (wrapped bs h t)
      with False c have "c < length bs + h - t" by simp
      moreover have "h + length bs - c - t = length bs + h - t - c" by simp
      ultimately show ?thesis
        using wrapped c False assms(1) by (auto simp: Forget_rb_of)
    qed
  qed
  then show "rb_inv (Forget count b)" "Capacity (Forget count b) = Capacity b"
      "rb_list (Forget count b) = take (length (rb_list b) - nat count) (rb_list b)" by auto
qed

lemma rb_empty_correct: "\<exists>b'. Pop b = Ret (None, b')" if "rb_inv b" "rb_list b = []"
  using that Pop_empty by blast

interpretation rb: window_log "Push zero" Pop rb_list rb_inv Length At
  for zero :: 'a
proof unfold_locales
  show "\<exists>q'. Push zero v q = Ret q' \<and> rb_inv q' \<and> rb_list q' = rb_list q @ [v]"
    if "rb_inv q" for v :: 'a and q
    using Push_correct [OF that] by blast
  show "\<exists>q'. Pop q = Ret (Some v, q') \<and> rb_inv q' \<and> rb_list q' = vs"
    if "rb_inv q" "rb_list q = v # vs" for v :: 'a and q vs
    using Pop_correct [OF that] by blast
qed (auto simp: Pop_empty Length_rb_list At_correct)

section \<open>Sequences of operations\<close>

datatype 'a rb_op = OpPush 'a | OpPop | OpPick | OpForget int | OpAt int | OpLength

datatype 'a rb_out = OutUnit | OutElem "'a option" | OutInt int

fun rb_exec :: "'a \<Rightarrow> 'a rb_op \<Rightarrow> 'a RingBuffer \<Rightarrow> ('a rb_out \<times> 'a RingBuffer) go" where
  "rb_exec zero (OpPush v) b = go_map (\<lambda>b'. (OutUnit, b')) (Push zero v b)"
| "rb_exec zero OpPop b = go_map (\<lambda>(v, b'). (OutElem v, b')) (Pop b)"
| "rb_exec zero OpPick b = go_map (\<lambda>(v, b'). (OutElem v, b')) (Pick b)"
| "rb_exec zero (OpForget n) b = Ret (OutUnit, Forget n b)"
| "rb_exec zero (OpAt i) b = go_map (\<lambda>v. (OutElem v, b)) (At i b)"
| "rb_exec zero OpLength b = Ret (OutInt (Length b), b)"

fun rb_run :: "'a \<Rightarrow> 'a rb_op list \<Rightarrow> 'a RingBuffer \<Rightarrow> ('a rb_out list \<times> 'a RingBuffer) go" where
  "rb_run zero [] b = Ret ([], b)"
| "rb_run zero (x # xs) b =
     go_bind (rb_exec zero x b) (\<lambda>(o1, b1). go_map (\<lambda>(os, b2). (o1 # os, b2)) (rb_run zero xs b1))"

text \<open>
  The code does not look whether an index or a count is negative: \<open>At\<close> then reads beside the
  stored elements or out of the slice, \<open>Forget\<close> moves the head forward. A call that is meant has
  neither.
\<close>

fun op_ok :: "'a rb_op \<Rightarrow> bool" where
  "op_ok (OpForget n) = (0 \<le> n)"
| "op_ok (OpAt i) = (0 \<le> i)"
| "op_ok x = True"

text \<open>The specification: a double-ended queue held as a list, oldest element first.\<close>

fun deque_exec :: "'a rb_op \<Rightarrow> 'a list \<Rightarrow> 'a rb_out \<times> 'a list" where
  "deque_exec (OpPush v) xs = (OutUnit, xs @ [v])"
| "deque_exec OpPop xs = (case xs of [] \<Rightarrow> (OutElem None, []) | y # ys \<Rightarrow> (OutElem (Some y), ys))"
| "deque_exec OpPick xs =
     (if xs = [] then (OutElem None, []) else (OutElem (Some (last xs)), butlast xs))"
| "deque_exec (OpForget n) xs = (OutUnit, take (length xs - nat n) xs)"
| "deque_exec (OpAt i) xs = (OutElem (if nat i < length xs then Some (xs ! nat i) else None), xs)"
| "deque_exec OpLength xs = (OutInt (int (length xs)), xs)"

fun deque_run :: "'a rb_op list \<Rightarrow> 'a list \<Rightarrow> 'a rb_out list \<times> 'a list" where
  "deque_run [] xs = ([], xs)"
| "deque_run (x # ops) xs =
     (let (o1, ys) = deque_exec x xs; (os, zs) = deque_run ops ys in (o1 # os, zs))"

lemma rb_exec_deque:
  assumes "rb_inv b" "op_ok x"
  shows "\<exists>b'. rb_exec zero x b = Ret (fst (deque_exec x (rb_list b)), b') \<and> rb_inv b' \<and>
    rb_list b' = snd (deque_exec x (rb_list b))"
proof (cases x)
  case (OpPush v)
  then show ?thesis using Push_correct [OF assms(1), of zero v] by auto
next
  case OpPop
  then show ?thesis
    using assms(1) Pop_empty [OF assms(1)] Pop_correct [OF assms(1)] by (cases "rb_list b") fastforce+
next
  case OpPick
  then show ?thesis
    using assms(1) Pick_empty [OF assms(1)] Pick_correct [OF assms(1)]
    by (cases "rb_list b" rule: rev_cases) fastforce+
qed (use assms in \<open>auto simp: Forget_correct At_correct Length_rb_list\<close>)

lemma rb_run_deque:
  assumes "rb_inv b" "list_all op_ok ops"
  shows "\<exists>b'. rb_run zero ops b = Ret (fst (deque_run ops (rb_list b)), b') \<and> rb_inv b' \<and>
    rb_list b' = snd (deque_run ops (rb_list b))"
  using assms
proof (induction ops arbitrary: b)
  case Nil
  then show ?case by simp
next
  case (Cons x ops)
  then have ok: "op_ok x" "list_all op_ok ops" by simp_all
  obtain b1 where b1: "rb_exec zero x b = Ret (fst (deque_exec x (rb_list b)), b1)" "rb_inv b1"
      "rb_list b1 = snd (deque_exec x (rb_list b))"
    using rb_exec_deque [OF Cons.prems(1) ok(1)] by blast
  with Cons.IH [OF b1(2) ok(2)] show ?case
    by (auto simp: Let_def split_beta)
qed

lemma At_negative_new: "i < 0 \<Longrightarrow> At i (NewRingBuffer zero capacity) = Panic"
  by (auto simp: At_def NewRingBuffer_def Length_def slice_get_def Let_def buf_len_def)

text \<open>
  C12: The growing circular buffer implements a double-ended queue: whatever its capacity, any
  sequence of \<open>Push\<close>, \<open>Pop\<close>, \<open>Pick\<close>, \<open>Forget\<close>, \<open>At\<close> and \<open>Length\<close> calls on a new buffer in which no
  count and no index is negative runs without an index panic, returns exactly what the same calls
  return on a list, and leaves the buffer in its invariant with that list as its contents; growing
  and wrapping around never lose, duplicate or reorder an element. The restriction is needed: on a
  new buffer \<open>At\<close> panics at every negative index.
\<close>
theorem RingBuffer_refines_deque:
  assumes "list_all op_ok ops"
  shows "(\<exists>b. rb_run zero ops (NewRingBuffer zero capacity) = Ret (fst (deque_run ops []), b) \<and>
      rb_inv b \<and> rb_list b = snd (deque_run ops [])) \<and>
    (\<forall>i < 0. At i (NewRingBuffer zero capacity) = Panic)"
  using rb_run_deque [OF rb_inv_New assms, of zero zero capacity] At_negative_new by auto

theorem RingBuffer_refines_deque_witness:
  "\<exists>b. rb_run 0 [OpPush 7, OpPush 8, OpPush (9 :: int), OpPop, OpAt 1, OpForget 1, OpLength] (NewRingBuffer 0 [2])
     = Ret ([OutUnit, OutUnit, OutUnit, OutElem (Some 7), OutElem (Some 9), OutUnit, OutInt 1], b) \<and> rb_list b = [8]"
proof -
  let ?ops = "[OpPush 7, OpPush 8, OpPush (9 :: int), OpPop, OpAt 1, OpForget 1, OpLength]"
  have "list_all op_ok ?ops" "deque_run ?ops [] = ([OutUnit, OutUnit, OutUnit, OutElem (Some 7), OutElem (Some 9), OutUnit, OutInt 1], [8])"
    by simp_all
  with RingBuffer_refines_deque [of ?ops 0 "[2]"] show ?thesis by (simp del: rb_run.simps) blast
qed

end
