(* ===== verification/Healthcheck.thy ===== *)
theory Healthcheck
  imports Ring_Buffer
begin

text \<open>
  \<open>proxy/healthcheck.go\<close>: the periodic probe of a backend. The state is the Go struct without
  its HTTP client, ticker and URI; one tick of the ticker is one \<open>check\<close>, whose input is the
  outcome of the GET request. The callback \<open>handleUnhealthy\<close> acts on the state \<open>'s\<close> of its
  owner (the proxy), which \<open>check\<close> therefore threads through. The client, and the lock that
  makes a check atomic, are not modelled further.
\<close>

section \<open>The code\<close>

record healthcheck =
  interval :: int
  thresholdHealthy :: int
  thresholdUnhealthy :: int
  depth :: int
  statuses :: "bool RingBuffer"
  isHealthy :: bool

datatype probe = ProbeError string | ProbeStatus int

definition newHealthcheck :: "(string \<Rightarrow> bool) \<Rightarrow> string \<Rightarrow> int \<Rightarrow> int \<Rightarrow> int \<Rightarrow> healthcheck option go" where
  \<comment> \<open>\<open>uri_ok\<close>: whether fasthttp parses the URL; \<open>time.NewTicker\<close> panics unless its interval is positive\<close>
  "newHealthcheck uri_ok url itv th tu =
     (if \<not> uri_ok url then Ret None
      else if itv \<le> 0 then Panic
      else Ret (Some \<lparr>interval = itv, thresholdHealthy = th, thresholdUnhealthy = tu,
                      depth = max th tu, statuses = NewRingBuffer False [max th tu],
                      isHealthy = True\<rparr>))"

definition IsHealthy :: "healthcheck option \<Rightarrow> bool" where
  "IsHealthy h = (case h of None \<Rightarrow> True | Some h \<Rightarrow> isHealthy h)"

definition probe_ok :: "probe \<Rightarrow> bool" where
  "probe_ok p = (case p of ProbeError e \<Rightarrow> False | ProbeStatus code \<Rightarrow> code = 200 \<or> code = 202)"

text \<open>
  The two loops \<open>for idx := h.depth - 1; idx >= lo; idx--\<close> of \<open>check\<close> differ in the test \<open>P\<close>
  only: the status itself for \<open>isHealthy\<close>, its negation for \<open>isUnhealthy\<close>.
\<close>

function all_recorded :: "(bool \<Rightarrow> bool) \<Rightarrow> bool RingBuffer \<Rightarrow> int \<Rightarrow> int \<Rightarrow> bool \<Rightarrow> bool go" where
  "all_recorded P st lo idx acc =
     (if idx \<ge> lo then
        go_bind (At idx st) (\<lambda>r. all_recorded P st lo (idx - 1)
          (case r of Some s \<Rightarrow> acc \<and> P s | None \<Rightarrow> acc))
      else Ret acc)"
  by pat_completeness auto
termination by (relation "measure (\<lambda>(P, st, lo, idx, acc). nat (idx - lo + 1))") auto

declare all_recorded.simps [simp del]

definition record_status :: "bool \<Rightarrow> healthcheck \<Rightarrow> healthcheck go" where
  "record_status status h =
     go_map (\<lambda>q. h\<lparr>statuses := q\<rparr>)
       (go_bind (Push False status (statuses h)) (\<lambda>q1.
          if Length q1 > depth h then go_map snd (Pop q1) else Ret q1))"

definition check :: "('s \<Rightarrow> 's) \<Rightarrow> probe \<Rightarrow> healthcheck \<times> 's \<Rightarrow> (healthcheck \<times> 's) go" where
  "check handleUnhealthy p = (\<lambda>(h, s).
     go_bind (record_status (probe_ok p) h) (\<lambda>h1.
     go_bind (all_recorded (\<lambda>s. s) (statuses h1) (depth h1 - thresholdHealthy h1) (depth h1 - 1) True) (\<lambda>good.
     go_bind (all_recorded Not (statuses h1) (depth h1 - thresholdUnhealthy h1) (depth h1 - 1) True) (\<lambda>bad.
       let h2 = (if isHealthy h1 \<and> bad then h1\<lparr>isHealthy := False\<rparr>
                 else if \<not> isHealthy h1 \<and> good then h1\<lparr>isHealthy := True\<rparr>
                 else h1)
       in Ret (h2, if \<not> isHealthy h2 then handleUnhealthy s else s)))))"

fun check_all :: "('s \<Rightarrow> 's) \<Rightarrow> probe list \<Rightarrow> healthcheck \<times> 's \<Rightarrow> (healthcheck \<times> 's) go" where
  \<comment> \<open>the loop of \<open>run\<close>: one check per tick\<close>
  "check_all handleUnhealthy [] hs = Ret hs"
| "check_all handleUnhealthy (p # ps) hs =
     go_bind (check handleUnhealthy p hs) (check_all handleUnhealthy ps)"

section \<open>Invariant, and the loops as list predicates\<close>

definition hc_list :: "healthcheck \<Rightarrow> bool list" where
  "hc_list h = rb_list (statuses h)"

definition hc_inv :: "healthcheck \<Rightarrow> bool" where
  "hc_inv h \<longleftrightarrow> rb_inv (statuses h) \<and> 1 \<le> thresholdHealthy h \<and> 1 \<le> thresholdUnhealthy h \<and>
     depth h = max (thresholdHealthy h) (thresholdUnhealthy h) \<and>
     length (hc_list h) \<le> nat (depth h)"

lemma list_all_drop_take_Suc:
  "lo \<le> i \<Longrightarrow> list_all P (drop lo (take (Suc i) xs)) \<longleftrightarrow>
     list_all P (drop lo (take i xs)) \<and> (i < length xs \<longrightarrow> P (xs ! i))"
  by (cases "i < length xs") (auto simp: take_Suc_conv_app_nth)

lemma all_recorded_list:
  assumes "rb_inv st"
  shows "all_recorded P st (int lo) (int n - 1) acc
    = Ret (acc \<and> list_all P (drop lo (take n (rb_list st))))"
proof (induction n arbitrary: acc)
  case 0
  then show ?case by (simp add: all_recorded.simps)
next
  case (Suc n)
  show ?case
  proof (cases "lo \<le> n")
    case True
    then show ?thesis
      using Suc At_correct [OF assms, of "int n"]
      by (subst all_recorded.simps) (auto simp: list_all_drop_take_Suc)
  next
    case False
    then show ?thesis by (simp add: all_recorded.simps)
  qed
qed

lemma record_status_list:
  assumes "hc_inv h"
  shows "\<exists>q. record_status st h = Ret (h\<lparr>statuses := q\<rparr>) \<and> rb_inv q \<and>
    rb_list q = lastn (nat (depth h)) (hc_list h @ [st])"
proof -
  have d: "int (nat (depth h)) = depth h" using assms by (auto simp: hc_inv_def)
  obtain q where "go_bind (Push False st (statuses h)) (\<lambda>q1. if Length q1 > int (nat (depth h))
        then go_map snd (Pop q1) else Ret q1) = Ret q"
      "rb_inv q" "rb_list q = lastn (nat (depth h)) (hc_list h @ [st])"
    using rb.push_trim [of "statuses h" "nat (depth h)" False st] assms
    by (auto simp: hc_inv_def hc_list_def)
  then show ?thesis unfolding d record_status_def by (intro exI [of _ q]) simp
qed

text \<open>What one check decides, over the recorded statuses.\<close>

definition verdict :: "int \<Rightarrow> int \<Rightarrow> bool list \<Rightarrow> bool \<Rightarrow> bool" where
  "verdict th tu xs healthy =
     (let d = max th tu
      in if healthy \<and> list_all Not (drop (nat (d - tu)) xs) then False
         else if \<not> healthy \<and> list_all (\<lambda>s. s) (drop (nat (d - th)) xs) then True
         else healthy)"

lemma check_list:
  assumes "hc_inv h"
  shows "\<exists>h'. check f p (h, s) = Ret (h', if isHealthy h' then s else f s) \<and> hc_inv h' \<and>
    hc_list h' = lastn (nat (depth h)) (hc_list h @ [probe_ok p]) \<and>
    isHealthy h' = verdict (thresholdHealthy h) (thresholdUnhealthy h) (hc_list h') (isHealthy h) \<and>
    thresholdHealthy h' = thresholdHealthy h \<and> thresholdUnhealthy h' = thresholdUnhealthy h \<and>
    depth h' = depth h"
proof -
  let ?n = "nat (depth h)"
  obtain q where q: "record_status (probe_ok p) h = Ret (h\<lparr>statuses := q\<rparr>)" "rb_inv q"
      "rb_list q = lastn ?n (hc_list h @ [probe_ok p])"
    using record_status_list [OF assms] by blast
  have d: "0 \<le> depth h" and le: "thresholdHealthy h \<le> depth h" "thresholdUnhealthy h \<le> depth h"
    using assms by (auto simp: hc_inv_def)
  have scan: "all_recorded P q (depth h - t) (depth h - 1) True
      = Ret (list_all P (drop (nat (depth h - t)) (rb_list q)))" if "t \<le> depth h" for P t
    using all_recorded_list [OF q(2), of P "nat (depth h - t)" ?n True] that d q(3) by simp
  define good where "good = list_all (\<lambda>s. s) (drop (nat (depth h - thresholdHealthy h)) (rb_list q))"
  define bad where "bad = list_all Not (drop (nat (depth h - thresholdUnhealthy h)) (rb_list q))"
  define h' where "h' = h\<lparr>statuses := q, isHealthy :=
    (if isHealthy h \<and> bad then False else if \<not> isHealthy h \<and> good then True else isHealthy h)\<rparr>"
  have "check f p (h, s) = Ret (h', if isHealthy h' then s else f s)"
    using q(1) scan [OF le(1)] scan [OF le(2)]
    by (auto simp: check_def h'_def good_def bad_def Let_def)
  moreover have "isHealthy h' = verdict (thresholdHealthy h) (thresholdUnhealthy h) (rb_list q) (isHealthy h)"
    using assms by (auto simp: h'_def verdict_def good_def bad_def hc_inv_def Let_def)
  ultimately show ?thesis
    using assms q(2,3) by (intro exI [of _ h']) (auto simp: h'_def hc_inv_def hc_list_def)
qed

lemma check_all_append:
  "check_all f (ps @ qs) hs = go_bind (check_all f ps hs) (check_all f qs)"
proof (induction ps arbitrary: hs)
  case (Cons p ps)
  then have "check_all f (ps @ qs) = (\<lambda>hs. go_bind (check_all f ps hs) (check_all f qs))"
    by (intro ext)
  then show ?case by (simp add: go_bind_assoc)
qed simp

lemma check_all_list:
  assumes "hc_inv h"
  shows "\<exists>h' s'. check_all f ps (h, s) = Ret (h', s') \<and> hc_inv h' \<and>
    hc_list h' = lastn (nat (depth h)) (hc_list h @ map probe_ok ps) \<and>
    thresholdHealthy h' = thresholdHealthy h \<and> thresholdUnhealthy h' = thresholdUnhealthy h \<and>
    depth h' = depth h"
proof (induction ps rule: rev_induct)
  case Nil
  have "length (hc_list h) \<le> nat (depth h)" using assms unfolding hc_inv_def by blast
  with assms show ?case by simp
next
  case (snoc p ps)
  then obtain h1 s1 where h1: "check_all f ps (h, s) = Ret (h1, s1)" "hc_inv h1"
      "hc_list h1 = lastn (nat (depth h)) (hc_list h @ map probe_ok ps)"
      "thresholdHealthy h1 = thresholdHealthy h" "thresholdUnhealthy h1 = thresholdUnhealthy h"
      "depth h1 = depth h"
    by blast
  with check_list [OF h1(2), of f p s1] show ?case
    by (auto simp: check_all_append lastn_snoc)
qed

lemma newHealthcheck_inv:
  assumes "newHealthcheck uri_ok url itv th tu = Ret (Some h)" "1 \<le> th" "1 \<le> tu"
  shows "hc_inv h" "hc_list h = []" "isHealthy h" "depth h = max th tu"
    "thresholdHealthy h = th" "thresholdUnhealthy h = tu"
  using assms rb_inv_New [of False "[max th tu]"]
  by (auto simp: newHealthcheck_def hc_inv_def hc_list_def split: if_splits)

section \<open>Properties\<close>

text \<open>How long the run of equal results at the end of a history is.\<close>

definition streak :: "(bool \<Rightarrow> bool) \<Rightarrow> bool list \<Rightarrow> nat" where
  "streak P xs = length (takeWhile P (rev xs))"

lemma list_all_take_takeWhile: "n \<le> length xs \<Longrightarrow> list_all P (take n xs) \<longleftrightarrow> n \<le> length (takeWhile P xs)"
proof (induction xs arbitrary: n)
  case (Cons x xs)
  then show ?case by (cases n) auto
qed simp

lemma list_all_lastn_streak:
  assumes "n \<le> d" "d \<le> length xs"
  shows "list_all P (drop (d - n) (lastn d xs)) \<longleftrightarrow> n \<le> streak P xs"
proof -
  have "drop (d - n) (lastn d xs) = rev (take n (rev xs))"
    using assms by (simp add: lastn_def take_rev)
  then have "list_all P (drop (d - n) (lastn d xs)) \<longleftrightarrow> list_all P (take n (rev xs))"
    by (simp add: list_all_iff)
  also have "\<dots> \<longleftrightarrow> n \<le> streak P xs"
    using assms by (simp add: list_all_take_takeWhile streak_def)
  finally show ?thesis .
qed

text \<open>
  C30: For any configuration the validation accepts and any sequence of probe outcomes, the
  health checker never panics, and what it keeps is exactly the results of the last
  \<open>max(thresholdHealthy, thresholdUnhealthy)\<close> probes, in order: its use of the ring buffer is a
  sliding window over the history.
\<close>
theorem healthcheck_sliding_window:
  assumes "newHealthcheck uri_ok url itv th tu = Ret (Some h)" "1 \<le> th" "1 \<le> tu"
  shows "\<exists>h' s'. check_all f ps (h, s) = Ret (h', s') \<and> hc_inv h' \<and>
    hc_list h' = lastn (nat (max th tu)) (map probe_ok ps)"
  using check_all_list [OF newHealthcheck_inv(1) [OF assms], of f ps s]
    newHealthcheck_inv [OF assms] by auto

theorem healthcheck_sliding_window_witness:
  "\<exists>h h' s'. newHealthcheck (\<lambda>_. True) ''http://h'' 1000000000 2 3 = Ret (Some h) \<and>
     check_all (\<lambda>n. n + 1) [ProbeStatus 200, ProbeStatus 500, ProbeError ''eof'', ProbeStatus 202] (h, 0 :: nat)
       = Ret (h', s') \<and> hc_list h' = [False, False, True]"
proof -
  obtain h where h: "newHealthcheck (\<lambda>_. True) ''http://h'' 1000000000 2 3 = Ret (Some h)"
    by (simp add: newHealthcheck_def)
  show ?thesis
    using healthcheck_sliding_window [OF h, of "\<lambda>n. n + 1"
        "[ProbeStatus 200, ProbeStatus 500, ProbeError ''eof'', ProbeStatus 202]" "0 :: nat"] h
    by (auto simp: probe_ok_def lastn_def)
qed

text \<open>
  C10: Once the window has filled (at least \<open>max(thresholdHealthy, thresholdUnhealthy) - 1\<close>
  earlier probes), the state machine is the documented one: a healthy backend becomes unhealthy
  exactly when the last \<open>thresholdUnhealthy\<close> probes failed, an unhealthy one becomes healthy
  exactly when the last \<open>thresholdHealthy\<close> probes succeeded, and the unhealthy callback runs
  after exactly the checks that leave the backend unhealthy.
\<close>
theorem healthcheck_thresholds:
  assumes new: "newHealthcheck uri_ok url itv th tu = Ret (Some h)" and th: "1 \<le> th" "1 \<le> tu"
    and full: "max th tu \<le> int (length ps) + 1"
    and run: "check_all f ps (h, s) = Ret (h1, s1)" and step: "check f p (h1, s1) = Ret (h2, s2)"
  shows "(isHealthy h2 \<longleftrightarrow>
      (if isHealthy h1 then int (streak Not (map probe_ok (ps @ [p]))) < tu
       else th \<le> int (streak (\<lambda>s. s) (map probe_ok (ps @ [p]))))) \<and>
    s2 = (if isHealthy h2 then s1 else f s1)"
proof -
  let ?d = "nat (max th tu)" and ?xs = "map probe_ok (ps @ [p])"
  note h = newHealthcheck_inv [OF new th]
  have h1: "hc_inv h1" "hc_list h1 = lastn ?d (map probe_ok ps)" "thresholdHealthy h1 = th"
      "thresholdUnhealthy h1 = tu" "depth h1 = max th tu"
    using check_all_list [OF h(1), of f ps s] run h by auto
  then have h2: "hc_list h2 = lastn ?d ?xs" "s2 = (if isHealthy h2 then s1 else f s1)"
      "isHealthy h2 = verdict th tu (hc_list h2) (isHealthy h1)"
    using check_list [OF h1(1), of f p s1] step by (auto simp: lastn_snoc)
  have suffix: "list_all P (drop (nat (max th tu - t)) (hc_list h2)) \<longleftrightarrow> t \<le> int (streak P ?xs)"
    if "1 \<le> t" "t \<le> max th tu" for P t
  proof -
    have "nat t \<le> ?d" "?d \<le> length ?xs" "nat (max th tu - t) = ?d - nat t"
      using that full by auto
    with list_all_lastn_streak [of "nat t" ?d ?xs P] that show ?thesis by (simp add: h2(1) nat_le_iff)
  qed
  have "isHealthy h2 \<longleftrightarrow>
      (if isHealthy h1 then int (streak Not ?xs) < tu else th \<le> int (streak (\<lambda>s. s) ?xs))"
    using suffix [of tu Not] suffix [of th "\<lambda>s. s"] th
    by (simp only: h2(3) verdict_def Let_def) simp
  with h2(2) show ?thesis by simp
qed

theorem healthcheck_thresholds_witness:
  "\<exists>h h1 s1 h2 s2. newHealthcheck (\<lambda>_. True) ''http://h'' 1000000000 2 2 = Ret (Some h) \<and>
     check_all (\<lambda>n. n + 1) [ProbeStatus 200, ProbeStatus 503] (h, 0 :: nat) = Ret (h1, s1) \<and>
     check (\<lambda>n. n + 1) (ProbeStatus 503) (h1, s1) = Ret (h2, s2) \<and>
     isHealthy h2 = (if isHealthy h1 then False else False)"
proof -
  let ?ps = "[ProbeStatus 200, ProbeStatus 503]" and ?f = "\<lambda>n :: nat. n + 1"
  obtain h where h: "newHealthcheck (\<lambda>_. True) ''http://h'' 1000000000 2 2 = Ret (Some h)"
    by (simp add: newHealthcheck_def)
  obtain h1 s1 where h1: "check_all ?f ?ps (h, 0) = Ret (h1, s1)" "hc_inv h1"
    using check_all_list [OF newHealthcheck_inv(1) [OF h]] by fastforce
  obtain h2 s2 where h2: "check ?f (ProbeStatus 503) (h1, s1) = Ret (h2, s2)"
    using check_list [OF h1(2)] by fastforce
  have "isHealthy h2 = (if isHealthy h1 then False else False)"
    using healthcheck_thresholds [OF h _ _ _ h1(1) h2]
    by (simp add: streak_def probe_ok_def)
  with h h1 h2 show ?thesis by blast
qed

lemma check_all_Cons_list:
  assumes "hc_inv h" "check f p (h, s) = Ret (h1, s1)"
  shows "check_all f (p # ps) (h, s) = check_all f ps (h1, s1)"
  using assms by simp

text \<open>
  Before the window has filled the thresholds are not respected. The very first check
  declares the backend unhealthy (and runs the unhealthy callback) as soon as its probe fails,
  however large \<open>thresholdUnhealthy\<close> is; and when \<open>thresholdUnhealthy < thresholdHealthy\<close> it
  does so whatever the probe returned, even a success.
\<close>
theorem healthcheck_first_check:
  assumes "newHealthcheck uri_ok url itv th tu = Ret (Some h)" "1 \<le> th" "1 \<le> tu"
  shows "\<exists>h'. check f p (h, s) = Ret (h', if isHealthy h' then s else f s) \<and>
    (isHealthy h' \<longleftrightarrow> \<not> (tu < th \<or> \<not> probe_ok p))"
proof -
  note h = newHealthcheck_inv [OF assms]
  obtain h' where h': "check f p (h, s) = Ret (h', if isHealthy h' then s else f s)"
      "hc_list h' = lastn (nat (max th tu)) [probe_ok p]"
      "isHealthy h' = verdict th tu (hc_list h') True"
    using check_list [OF h(1), of f p s] h by auto
  have "hc_list h' = [probe_ok p]" using h'(2) assms by simp
  moreover have "nat (max th tu - tu) = 0 \<longleftrightarrow> \<not> tu < th" by auto
  ultimately have "isHealthy h' \<longleftrightarrow> \<not> (tu < th \<or> \<not> probe_ok p)"
    using h'(3) by (auto simp: verdict_def Let_def drop_Cons')
  with h'(1) show ?thesis by blast
qed

theorem healthcheck_first_check_witness:
  "\<exists>h h' s'. newHealthcheck (\<lambda>_. True) ''http://h'' 1000000000 5 2 = Ret (Some h) \<and>
     check (\<lambda>n. n + 1) (ProbeStatus 200) (h, 0 :: nat) = Ret (h', s') \<and> \<not> isHealthy h' \<and> s' = 1"
proof -
  obtain h where h: "newHealthcheck (\<lambda>_. True) ''http://h'' 1000000000 5 2 = Ret (Some h)"
    by (simp add: newHealthcheck_def)
  show ?thesis
    using healthcheck_first_check [OF h, of "\<lambda>n. n + 1" "ProbeStatus 200" "0 :: nat"] h by auto
qed

lemma healthy_run_list:
  assumes "newHealthcheck uri_ok url itv th tu = Ret (Some h)" "1 \<le> th" "1 \<le> tu"
    and "int n \<le> th - tu"
  shows "\<exists>h'. check_all f (replicate n (ProbeStatus 200)) (h, s) = Ret (h', (f ^^ ((n + 1) div 2)) s) \<and>
    hc_inv h' \<and> hc_list h' = replicate n True \<and> depth h' = max th tu \<and>
    thresholdHealthy h' = th \<and> thresholdUnhealthy h' = tu \<and> isHealthy h' = even n"
  using assms(4)
proof (induction n)
  case 0
  then show ?case using newHealthcheck_inv [OF assms(1-3)] by auto
next
  case (Suc n)
  let ?s = "(f ^^ ((n + 1) div 2)) s"
  obtain h1 where h1: "check_all f (replicate n (ProbeStatus 200)) (h, s) = Ret (h1, ?s)"
      "hc_inv h1" "hc_list h1 = replicate n True" "depth h1 = max th tu"
      "thresholdHealthy h1 = th" "thresholdUnhealthy h1 = tu" "isHealthy h1 = even n"
    using Suc by auto
  obtain h2 where h2: "check f (ProbeStatus 200) (h1, ?s) = Ret (h2, if isHealthy h2 then ?s else f ?s)"
      "hc_inv h2" "hc_list h2 = lastn (nat (max th tu)) (replicate n True @ [True])"
      "isHealthy h2 = verdict th tu (hc_list h2) (even n)" "depth h2 = max th tu"
      "thresholdHealthy h2 = th" "thresholdUnhealthy h2 = tu"
    using check_list [OF h1(2), of f "ProbeStatus 200" ?s] h1 by (auto simp: probe_ok_def)
  have l: "hc_list h2 = replicate (Suc n) True"
    using h2(3) Suc.prems assms by (simp add: replicate_append_same)
  have "drop (nat (max th tu - tu)) (replicate (Suc n) True) = []"
    using Suc.prems assms by simp
  then have e: "isHealthy h2 = odd n"
    using h2(4) l by (auto simp: verdict_def Let_def list_all_iff)
  have s: "(if isHealthy h2 then ?s else f ?s) = (f ^^ ((Suc n + 1) div 2)) s"
  proof (cases "odd n")
    case True
    then have "(Suc n + 1) div 2 = (n + 1) div 2" by presburger
    with True e show ?thesis by simp
  next
    case False
    then have "(Suc n + 1) div 2 = Suc ((n + 1) div 2)" by presburger
    with False e show ?thesis by simp
  qed
  have "check_all f (replicate (Suc n) (ProbeStatus 200)) (h, s)
      = Ret (h2, (f ^^ ((Suc n + 1) div 2)) s)"
  proof -
    have "replicate (Suc n) (ProbeStatus 200) = replicate n (ProbeStatus 200) @ [ProbeStatus 200]"
      by (simp add: replicate_append_same)
    moreover have "check f (ProbeStatus 200) (h1, ?s) = Ret (h2, (f ^^ ((Suc n + 1) div 2)) s)"
      using h2(1) by (simp only: s)
    ultimately show ?thesis
      using h1(1) by (simp only: check_all_append check_all.simps go_bind.simps)
  qed
  with h2 l e show ?case by auto
qed

text \<open>
  C34: With \<open>thresholdUnhealthy < thresholdHealthy\<close> a backend that answers every probe with 200
  is declared unhealthy and healthy in alternation for the first
  \<open>thresholdHealthy - thresholdUnhealthy\<close> checks, and the unhealthy callback (which drops the
  client connections) runs on every other one of them.
\<close>
theorem healthcheck_warmup_flapping:
  assumes "newHealthcheck uri_ok url itv th tu = Ret (Some h)" "1 \<le> th" "1 \<le> tu"
    and "int n \<le> th - tu"
  shows "\<exists>h'. check_all f (replicate n (ProbeStatus 200)) (h, s) = Ret (h', (f ^^ ((n + 1) div 2)) s) \<and>
    isHealthy h' = even n"
  using healthy_run_list [OF assms, of f s] by blast

theorem healthcheck_warmup_flapping_witness:
  "\<exists>h h'. newHealthcheck (\<lambda>_. True) ''http://h'' 1000000000 5 2 = Ret (Some h) \<and>
     check_all (\<lambda>n. n + 1) (replicate 3 (ProbeStatus 200)) (h, 0 :: nat) = Ret (h', 2) \<and>
     \<not> isHealthy h'"
proof -
  obtain h where h: "newHealthcheck (\<lambda>_. True) ''http://h'' 1000000000 5 2 = Ret (Some h)"
    by (simp add: newHealthcheck_def)
  obtain h' where h': "check_all (\<lambda>n. n + 1) (replicate 3 (ProbeStatus 200)) (h, 0 :: nat)
      = Ret (h', ((\<lambda>n. n + 1) ^^ ((3 + 1) div 2)) 0)" "isHealthy h' = even (3 :: nat)"
    using healthcheck_warmup_flapping [OF h, of 3 "\<lambda>n. n + 1" "0 :: nat"] by auto
  moreover have "(3 + 1) div 2 = Suc (Suc (0 :: nat))" by simp
  then have "((\<lambda>n :: nat. n + 1) ^^ ((3 + 1) div 2)) 0 = 2" by simp
  moreover have "odd (3 :: nat)" by simp
  ultimately show ?thesis using h by metis
qed

section \<open>What a check does to the connections of its owner\<close>

context unhealthy_handler
begin

lemma check_closes:
  assumes "hc_inv h" "check handle p (h, s) = Ret (h', s')"
  shows "isHealthy h' \<Longrightarrow> s' = s"
    and "\<not> isHealthy h' \<Longrightarrow> active s' = {} \<and> closing s' = closing s \<union> active s"
  using check_list [OF assms(1), of handle p s] assms(2)
  by (auto simp: handle_active handle_closing)

lemma check_all_closes:
  assumes "hc_inv h" "check_all handle ps (h, s) = Ret (h', s')"
  shows "closing s' \<union> active s' = closing s \<union> active s"
  using assms
proof (induction ps arbitrary: h s)
  case (Cons p ps)
  then obtain h1 s1 where c: "check handle p (h, s) = Ret (h1, s1)" "check_all handle ps (h1, s1) = Ret (h', s')"
    by (auto simp: go_bind_Ret_iff)
  moreover have "hc_inv h1" using check_list [OF Cons.prems(1), of handle p s] c(1) by auto
  ultimately have "closing s' \<union> active s' = closing s1 \<union> active s1" by (intro Cons.IH)
  with check_closes [OF Cons.prems(1) c(1)] show ?case by (cases "isHealthy h1") auto
qed simp

end

end
