(* ===== verification/Json_Text.thy ===== *)
theory Json_Text
  imports Go_Prelude
begin

text \<open>
  What the program uses of the standard library's \<open>encoding/json\<close>: the scanner (RFC 8259 with
  Go's nesting limit), string unquoting with Go's coercion to valid UTF-8, and the decoding of
  a JSON value into the Go types of the program. A value keeps the text of its numbers; a
  \<open>json.RawMessage\<close> is the value it spells (the code only compares one with \<open>null\<close> and decodes
  it again), an absent one is \<^const>\<open>None\<close>.
\<close>

section \<open>Values\<close>

datatype json =
    JNull
  | JBool bool
  | JNum string
  | JStr string
  | JArr "json list"
  | JObj "(string \<times> json) list"

datatype 'a scan = Done 'a | SyntaxError | OutOfFuel

fun scan_bind :: "'a scan \<Rightarrow> ('a \<Rightarrow> 'b scan) \<Rightarrow> 'b scan" where
  "scan_bind (Done x) f = f x"
| "scan_bind SyntaxError f = SyntaxError"
| "scan_bind OutOfFuel f = OutOfFuel"

lemma scan_bind_cong [fundef_cong]:
  "m = m' \<Longrightarrow> (\<And>x. m' = Done x \<Longrightarrow> f x = f' x) \<Longrightarrow> scan_bind m f = scan_bind m' f'"
  by (cases m) auto

lemma scan_bind_OutOfFuel [simp]:
  "scan_bind m f = OutOfFuel \<longleftrightarrow> m = OutOfFuel \<or> (\<exists>x. m = Done x \<and> f x = OutOfFuel)"
  by (cases m) auto

lemma scan_bind_Done [simp]: "scan_bind m f = Done y \<longleftrightarrow> (\<exists>x. m = Done x \<and> f x = Done y)"
  by (cases m) auto

section \<open>Numbers\<close>

definition json_space :: "char \<Rightarrow> bool" where
  "json_space c \<longleftrightarrow> c = CHR '' '' \<or> c = CHR 0x09 \<or> c = CHR 0x0A \<or> c = CHR 0x0D"

definition skip_ws :: "string \<Rightarrow> string" where
  "skip_ws s = dropWhile json_space s"

text \<open>A non-empty run of digits.\<close>

definition scan_digits :: "string \<Rightarrow> (string \<times> string) option" where
  "scan_digits s = (case s of [] \<Rightarrow> None | c # r \<Rightarrow>
     if is_digit c then Some (takeWhile is_digit s, dropWhile is_digit s) else None)"

definition scan_int :: "string \<Rightarrow> (string \<times> string) option" where
  "scan_int s = (case s of [] \<Rightarrow> None | c # r \<Rightarrow>
     if c = CHR ''0'' then Some ([c], r) else scan_digits s)"

definition scan_frac :: "string \<Rightarrow> (string \<times> string) option" where
  "scan_frac s = (case s of [] \<Rightarrow> Some ([], s) | c # r \<Rightarrow>
     if c = CHR ''.'' then map_option (\<lambda>(ds, r'). (c # ds, r')) (scan_digits r)
     else Some ([], s))"

definition scan_exp :: "string \<Rightarrow> (string \<times> string) option" where
  "scan_exp s = (case s of [] \<Rightarrow> Some ([], s) | c # r \<Rightarrow>
     if c = CHR ''e'' \<or> c = CHR ''E'' then
       (case r of [] \<Rightarrow> None | g # r' \<Rightarrow>
          if g = CHR ''+'' \<or> g = CHR ''-''
          then map_option (\<lambda>(ds, r2). (c # g # ds, r2)) (scan_digits r')
          else map_option (\<lambda>(ds, r2). (c # ds, r2)) (scan_digits r))
     else Some ([], s))"

definition scan_number :: "string \<Rightarrow> (string \<times> string) option" where
  "scan_number s =
     (let (sign, s0) = (case s of c # r \<Rightarrow> if c = CHR ''-'' then ([c], r) else ([], s) | [] \<Rightarrow> ([], s))
      in Option.bind (scan_int s0) (\<lambda>(i, s1).
         Option.bind (scan_frac s1) (\<lambda>(f, s2).
         Option.bind (scan_exp s2) (\<lambda>(e, s3). Some (sign @ i @ f @ e, s3)))))"

section \<open>Strings\<close>

definition hex_value :: "char \<Rightarrow> nat option" where
  "hex_value c =
     (let n = of_char c :: nat
      in if 48 \<le> n \<and> n \<le> 57 then Some (n - 48)
         else if 65 \<le> n \<and> n \<le> 70 then Some (n - 55)
         else if 97 \<le> n \<and> n \<le> 102 then Some (n - 87) else None)"

definition is_hex :: "char \<Rightarrow> bool" where
  "is_hex c \<longleftrightarrow> hex_value c \<noteq> None"

text \<open>The raw content of a string literal up to its closing quote, checked as the scanner does.\<close>

fun scan_string :: "string \<Rightarrow> (string \<times> string) option" where
  "scan_string [] = None"
| "scan_string (c # r) =
     (if c = CHR 0x22 then Some ([], r)
      else if c = CHR 0x5C then
        (case r of [] \<Rightarrow> None | e # r' \<Rightarrow>
           if e \<in> set ''bfnrt/'' \<or> e = CHR 0x5C \<or> e = CHR 0x22
             \<or> (e = CHR ''u'' \<and> length r' \<ge> 4 \<and> list_all is_hex (take 4 r'))
           then map_option (\<lambda>(raw, s). (c # e # raw, s)) (scan_string r') else None)
      else if (of_char c :: nat) < 32 then None
      else map_option (\<lambda>(raw, s). (c # raw, s)) (scan_string r))"

definition byte :: "nat \<Rightarrow> char" where
  "byte n = char_of n"

definition replacement :: string where
  "replacement = [byte 239, byte 191, byte 189]"

definition encode_rune :: "nat \<Rightarrow> string" where
  "encode_rune r =
     (if r < 128 then [byte r]
      else if r < 2048 then [byte (192 + r div 64), byte (128 + r mod 64)]
      else if 55296 \<le> r \<and> r \<le> 57343 then replacement
      else if r < 65536 then
        [byte (224 + r div 4096), byte (128 + r div 64 mod 64), byte (128 + r mod 64)]
      else [byte (240 + r div 262144), byte (128 + r div 4096 mod 64),
            byte (128 + r div 64 mod 64), byte (128 + r mod 64)])"

definition cont :: "char list \<Rightarrow> nat \<Rightarrow> nat \<Rightarrow> nat \<Rightarrow> bool" where
  "cont s i lo hi \<longleftrightarrow> i < length s \<and> lo \<le> (of_char (s ! i) :: nat) \<and> (of_char (s ! i) :: nat) \<le> hi"

definition rune_len :: "string \<Rightarrow> nat" where
  \<comment> \<open>length of the well-formed UTF-8 sequence at the head of \<open>s\<close>, 0 if there is none\<close>
  "rune_len s =
     (case s of [] \<Rightarrow> 0 | c # r \<Rightarrow>
        let n = of_char c :: nat
        in if n < 128 then 1
           else if 194 \<le> n \<and> n \<le> 223 then (if cont s 1 128 191 then 2 else 0)
           else if 224 \<le> n \<and> n \<le> 239 then
             (if cont s 1 (if n = 224 then 160 else 128) (if n = 237 then 159 else 191) \<and> cont s 2 128 191
              then 3 else 0)
           else if 240 \<le> n \<and> n \<le> 244 then
             (if cont s 1 (if n = 240 then 144 else 128) (if n = 244 then 143 else 191) \<and>
                 cont s 2 128 191 \<and> cont s 3 128 191 then 4 else 0)
           else 0)"

definition hex4 :: "string \<Rightarrow> nat option" where
  "hex4 s = (if length s \<ge> 4 \<and> list_all is_hex (take 4 s)
     then Some (foldl (\<lambda>a c. 16 * a + the (hex_value c)) 0 (take 4 s)) else None)"

definition getu4 :: "string \<Rightarrow> nat option" where
  "getu4 s = (if take 2 s = [CHR 0x5C, CHR ''u''] then hex4 (drop 2 s) else None)"

definition escape :: "char \<Rightarrow> char" where
  "escape e = (if e = CHR ''b'' then CHR 0x08 else if e = CHR ''f'' then CHR 0x0C
     else if e = CHR ''n'' then CHR 0x0A else if e = CHR ''r'' then CHR 0x0D
     else if e = CHR ''t'' then CHR 0x09 else e)"

function unquote :: "string \<Rightarrow> string" where
  "unquote s =
     (case s of [] \<Rightarrow> [] | c # r \<Rightarrow>
        if c = CHR 0x5C then
          (case r of [] \<Rightarrow> [] | e # r' \<Rightarrow>
             if e = CHR ''u'' then
               (case hex4 r' of None \<Rightarrow> []
                | Some hi \<Rightarrow>
                    if 55296 \<le> hi \<and> hi \<le> 57343 then
                      (case getu4 (drop 4 r') of
                         Some lo \<Rightarrow>
                           if hi < 56320 \<and> 56320 \<le> lo \<and> lo \<le> 57343
                           then encode_rune ((hi - 55296) * 1024 + (lo - 56320) + 65536)
                                @ unquote (drop 10 r')
                           else replacement @ unquote (drop 4 r')
                       | None \<Rightarrow> replacement @ unquote (drop 4 r'))
                    else encode_rune hi @ unquote (drop 4 r'))
             else escape e # unquote r')
        else if rune_len s = 0 then replacement @ unquote r
        else take (rune_len s) s @ unquote (drop (rune_len s) s))"
  by pat_completeness auto
termination by (relation "measure length") auto

declare unquote.simps [simp del]

section \<open>The scanner\<close>

definition maxNestingDepth :: nat where
  "maxNestingDepth = 10000"

text \<open>
  The head of a value: a complete leaf (or empty container) with the rest of the input, the
  inside of a non-empty object or array, or a syntax error. \<open>d\<close> counts the open containers.
\<close>

datatype json_head = Leaf json string | InObj string | InArr string | BadHead

fun leaf_of :: "(json \<times> string) option \<Rightarrow> json_head" where
  "leaf_of None = BadHead"
| "leaf_of (Some (v, t)) = Leaf v t"

definition scan_lit :: "string \<Rightarrow> json \<Rightarrow> string \<Rightarrow> (json \<times> string) option" where
  "scan_lit lit v s = (if HasPrefix s lit then Some (v, drop (length lit) s) else None)"

definition scan_open :: "nat \<Rightarrow> char \<Rightarrow> json \<Rightarrow> (string \<Rightarrow> json_head) \<Rightarrow> string \<Rightarrow> json_head" where
  "scan_open d close none inside r =
     (if maxNestingDepth \<le> d then BadHead
      else case skip_ws r of [] \<Rightarrow> BadHead | e # r' \<Rightarrow>
        if e = close then Leaf none r' else inside (e # r'))"

definition scan_head :: "nat \<Rightarrow> string \<Rightarrow> json_head" where
  "scan_head d s =
     (case skip_ws s of [] \<Rightarrow> BadHead | c # r \<Rightarrow>
        if c = CHR ''{'' then scan_open d CHR ''}'' (JObj []) InObj r
        else if c = CHR ''['' then scan_open d CHR '']'' (JArr []) InArr r
        else if c = CHR 0x22 then
          leaf_of (map_option (\<lambda>(raw, t). (JStr (unquote raw), t)) (scan_string r))
        else if c = CHR ''n'' then leaf_of (scan_lit ''null'' JNull (c # r))
        else if c = CHR ''t'' then leaf_of (scan_lit ''true'' (JBool True) (c # r))
        else if c = CHR ''f'' then leaf_of (scan_lit ''false'' (JBool False) (c # r))
        else leaf_of (map_option (\<lambda>(lit, t). (JNum lit, t)) (scan_number (c # r))))"

definition scan_sep :: "char \<Rightarrow> string \<Rightarrow> (bool \<times> string) option" where
  \<comment> \<open>after an element: a comma (\<open>True\<close>) or the closing bracket\<close>
  "scan_sep close s = (case skip_ws s of [] \<Rightarrow> None | c # r \<Rightarrow>
     if c = CHR '','' then Some (True, r) else if c = close then Some (False, r) else None)"

definition scan_key :: "string \<Rightarrow> (string \<times> string) option" where
  "scan_key s = (case skip_ws s of [] \<Rightarrow> None | q # k \<Rightarrow>
     if q \<noteq> CHR 0x22 then None
     else Option.bind (scan_string k) (\<lambda>(raw, t).
       case skip_ws t of [] \<Rightarrow> None | c # r \<Rightarrow>
         if c = CHR '':'' then Some (unquote raw, r) else None))"

fun pval :: "nat \<Rightarrow> nat \<Rightarrow> string \<Rightarrow> (json \<times> string) scan"
  and parr :: "nat \<Rightarrow> nat \<Rightarrow> string \<Rightarrow> (json list \<times> string) scan"
  and pobj :: "nat \<Rightarrow> nat \<Rightarrow> string \<Rightarrow> ((string \<times> json) list \<times> string) scan"
where
  "pval 0 d s = OutOfFuel"
| "pval (Suc n) d s =
     (case scan_head d s of
        Leaf v t \<Rightarrow> Done (v, t)
      | InObj r \<Rightarrow> scan_bind (pobj n (d + 1) r) (\<lambda>(kvs, t). Done (JObj kvs, t))
      | InArr r \<Rightarrow> scan_bind (parr n (d + 1) r) (\<lambda>(vs, t). Done (JArr vs, t))
      | BadHead \<Rightarrow> SyntaxError)"
| "parr 0 d s = OutOfFuel"
| "parr (Suc n) d s =
     scan_bind (pval n d s) (\<lambda>(v, t).
       case scan_sep CHR '']'' t of
         None \<Rightarrow> SyntaxError
       | Some (more, r) \<Rightarrow>
           if more then scan_bind (parr n d r) (\<lambda>(vs, u). Done (v # vs, u)) else Done ([v], r))"
| "pobj 0 d s = OutOfFuel"
| "pobj (Suc n) d s =
     (case scan_key s of
        None \<Rightarrow> SyntaxError
      | Some (k, r) \<Rightarrow>
          scan_bind (pval n d r) (\<lambda>(v, t).
            case scan_sep CHR ''}'' t of
              None \<Rightarrow> SyntaxError
            | Some (more, u) \<Rightarrow>
                if more then scan_bind (pobj n d u) (\<lambda>(kvs, w). Done ((k, v) # kvs, w))
                else Done ([(k, v)], u)))"

definition json_parse :: "string \<Rightarrow> json option" where
  "json_parse s =
     (case pval (2 * length s + 2) 0 s of
        Done (v, r) \<Rightarrow> if skip_ws r = [] then Some v else None
      | _ \<Rightarrow> None)"

section \<open>The fuel is enough\<close>

text \<open>Every scan consumes input, so fuel proportional to the length never runs out.\<close>

lemma skip_ws_length: "length (skip_ws s) \<le> length s"
  by (simp add: skip_ws_def length_dropWhile_le)

lemma skip_ws_Cons_length: "skip_ws s = c # r \<Longrightarrow> length r < length s"
  using skip_ws_length [of s] by simp

lemma scan_digits_length: "scan_digits s = Some (ds, t) \<Longrightarrow> length t < length s"
  by (cases s) (auto simp: scan_digits_def length_dropWhile_le less_Suc_eq_le split: if_splits)

lemma scan_int_length: "scan_int s = Some (ds, t) \<Longrightarrow> length t < length s"
  by (cases s) (auto simp: scan_int_def dest: scan_digits_length split: if_splits)

lemma scan_frac_length: "scan_frac s = Some (ds, t) \<Longrightarrow> length t \<le> length s"
  by (cases s) (auto simp: scan_frac_def dest!: scan_digits_length split: if_splits)

lemma scan_exp_length: "scan_exp s = Some (ds, t) \<Longrightarrow> length t \<le> length s"
  by (cases s) (auto simp: scan_exp_def dest!: scan_digits_length split: if_splits list.splits)

lemma scan_number_length: "scan_number s = Some (lit, t) \<Longrightarrow> length t < length s"
  by (fastforce simp: scan_number_def Let_def split: list.splits if_splits bind_splits
      dest!: scan_int_length scan_frac_length scan_exp_length)

lemma scan_string_length: "scan_string s = Some (raw, t) \<Longrightarrow> length t < length s"
proof (induction s arbitrary: raw t rule: scan_string.induct)
  case (2 c r)
  then show ?case by (auto split: if_splits list.splits option.splits) fastforce+
qed simp

lemma scan_lit_length: "scan_lit lit v s = Some (w, t) \<Longrightarrow> lit \<noteq> [] \<Longrightarrow> length t < length s"
  by (cases s) (auto simp: scan_lit_def HasPrefix_def split: if_splits)

lemma leaf_of_iff [simp]:
  "leaf_of m = Leaf v t \<longleftrightarrow> m = Some (v, t)" "leaf_of m \<noteq> InObj r" "leaf_of m \<noteq> InArr r"
  by (cases m; auto)+

lemma scan_open_length:
  "scan_open d close none InObj r = Leaf v t \<Longrightarrow> length t < length r"
  "scan_open d close none InArr r = Leaf v t \<Longrightarrow> length t < length r"
  "scan_open d close none InObj r = InObj t \<Longrightarrow> length t \<le> length r"
  "scan_open d close none InArr r = InArr t \<Longrightarrow> length t \<le> length r"
proof -
  have le: "length (skip_ws r) \<le> length r" by (rule skip_ws_length)
  show "scan_open d close none InObj r = Leaf v t \<Longrightarrow> length t < length r"
    "scan_open d close none InArr r = Leaf v t \<Longrightarrow> length t < length r"
    "scan_open d close none InObj r = InObj t \<Longrightarrow> length t \<le> length r"
    "scan_open d close none InArr r = InArr t \<Longrightarrow> length t \<le> length r"
    using le by (cases "skip_ws r"; auto simp: scan_open_def split: if_splits)+
qed

lemma scan_open_kind [simp]:
  "scan_open d close none InObj r \<noteq> InArr t" "scan_open d close none InArr r \<noteq> InObj t"
  by (auto simp: scan_open_def split: list.splits)

lemma scan_head_length:
  "scan_head d s = Leaf v t \<Longrightarrow> length t < length s"
  "scan_head d s = InObj t \<Longrightarrow> length t < length s"
  "scan_head d s = InArr t \<Longrightarrow> length t < length s"
proof -
  show "length t < length s" if "scan_head d s = Leaf v t"
  proof (cases "skip_ws s")
    case (Cons c r)
    have "length t < length (c # r)"
      using that Cons
      by (auto simp: scan_head_def split: if_splits
          dest!: scan_string_length scan_number_length scan_lit_length scan_open_length)
    also have "\<dots> \<le> length s" using skip_ws_length [of s] Cons by simp
    finally show ?thesis .
  qed (use that in \<open>simp add: scan_head_def\<close>)
  show "length t < length s" if "scan_head d s = InObj t"
    using that skip_ws_length [of s]
    by (auto simp: scan_head_def split: list.splits if_splits dest!: scan_open_length)
  show "length t < length s" if "scan_head d s = InArr t"
    using that skip_ws_length [of s]
    by (auto simp: scan_head_def split: list.splits if_splits dest!: scan_open_length)
qed

lemma scan_sep_length: "scan_sep close s = Some (more, r) \<Longrightarrow> length r < length s"
  by (auto simp: scan_sep_def split: list.splits if_splits dest!: skip_ws_Cons_length)

lemma scan_key_length: "scan_key s = Some (k, r) \<Longrightarrow> length r < length s"
  by (fastforce simp: scan_key_def split: list.splits if_splits bind_splits
      dest!: skip_ws_Cons_length scan_string_length)

lemma scan_shorter:
  "pval n d s = Done (v, t) \<Longrightarrow> length t < length s"
  "parr n d s = Done (vs, t) \<Longrightarrow> length t < length s"
  "pobj n d s = Done (kvs, t) \<Longrightarrow> length t < length s"
proof (induction n arbitrary: d s v t vs kvs)
  case (Suc n)
  note IH = Suc.IH
  show "length t < length s" if "pval (Suc n) d s = Done (v, t)" for d s v t
    using that by (auto split: json_head.splits dest!: scan_head_length IH(2,3))
  show "length t < length s" if "parr (Suc n) d s = Done (vs, t)" for d s vs t
  proof -
    from that obtain v u where u: "pval n d s = Done (v, u)" by auto
    with that obtain more r where r: "scan_sep CHR '']'' u = Some (more, r)"
      by (auto split: option.splits)
    have "length t \<le> length r" using that u r IH(2) [of d r] by (cases more) (auto intro: less_imp_le)
    with IH(1) [OF u] scan_sep_length [OF r] show ?thesis by simp
  qed
  show "length t < length s" if "pobj (Suc n) d s = Done (kvs, t)" for d s kvs t
  proof -
    from that obtain k q where q: "scan_key s = Some (k, q)" by (auto split: option.splits)
    with that obtain v u where u: "pval n d q = Done (v, u)" by auto
    with that q obtain more r where r: "scan_sep CHR ''}'' u = Some (more, r)"
      by (auto split: option.splits)
    have "length t \<le> length r" using that u q r IH(3) [of d r] by (cases more) (auto intro: less_imp_le)
    with IH(1) [OF u] scan_sep_length [OF r] scan_key_length [OF q] show ?thesis by simp
  qed
qed simp_all

lemma scan_fuel:
  "2 * length s < n \<Longrightarrow> pval n d s \<noteq> OutOfFuel"
  "2 * length s + 1 < n \<Longrightarrow> parr n d s \<noteq> OutOfFuel"
  "2 * length s < n \<Longrightarrow> pobj n d s \<noteq> OutOfFuel"
proof (induction n arbitrary: d s)
  case (Suc n)
  note IH = Suc.IH
  show "pval (Suc n) d s \<noteq> OutOfFuel" if "2 * length s < Suc n" for d s
  proof (cases "scan_head d s")
    case (InObj r)
    with scan_head_length(2) [OF this] that IH(3) [of r "Suc d"] show ?thesis by auto
  next
    case (InArr r)
    with scan_head_length(3) [OF this] that IH(2) [of r "Suc d"] show ?thesis by auto
  qed simp_all
  show "parr (Suc n) d s \<noteq> OutOfFuel" if "2 * length s + 1 < Suc n" for d s
  proof -
    have "parr n d r \<noteq> OutOfFuel" if "pval n d s = Done (v, u)" "scan_sep CHR '']'' u = Some (more, r)"
      for v u more r
      using scan_shorter(1) [OF that(1)] scan_sep_length [OF that(2)] \<open>2 * length s + 1 < Suc n\<close>
      by (intro IH(2)) simp
    with that IH(1) [of s d] show ?thesis by (auto split: option.splits)
  qed
  show "pobj (Suc n) d s \<noteq> OutOfFuel" if "2 * length s < Suc n" for d s
  proof -
    have "pval n d q \<noteq> OutOfFuel" if "scan_key s = Some (k, q)" for k q
      using scan_key_length [OF that] \<open>2 * length s < Suc n\<close> by (intro IH(1)) simp
    moreover have "pobj n d r \<noteq> OutOfFuel" if "scan_key s = Some (k, q)" "pval n d q = Done (v, u)"
        "scan_sep CHR ''}'' u = Some (more, r)" for k q v u more r
      using scan_key_length [OF that(1)] scan_shorter(1) [OF that(2)] scan_sep_length [OF that(3)]
        \<open>2 * length s < Suc n\<close> by (intro IH(3)) simp
    ultimately show ?thesis by (auto split: option.splits)
  qed
qed simp_all

text \<open>More fuel never changes a result.\<close>

lemma scan_mono:
  "pval n d s \<noteq> OutOfFuel \<Longrightarrow> pval (Suc n) d s = pval n d s"
  "parr n d s \<noteq> OutOfFuel \<Longrightarrow> parr (Suc n) d s = parr n d s"
  "pobj n d s \<noteq> OutOfFuel \<Longrightarrow> pobj (Suc n) d s = pobj n d s"
proof (induction n arbitrary: d s)
  case (Suc n)
  note IH = Suc.IH
  show "pval (Suc (Suc n)) d s = pval (Suc n) d s" if "pval (Suc n) d s \<noteq> OutOfFuel" for d s
    using that IH(2,3) by (auto simp del: pval.simps parr.simps pobj.simps
        simp: pval.simps(2) [of "Suc n" d s] pval.simps(2) [of n d s] split: json_head.splits)
  show "parr (Suc (Suc n)) d s = parr (Suc n) d s" if "parr (Suc n) d s \<noteq> OutOfFuel" for d s
  proof -
    from that have "pval n d s \<noteq> OutOfFuel" by auto
    then have "pval (Suc n) d s = pval n d s" by (rule IH(1))
    with that IH(2) show ?thesis
      by (cases "pval n d s") (auto simp del: pval.simps parr.simps pobj.simps
        simp: parr.simps(2) [of "Suc n" d s] parr.simps(2) [of n d s] split: option.splits)
  qed
  show "pobj (Suc (Suc n)) d s = pobj (Suc n) d s" if "pobj (Suc n) d s \<noteq> OutOfFuel" for d s
  proof (cases "scan_key s")
    case (Some kq)
    obtain k q where kq: "scan_key s = Some (k, q)" using Some by (cases kq) auto
    with that have "pval n d q \<noteq> OutOfFuel" by auto
    then have "pval (Suc n) d q = pval n d q" by (rule IH(1))
    with that kq IH(3) show ?thesis
      by (cases "pval n d q") (auto simp del: pval.simps parr.simps pobj.simps
        simp: pobj.simps(2) [of "Suc n" d s] pobj.simps(2) [of n d s] split: option.splits)
  qed simp
qed simp_all

lemma pval_more_fuel: "pval n d s \<noteq> OutOfFuel \<Longrightarrow> n \<le> m \<Longrightarrow> pval m d s = pval n d s"
proof (induction m)
  case (Suc m)
  then show ?case
  proof (cases "n = Suc m")
    case False
    with Suc have "pval m d s = pval n d s" by simp
    with Suc.prems(1) scan_mono(1) [of m d s] show ?thesis by simp
  qed simp
qed simp

text \<open>Any fuel that yields an answer yields the answer of \<open>json_parse\<close>.\<close>

lemma json_parse_fuel:
  assumes "pval n 0 s \<noteq> OutOfFuel"
  shows "json_parse s = (case pval n 0 s of
      Done (v, r) \<Rightarrow> if skip_ws r = [] then Some v else None | _ \<Rightarrow> None)"
proof -
  let ?m = "2 * length s + 2"
  have m: "pval ?m 0 s \<noteq> OutOfFuel" by (rule scan_fuel) simp
  have "pval ?m 0 s = pval n 0 s"
  proof (cases "n \<le> ?m")
    case True
    show ?thesis by (rule pval_more_fuel [OF assms True])
  next
    case False
    then have "?m \<le> n" by simp
    from pval_more_fuel [OF m this] show ?thesis by (rule sym)
  qed
  then show ?thesis unfolding json_parse_def by (simp only:)
qed

section \<open>Decoding into Go values\<close>

text \<open>
  A decoder takes the JSON value and the present Go value and returns the new Go value and
  whether it fitted: \<open>encoding/json\<close> records a type mismatch, leaves the value and goes on; its
  caller sees the first mismatch as the error. \<open>null\<close> leaves any value but a pointer or slice alone.
\<close>

type_synonym 'a decoder = "json \<Rightarrow> 'a \<Rightarrow> 'a \<times> bool"

fun decode_string :: "string decoder" where
  "decode_string (JStr t) x = (t, True)"
| "decode_string JNull x = (x, True)"
| "decode_string j x = (x, False)"

fun decode_uint64 :: "nat decoder" where
  "decode_uint64 (JNum lit) x = (case ParseUint64 lit of Some n \<Rightarrow> (n, True) | None \<Rightarrow> (x, False))"
| "decode_uint64 JNull x = (x, True)"
| "decode_uint64 j x = (x, False)"

fun decode_int64 :: "int decoder" where
  "decode_int64 (JNum lit) x = (case ParseInt64 lit of Some n \<Rightarrow> (n, True) | None \<Rightarrow> (x, False))"
| "decode_int64 JNull x = (x, True)"
| "decode_int64 j x = (x, False)"

definition decode_raw :: "json option decoder" where
  "decode_raw j x = (Some j, True)"

fun decode_slice :: "'a \<Rightarrow> 'a decoder \<Rightarrow> 'a list decoder" where
  "decode_slice zero dec1 (JArr js) xs =
     (let rs = map (\<lambda>j. dec1 j zero) js in (map fst rs, list_all snd rs))"
| "decode_slice zero dec1 JNull xs = ([], True)"
| "decode_slice zero dec1 j xs = (xs, False)"

text \<open>
  A key names a field if it is equal to the field's name, or else if it is so up to letter case.
  The two non-ASCII characters that fold into ASCII, the long s and the Kelvin sign, are folded too.
\<close>

definition upper :: "char \<Rightarrow> char" where
  "upper c = (if 97 \<le> (of_char c :: nat) \<and> (of_char c :: nat) \<le> 122 then byte (of_char c - 32) else c)"

fun fold_name :: "string \<Rightarrow> string" where
  "fold_name [] = []"
| "fold_name (c # r) =
     (if c = byte 197 \<and> take 1 r = [byte 191] then CHR ''S'' # fold_name (drop 1 r)
      else if c = byte 226 \<and> take 2 r = [byte 132, byte 170] then CHR ''K'' # fold_name (drop 2 r)
      else upper c # fold_name r)"

declare fold_name.simps [simp del]

lemma length_fold_name: "list_all (\<lambda>c. (of_char c :: nat) < 128) s \<Longrightarrow> length (fold_name s) = length s"
  by (induction s) (auto simp: fold_name.simps byte_def)

lemma fold_name_ascii: "(of_char c :: nat) < 128 \<Longrightarrow> fold_name (c # r) = upper c # fold_name r"
  by (auto simp: fold_name.simps byte_def)

definition match_field :: "string list \<Rightarrow> string \<Rightarrow> string option" where
  "match_field fields key =
     (if key \<in> set fields then Some key
      else find (\<lambda>f. fold_name f = fold_name key) fields)"

fun decode_fields :: "string list \<Rightarrow> (string \<Rightarrow> 's decoder) \<Rightarrow> (string \<times> json) list \<Rightarrow> 's \<Rightarrow> 's \<times> bool" where
  "decode_fields fields dec_field [] st = (st, True)"
| "decode_fields fields dec_field ((k, j) # kvs) st =
     (case match_field fields k of
        None \<Rightarrow> decode_fields fields dec_field kvs st
      | Some f \<Rightarrow>
          let (st1, ok1) = dec_field f j st; (st2, ok2) = decode_fields fields dec_field kvs st1
          in (st2, ok1 \<and> ok2))"

fun decode_struct :: "string list \<Rightarrow> (string \<Rightarrow> 's decoder) \<Rightarrow> 's decoder" where
  "decode_struct fields dec_field (JObj kvs) st = decode_fields fields dec_field kvs st"
| "decode_struct fields dec_field JNull st = (st, True)"
| "decode_struct fields dec_field j st = (st, False)"

text \<open>\<open>json.Unmarshal\<close> of a raw message (\<^const>\<open>None\<close>: empty, a syntax error), when the caller drops the value on error.\<close>

definition Unmarshal_raw :: "'a decoder \<Rightarrow> 'a \<Rightarrow> json option \<Rightarrow> 'a option" where
  "Unmarshal_raw dec1 zero raw =
     (case raw of None \<Rightarrow> None
      | Some j \<Rightarrow> (case dec1 j zero of (x, ok) \<Rightarrow> if ok then Some x else None))"

definition Unmarshal_bytes :: "'a decoder \<Rightarrow> 'a \<Rightarrow> string \<Rightarrow> 'a option" where
  "Unmarshal_bytes dec1 zero body = Unmarshal_raw dec1 zero (json_parse body)"

text \<open>Decoding into \<open>any\<close>: an object is a map, so of duplicate keys the last one counts.\<close>

fun last_wins :: "(string \<times> json) list \<Rightarrow> (string \<times> json) list" where
  "last_wins [] = []"
| "last_wins ((k, v) # kvs) =
     (if k \<in> fst ` set kvs then last_wins kvs else (k, v) # last_wins kvs)"

fun to_any :: "json \<Rightarrow> json" where
  "to_any (JArr js) = JArr (map to_any js)"
| "to_any (JObj kvs) = JObj (last_wins (map (\<lambda>(k, v). (k, to_any v)) kvs))"
| "to_any j = j"

lemma fst_set_last_wins [simp]: "fst ` set (last_wins kvs) = fst ` set kvs"
  by (induction kvs rule: last_wins.induct) auto

lemma distinct_last_wins: "distinct (map fst (last_wins kvs))"
proof (induction kvs rule: last_wins.induct)
  case (2 k v kvs)
  have "k \<notin> set (map fst (last_wins kvs)) \<longleftrightarrow> k \<notin> fst ` set kvs"
    by (simp only: set_map fst_set_last_wins)
  with 2 show ?case by simp
qed simp

lemma map_of_last_wins: "map_of (last_wins kvs) k = map_of (rev kvs) k"
proof (induction kvs rule: last_wins.induct)
  case (2 k' v kvs)
  have "map_of (rev kvs) k' = None \<longleftrightarrow> k' \<notin> fst ` set kvs"
    by (simp add: map_of_eq_None_iff)
  with 2 show ?case by (cases "k' = k") (auto simp: map_add_def split: option.splits)
qed simp

text \<open>
  A number is decoded into a \<open>float64\<close>, by \<open>strconv.ParseFloat\<close>, which fails if the value rounds to an
  infinity: from half a unit beyond the largest finite one on. The sign does not matter, and the
  exponent is read as the library does, without its digits once it is 10000 or more.
\<close>

definition digits_value :: "string \<Rightarrow> int" where
  "digits_value ds = foldl (\<lambda>a c. 10 * a + (of_char c - 48)) 0 ds"

definition number_mantissa :: "string \<Rightarrow> int \<times> int" where
  \<comment> \<open>the literal's absolute value is the first times ten to the second\<close>
  "number_mantissa lit =
     (let s = (if take 1 lit = ''-'' then drop 1 lit else lit);
          i = takeWhile is_digit s; r = dropWhile is_digit s;
          f = (if take 1 r = ''.'' then takeWhile is_digit (drop 1 r) else []);
          x = drop 1 (if take 1 r = ''.'' then dropWhile is_digit (drop 1 r) else r);
          e = foldl (\<lambda>a c. if a < 10000 then 10 * a + (of_char c - 48) else a) 0
                (if take 1 x = ''-'' \<or> take 1 x = ''+'' then drop 1 x else x)
      in (digits_value (i @ f), (if take 1 x = ''-'' then - e else e) - int (length f)))"

definition float64_fits :: "string \<Rightarrow> bool" where
  "float64_fits lit =
     (case number_mantissa lit of (m, e) \<Rightarrow>
        if 0 \<le> e then m * 10 ^ nat e < 2 ^ 1024 - 2 ^ 970 else m < (2 ^ 1024 - 2 ^ 970) * 10 ^ nat (- e))"

fun any_ok :: "json \<Rightarrow> bool" where
  "any_ok (JNum lit) = float64_fits lit"
| "any_ok (JArr js) = list_all any_ok js"
| "any_ok (JObj kvs) = list_all (\<lambda>(k, v). any_ok v) kvs"
| "any_ok j = True"

definition Unmarshal_any :: "string \<Rightarrow> json option" where
  "Unmarshal_any body =
     (case json_parse body of Some j \<Rightarrow> if any_ok j then Some (to_any j) else None | None \<Rightarrow> None)"

lemma float64_fits_examples: "float64_fits ''1e308''" "float64_fits ''-12.50''" "\<not> float64_fits ''1e309''"
proof -
  have m: "number_mantissa ''1e308'' = (1, 308)" "number_mantissa ''-12.50'' = (1250, -2)" "number_mantissa ''1e309'' = (1, 309)"
    by (simp_all add: number_mantissa_def digits_value_def is_digit_def)
  show "float64_fits ''1e308''" "float64_fits ''-12.50''" "\<not> float64_fits ''1e309''"
    by (simp_all add: float64_fits_def m)
qed

text \<open>No object of the value has a key twice.\<close>

fun json_distinct :: "json \<Rightarrow> bool" where
  "json_distinct (JArr js) = list_all json_distinct js"
| "json_distinct (JObj kvs) = (distinct (map fst kvs) \<and> list_all (\<lambda>(k, v). json_distinct v) kvs)"
| "json_distinct j = True"

lemma set_last_wins: "set (last_wins kvs) \<subseteq> set kvs"
  by (induction kvs rule: last_wins.induct) auto

lemma json_distinct_to_any: "json_distinct (to_any j)"
proof (induction j rule: to_any.induct)
  case (2 kvs)
  have "list_all (\<lambda>(k, v). json_distinct v) (map (\<lambda>(k, v). (k, to_any v)) kvs)"
    using 2 by (auto simp: list_all_iff)
  then have "list_all (\<lambda>(k, v). json_distinct v) (last_wins (map (\<lambda>(k, v). (k, to_any v)) kvs))"
    using set_last_wins by (fastforce simp: list_all_iff)
  then show ?case by (simp add: distinct_last_wins)
qed (auto simp: list_all_iff)

lemma json_distinct_Unmarshal_any: "Unmarshal_any body = Some j \<Longrightarrow> json_distinct j"
  using json_distinct_to_any by (auto simp: Unmarshal_any_def split: option.splits if_splits)

end
