(* ===== verification/Json_Print.thy ===== *)
theory Json_Print
  imports Json_Text
begin

text \<open>
  The compact rendering of a JSON value, the specification the bodies the program writes by hand
  are held against: \<open>json_print j\<close> is a text that \<open>json_parse\<close> reads as \<open>j\<close> (theorem
  \<open>json_parse_print\<close>), for values whose strings are printable ASCII without quotes and
  backslashes, whose numbers are integers, and whose nesting is within the scanner's limit.
\<close>

definition quoted :: "string \<Rightarrow> string" where
  "quoted t = [CHR 0x22] @ t @ [CHR 0x22]"

fun commas :: "string list \<Rightarrow> string" where
  "commas [] = []"
| "commas [x] = x"
| "commas (x # xs) = x @ '','' @ commas xs"

fun json_print :: "json \<Rightarrow> string" where
  "json_print JNull = ''null''"
| "json_print (JBool b) = (if b then ''true'' else ''false'')"
| "json_print (JNum lit) = lit"
| "json_print (JStr t) = quoted t"
| "json_print (JArr js) = ''['' @ commas (map json_print js) @ '']''"
| "json_print (JObj kvs) = ''{'' @ commas (map (\<lambda>(k, v). quoted k @ '':'' @ json_print v) kvs) @ ''}''"

definition plain_char :: "char \<Rightarrow> bool" where
  "plain_char c \<longleftrightarrow> 32 \<le> (of_char c :: nat) \<and> (of_char c :: nat) < 128 \<and> c \<noteq> CHR 0x22 \<and> c \<noteq> CHR 0x5C"

definition plain :: "string \<Rightarrow> bool" where
  "plain t \<longleftrightarrow> list_all plain_char t"

definition int_digits :: "string \<Rightarrow> bool" where
  "int_digits ds \<longleftrightarrow> ds \<noteq> [] \<and> list_all is_digit ds \<and> (take 1 ds = ''0'' \<longrightarrow> ds = ''0'')"

definition int_literal :: "string \<Rightarrow> bool" where
  "int_literal lit \<longleftrightarrow> int_digits lit \<or> (\<exists>ds. lit = ''-'' @ ds \<and> int_digits ds)"

fun json_ok :: "nat \<Rightarrow> json \<Rightarrow> bool" where
  "json_ok d (JNum lit) = int_literal lit"
| "json_ok d (JStr t) = plain t"
| "json_ok d (JArr js) = (d < maxNestingDepth \<and> list_all (json_ok (Suc d)) js)"
| "json_ok d (JObj kvs) = (d < maxNestingDepth \<and> list_all (\<lambda>(k, v). plain k \<and> json_ok (Suc d) v) kvs)"
| "json_ok d j = True"

section \<open>Leaves\<close>

lemma int_digits_dec [simp]: "int_digits (dec n)"
proof -
  obtain c cs where c: "dec n = c # cs" "c = CHR ''0'' \<longrightarrow> cs = []" using dec_head [of n] by blast
  then show ?thesis using dec_digits [of n] by (auto simp: int_digits_def)
qed

lemma int_literal_dec [simp]: "int_literal (dec n)" "int_literal (CHR ''-'' # dec n)"
  by (simp_all add: int_literal_def)

definition ends :: "string \<Rightarrow> bool" where
  "ends r \<longleftrightarrow> r = [] \<or> hd r \<in> {CHR '','', CHR '']'', CHR ''}''}"

lemma ends_simps [simp]: "ends []" "ends (CHR '','' # r)" "ends (CHR '']'' # r)" "ends (CHR ''}'' # r)"
  by (simp_all add: ends_def)

lemma ends_not_digit: "ends r \<Longrightarrow> takeWhile is_digit r = [] \<and> dropWhile is_digit r = r"
  by (cases r) (auto simp: ends_def is_digit_def)

lemma scan_digits_append:
  "ds \<noteq> [] \<Longrightarrow> list_all is_digit ds \<Longrightarrow> ends r \<Longrightarrow> scan_digits (ds @ r) = Some (ds, r)"
  using ends_not_digit [of r] by (cases ds) (auto simp: scan_digits_def list_all_iff)

lemma scan_int_append: "int_digits ds \<Longrightarrow> ends r \<Longrightarrow> scan_int (ds @ r) = Some (ds, r)"
  using scan_digits_append [of ds r]
  by (cases ds) (auto simp: scan_int_def int_digits_def)

lemma ends_no_frac: "ends r \<Longrightarrow> scan_frac r = Some ([], r) \<and> scan_exp r = Some ([], r)"
  by (cases r) (auto simp: ends_def scan_frac_def scan_exp_def)

lemma int_digits_head: "int_digits ds \<Longrightarrow> \<exists>c cs. ds = c # cs \<and> is_digit c"
  by (cases ds) (auto simp: int_digits_def)

lemma scan_number_append:
  assumes "int_literal lit" "ends r"
  shows "scan_number (lit @ r) = Some (lit, r)"
  using assms(1) unfolding int_literal_def
proof (elim disjE exE conjE)
  assume i: "int_digits lit"
  then obtain c cs where c: "lit = c # cs" "is_digit c" using int_digits_head by blast
  then have "c \<noteq> CHR ''-''" by (auto simp: is_digit_def)
  with c scan_int_append [OF i assms(2)] ends_no_frac [OF assms(2)] show ?thesis
    by (simp add: scan_number_def)
next
  fix ds assume ds: "lit = ''-'' @ ds" "int_digits ds"
  with scan_int_append [OF ds(2) assms(2)] ends_no_frac [OF assms(2)] show ?thesis
    by (simp add: scan_number_def)
qed

lemma scan_string_plain: "plain t \<Longrightarrow> scan_string (t @ CHR 0x22 # r) = Some (t, r)"
  by (induction t) (auto simp: plain_def plain_char_def)

lemma unquote_plain: "plain t \<Longrightarrow> unquote t = t"
proof (induction t)
  case Nil
  then show ?case by (subst unquote.simps) simp
next
  case (Cons c t)
  then have "unquote t = t" "c \<noteq> CHR 0x5C" "(of_char c :: nat) < 128"
    by (auto simp: plain_def plain_char_def)
  then show ?case by (subst unquote.simps) (simp add: rune_len_def)
qed

section \<open>Round trip\<close>

lemma skip_ws_nonspace [simp]: "\<not> json_space c \<Longrightarrow> skip_ws (c # r) = c # r"
  by (simp add: skip_ws_def)

lemma json_space_simps [simp]:
  "\<not> json_space CHR ''{''" "\<not> json_space CHR ''[''" "\<not> json_space CHR ''}''" "\<not> json_space CHR '']''"
  "\<not> json_space CHR '',''" "\<not> json_space CHR '':''" "\<not> json_space CHR 0x22" "\<not> json_space CHR ''n''"
  "\<not> json_space CHR ''t''" "\<not> json_space CHR ''f''" "\<not> json_space CHR ''-''"
  by (simp_all add: json_space_def)

lemma int_literal_head:
  assumes "int_literal lit"
  obtains c cs where "lit = c # cs" "\<not> json_space c"
    "c \<notin> {CHR ''{'', CHR ''['', CHR ''}'', CHR '']'', CHR 0x22, CHR ''n'', CHR ''t'', CHR ''f''}"
proof -
  have "\<exists>c cs. lit = c # cs \<and> (is_digit c \<or> c = CHR ''-'')"
    using assms int_digits_head unfolding int_literal_def by fastforce
  then obtain c cs where c: "lit = c # cs" "is_digit c \<or> c = CHR ''-''" by blast
  show thesis
  proof (rule that [OF c(1)])
    show "\<not> json_space c" using c(2) by (auto simp: json_space_def is_digit_def)
    show "c \<notin> {CHR ''{'', CHR ''['', CHR ''}'', CHR '']'', CHR 0x22, CHR ''n'', CHR ''t'', CHR ''f''}"
      using c(2) by (auto simp: is_digit_def)
  qed
qed

lemma json_print_head:
  assumes "json_ok d j"
  obtains c cs where "json_print j = c # cs" "\<not> json_space c" "c \<noteq> CHR '']''"
proof (cases j)
  case (JNum lit)
  with assms have "int_literal lit" by simp
  then obtain c cs where "lit = c # cs" "\<not> json_space c" "c \<noteq> CHR '']''"
    by (rule int_literal_head) simp
  with JNum show thesis by (intro that) simp_all
next
  case (JBool b)
  then show thesis
    using that [of "CHR ''t''" "''rue''"] that [of "CHR ''f''" "''alse''"] by (cases b) simp_all
next
  case JNull
  then show thesis using that [of "CHR ''n''" "''ull''"] by simp
next
  case (JStr t)
  then show thesis using that [of "CHR 0x22" "t @ [CHR 0x22]"] by (simp add: quoted_def)
next
  case (JArr js)
  then show thesis by (intro that [of "CHR ''[''"]) simp_all
next
  case (JObj kvs)
  then show thesis by (intro that [of "CHR ''{''"]) simp_all
qed

lemma scan_done_mono:
  assumes "n \<le> m"
  shows "pval n d s = Done x \<Longrightarrow> pval m d s = Done x"
    and "parr n d s = Done y \<Longrightarrow> parr m d s = Done y"
    and "pobj n d s = Done z \<Longrightarrow> pobj m d s = Done z"
  using assms
proof (induction m)
  case (Suc m)
  { case 1 then show ?case using Suc.IH(1) scan_mono(1) [of m d s] by (cases "n = Suc m") auto }
  { case 2 then show ?case using Suc.IH(2) scan_mono(2) [of m d s] by (cases "n = Suc m") auto }
  { case 3 then show ?case using Suc.IH(3) scan_mono(3) [of m d s] by (cases "n = Suc m") auto }
qed auto

lemma parr_print:
  assumes "\<And>j r. j \<in> set js \<Longrightarrow> ends r \<Longrightarrow> \<exists>n. pval n d (json_print j @ r) = Done (j, r)"
    and "js \<noteq> []"
  shows "\<exists>n. parr n d (commas (map json_print js) @ CHR '']'' # r) = Done (js, r)"
  using assms
proof (induction js rule: induct_list012 [case_names none one more])
  case (one j)
  then obtain n where "pval n d (json_print j @ CHR '']'' # r) = Done (j, CHR '']'' # r)"
    by fastforce
  then have "parr (Suc n) d (commas (map json_print [j]) @ CHR '']'' # r) = Done ([j], r)"
    by (simp add: scan_sep_def)
  then show ?case by blast
next
  case (more j j' js)
  let ?t = "commas (map json_print (j' # js)) @ CHR '']'' # r"
  obtain n where n: "parr n d ?t = Done (j' # js, r)"
    using more.IH(2) [OF more.prems(1)] by auto
  obtain m where m: "pval m d (json_print j @ CHR '','' # ?t) = Done (j, CHR '','' # ?t)"
    using more.prems(1) [of j "CHR '','' # ?t"] by auto
  have "parr (Suc (max n m)) d (json_print j @ CHR '','' # ?t) = Done (j # j' # js, r)"
    using scan_done_mono(1) [OF max.cobounded2 m, of n] scan_done_mono(2) [OF max.cobounded1 n, of m]
    by (simp add: scan_sep_def)
  then show ?case by (intro exI [of _ "Suc (max n m)"]) simp
qed simp

lemma scan_key_print: "plain k \<Longrightarrow> scan_key (quoted k @ CHR '':'' # r) = Some (k, r)"
  by (simp add: scan_key_def quoted_def scan_string_plain unquote_plain)

lemma pobj_print:
  assumes "\<And>j r. j \<in> snd ` set kvs \<Longrightarrow> ends r \<Longrightarrow> \<exists>n. pval n d (json_print j @ r) = Done (j, r)"
    and "list_all (\<lambda>(k, v). plain k) kvs" and "kvs \<noteq> []"
  shows "\<exists>n. pobj n d (commas (map (\<lambda>(k, v). quoted k @ '':'' @ json_print v) kvs) @ CHR ''}'' # r)
    = Done (kvs, r)"
  using assms
proof (induction kvs rule: induct_list012 [case_names none one more])
  case (one kv)
  obtain k j where kv: "kv = (k, j)" by (cases kv)
  with one obtain n where "pval n d (json_print j @ CHR ''}'' # r) = Done (j, CHR ''}'' # r)"
    by fastforce
  then have "pobj (Suc n) d (quoted k @ CHR '':'' # json_print j @ CHR ''}'' # r) = Done ([(k, j)], r)"
    using one.prems(2) kv by (simp add: scan_sep_def scan_key_print)
  then show ?case using kv by (intro exI [of _ "Suc n"]) simp
next
  case (more kv kv' kvs)
  obtain k j where kv: "kv = (k, j)" by (cases kv)
  let ?t = "commas (map (\<lambda>(k, v). quoted k @ '':'' @ json_print v) (kv' # kvs)) @ CHR ''}'' # r"
  obtain n where n: "pobj n d ?t = Done (kv' # kvs, r)"
    using more.IH(2) [OF more.prems(1)] more.prems(2) by auto
  obtain m where m: "pval m d (json_print j @ CHR '','' # ?t) = Done (j, CHR '','' # ?t)"
    using more.prems(1) [of j "CHR '','' # ?t"] kv by auto
  have "pobj (Suc (max n m)) d (quoted k @ CHR '':'' # json_print j @ CHR '','' # ?t)
      = Done ((k, j) # kv' # kvs, r)"
    using scan_done_mono(1) [OF max.cobounded2 m, of n] scan_done_mono(3) [OF max.cobounded1 n, of m]
      more.prems(2) kv
    by (simp add: scan_sep_def scan_key_print)
  then show ?case using kv by (intro exI [of _ "Suc (max n m)"]) simp
qed simp

lemma pval_print: "json_ok d j \<Longrightarrow> ends r \<Longrightarrow> \<exists>n. pval n d (json_print j @ r) = Done (j, r)"
proof (induction j arbitrary: d r)
  case JNull
  have "pval 1 d (json_print JNull @ r) = Done (JNull, r)"
    by (simp add: scan_head_def scan_lit_def HasPrefix_def)
  then show ?case by blast
next
  case (JBool b)
  have "pval 1 d (json_print (JBool b) @ r) = Done (JBool b, r)"
    by (simp add: scan_head_def scan_lit_def HasPrefix_def)
  then show ?case by blast
next
  case (JNum lit)
  then have lit: "int_literal lit" by simp
  obtain c cs where c: "lit = c # cs" "\<not> json_space c"
      "c \<notin> {CHR ''{'', CHR ''['', CHR ''}'', CHR '']'', CHR 0x22, CHR ''n'', CHR ''t'', CHR ''f''}"
    by (rule int_literal_head [OF lit])
  with scan_number_append [OF lit JNum.prems(2)] have "pval 1 d (json_print (JNum lit) @ r) = Done (JNum lit, r)"
    by (simp add: scan_head_def)
  then show ?case by blast
next
  case (JStr t)
  then have "pval 1 d (json_print (JStr t) @ r) = Done (JStr t, r)"
    by (simp add: scan_head_def quoted_def scan_string_plain unquote_plain)
  then show ?case by blast
next
  case (JArr js)
  show ?case
  proof (cases js)
    case Nil
    with JArr.prems have "pval 1 d (json_print (JArr js) @ r) = Done (JArr js, r)"
      by (simp add: scan_head_def scan_open_def)
    then show ?thesis by blast
  next
    case (Cons j js')
    have "json_ok (Suc d) j" using JArr.prems Cons by simp
    then obtain c cs where c: "json_print j = c # cs" "\<not> json_space c" "c \<noteq> CHR '']''"
      by (rule json_print_head)
    let ?t = "commas (map json_print js) @ CHR '']'' # r"
    obtain cs' where t: "?t = c # cs'" using c Cons by (cases js') auto
    have "\<exists>n. parr n (Suc d) ?t = Done (js, r)"
    proof (rule parr_print)
      show "\<exists>n. pval n (Suc d) (json_print x @ s) = Done (x, s)" if "x \<in> set js" "ends s" for x s
        using that JArr.prems(1) by (intro JArr.IH) (auto simp: list_all_iff)
    qed (simp add: Cons)
    then obtain n where "parr n (Suc d) ?t = Done (js, r)" by blast
    then have "pval (Suc n) d (json_print (JArr js) @ r) = Done (JArr js, r)"
      using JArr.prems c t by (simp add: scan_head_def scan_open_def)
    then show ?thesis by blast
  qed
next
  case (JObj kvs)
  show ?case
  proof (cases kvs)
    case Nil
    with JObj.prems have "pval 1 d (json_print (JObj kvs) @ r) = Done (JObj kvs, r)"
      by (simp add: scan_head_def scan_open_def)
    then show ?thesis by blast
  next
    case (Cons kv kvs')
    let ?t = "commas (map (\<lambda>(k, v). quoted k @ '':'' @ json_print v) kvs) @ CHR ''}'' # r"
    obtain cs where t: "?t = CHR 0x22 # cs" using Cons by (cases kvs'; cases kv) (auto simp: quoted_def)
    have "\<exists>n. pobj n (Suc d) ?t = Done (kvs, r)"
    proof (rule pobj_print)
      show "\<exists>n. pval n (Suc d) (json_print j @ s) = Done (j, s)" if j: "j \<in> snd ` set kvs" "ends s" for j s
      proof -
        obtain k where k: "(k, j) \<in> set kvs" using j(1) by auto
        then have "json_ok (Suc d) j" using JObj.prems(1) by (auto simp: list_all_iff)
        with JObj.IH [OF k] j(2) show ?thesis by simp
      qed
      show "list_all (\<lambda>(k, v). plain k) kvs" using JObj.prems(1) by (auto simp: list_all_iff)
    qed (simp add: Cons)
    then obtain n where "pobj n (Suc d) ?t = Done (kvs, r)" by blast
    then have "pval (Suc n) d (json_print (JObj kvs) @ r) = Done (JObj kvs, r)"
      using JObj.prems t by (simp add: scan_head_def scan_open_def)
    then show ?thesis by blast
  qed
qed

theorem json_parse_print: "json_ok 0 j \<Longrightarrow> json_parse (json_print j) = Some j"
proof -
  assume "json_ok 0 j"
  then obtain n where "pval n 0 (json_print j @ []) = Done (j, [])"
    using pval_print [of 0 j "[]"] by auto
  then show ?thesis using json_parse_fuel [of n "json_print j"] by (simp add: skip_ws_def)
qed

section \<open>Texts that spell a value\<close>

text \<open>A text that the scanner reads as a value, whatever follows it in a document.\<close>

definition spells :: "nat \<Rightarrow> string \<Rightarrow> json \<Rightarrow> bool" where
  "spells d t j \<longleftrightarrow> (\<forall>r. ends r \<longrightarrow> (\<exists>n. pval n d (t @ r) = Done (j, r)))"

lemma spells_print: "json_ok d j \<Longrightarrow> spells d (json_print j) j"
  by (simp add: spells_def pval_print)

lemma spells_parse: "spells 0 t j \<Longrightarrow> json_parse t = Some j"
proof -
  assume "spells 0 t j"
  then obtain n where "pval n 0 (t @ []) = Done (j, [])" unfolding spells_def using ends_simps(1) by blast
  then show ?thesis using json_parse_fuel [of n t] by (simp add: skip_ws_def)
qed

definition member :: "string \<times> string \<times> json \<Rightarrow> string" where
  "member m = quoted (fst m) @ '':'' @ fst (snd m)"

lemma member_triple [simp]: "member (k, t, j) = quoted k @ '':'' @ t"
  by (simp add: member_def)

lemma pobj_members:
  assumes "\<forall>(k, t, j)\<in>set ms. plain k \<and> spells d t j" "ms \<noteq> []"
  shows "\<exists>n. pobj n d (commas (map member ms) @ CHR ''}'' # r) = Done (map (\<lambda>(k, t, j). (k, j)) ms, r)"
  using assms
proof (induction ms rule: induct_list012 [case_names none one more])
  case (one m)
  obtain k t j where m: "m = (k, t, j)" by (cases m)
  with one have k: "plain k" "spells d t j" by auto
  then obtain n where "pval n d (t @ CHR ''}'' # r) = Done (j, CHR ''}'' # r)"
    unfolding spells_def using ends_simps(4) by blast
  with k(1) have "pobj (Suc n) d (quoted k @ CHR '':'' # t @ CHR ''}'' # r) = Done ([(k, j)], r)"
    by (simp add: scan_sep_def scan_key_print)
  then show ?case using m by (intro exI [of _ "Suc n"]) (simp del: pobj.simps)
next
  case (more m m' ms)
  obtain k t j where m: "m = (k, t, j)" by (cases m)
  let ?u = "commas (map member (m' # ms)) @ CHR ''}'' # r"
  let ?js = "map (\<lambda>(k, t, j). (k, j)) (m' # ms)"
  obtain n where n: "pobj n d ?u = Done (?js, r)"
    using more.IH(2) more.prems(1) by auto
  have k: "plain k" "spells d t j" using more.prems(1) m by auto
  then obtain l where l: "pval l d (t @ CHR '','' # ?u) = Done (j, CHR '','' # ?u)"
    unfolding spells_def using ends_simps(2) by blast
  have "pobj (Suc (max n l)) d (quoted k @ CHR '':'' # t @ CHR '','' # ?u) = Done ((k, j) # ?js, r)"
    using scan_done_mono(1) [OF max.cobounded2 l, of n] scan_done_mono(3) [OF max.cobounded1 n, of l] k(1)
    by (simp add: scan_sep_def scan_key_print)
  then show ?case using m by (intro exI [of _ "Suc (max n l)"]) (simp del: pobj.simps)
qed simp

lemma spells_object:
  assumes "\<forall>(k, t, j)\<in>set ms. plain k \<and> spells (Suc d) t j" "ms \<noteq> []" "d < maxNestingDepth"
  shows "spells d (''{'' @ commas (map member ms) @ ''}'') (JObj (map (\<lambda>(k, t, j). (k, j)) ms))"
  unfolding spells_def
proof (intro allI impI)
  fix r
  obtain n where n: "pobj n (Suc d) (commas (map member ms) @ CHR ''}'' # r) = Done (map (\<lambda>(k, t, j). (k, j)) ms, r)"
    using pobj_members [OF assms(1,2)] by blast
  obtain m ms' where ms: "ms = m # ms'" using assms(2) by (cases ms) auto
  obtain cs where "commas (map member ms) @ CHR ''}'' # r = CHR 0x22 # cs"
    unfolding ms by (cases ms') (auto simp: member_def quoted_def)
  with n assms(3) have "pval (Suc n) d ((''{'' @ commas (map member ms) @ ''}'') @ r)
      = Done (JObj (map (\<lambda>(k, t, j). (k, j)) ms), r)"
    by (simp add: scan_head_def scan_open_def)
  then show "\<exists>n. pval n d ((''{'' @ commas (map member ms) @ ''}'') @ r)
      = Done (JObj (map (\<lambda>(k, t, j). (k, j)) ms), r)" by blast
qed

text \<open>A string literal with escapes.\<close>

lemma spells_string:
  assumes "\<And>r. scan_string (raw @ CHR 0x22 # r) = Some (raw, r)"
  shows "spells d (quoted raw) (JStr (unquote raw))"
  unfolding spells_def
proof (intro allI impI)
  fix r
  have "pval 1 d (quoted raw @ r) = Done (JStr (unquote raw), r)"
    using assms by (simp add: scan_head_def quoted_def)
  then show "\<exists>n. pval n d (quoted raw @ r) = Done (JStr (unquote raw), r)" by blast
qed

end
