(* ===== verification/Json_Grammar.thy ===== *)
theory Json_Grammar
  imports Json_Print
begin

text \<open>
  The grammar of JSON texts (RFC 8259, section 2 on), independent of the scanner: white space between
  any two tokens, numbers with fraction and exponent, strings with escapes. The scanner accepts every
  text of the grammar within its nesting limit and reads what it spells (\<open>json_parse_grammar\<close>).
\<close>

section \<open>The grammar\<close>

definition spaces :: "string \<Rightarrow> bool" where
  "spaces w \<longleftrightarrow> list_all json_space w"

definition digits_text :: "string \<Rightarrow> bool" where
  "digits_text ds \<longleftrightarrow> ds \<noteq> [] \<and> list_all is_digit ds"

definition number_text :: "string \<Rightarrow> bool" where
  "number_text lit \<longleftrightarrow>
     (\<exists>sign i f e. lit = sign @ i @ f @ e \<and> sign \<in> {[], ''-''} \<and> int_digits i \<and>
        (f = [] \<or> (\<exists>ds. f = ''.'' @ ds \<and> digits_text ds)) \<and>
        (e = [] \<or> (\<exists>x g ds. e = [x] @ g @ ds \<and> x \<in> {CHR ''e'', CHR ''E''} \<and> g \<in> {[], ''+'', ''-''} \<and> digits_text ds)))"

text \<open>The inside of a string literal.\<close>

fun string_text :: "string \<Rightarrow> bool" where
  "string_text [] = True"
| "string_text (c # r) =
     (if c = CHR 0x5C then
        (case r of [] \<Rightarrow> False | e # r' \<Rightarrow>
           (e \<in> set ''bfnrt/'' \<or> e = CHR 0x5C \<or> e = CHR 0x22 \<or>
              e = CHR ''u'' \<and> 4 \<le> length r' \<and> list_all is_hex (take 4 r')) \<and> string_text r')
      else c \<noteq> CHR 0x22 \<and> 32 \<le> (of_char c :: nat) \<and> string_text r)"

inductive json_text :: "nat \<Rightarrow> string \<Rightarrow> json \<Rightarrow> bool"
  and elems_text :: "nat \<Rightarrow> string \<Rightarrow> json list \<Rightarrow> bool"
  and members_text :: "nat \<Rightarrow> string \<Rightarrow> (string \<times> json) list \<Rightarrow> bool" where
  null: "json_text d ''null'' JNull"
| true: "json_text d ''true'' (JBool True)"
| false: "json_text d ''false'' (JBool False)"
| number: "number_text lit \<Longrightarrow> json_text d lit (JNum lit)"
| string: "string_text raw \<Longrightarrow> json_text d (quoted raw) (JStr (unquote raw))"
| no_elems: "d < maxNestingDepth \<Longrightarrow> spaces w \<Longrightarrow> json_text d (''['' @ w @ '']'') (JArr [])"
| array: "d < maxNestingDepth \<Longrightarrow> elems_text (Suc d) t js \<Longrightarrow> json_text d (''['' @ t @ '']'') (JArr js)"
| no_members: "d < maxNestingDepth \<Longrightarrow> spaces w \<Longrightarrow> json_text d (''{'' @ w @ ''}'') (JObj [])"
| object: "d < maxNestingDepth \<Longrightarrow> members_text (Suc d) t kvs \<Longrightarrow> json_text d (''{'' @ t @ ''}'') (JObj kvs)"
| elem: "spaces w \<Longrightarrow> json_text d t j \<Longrightarrow> spaces w' \<Longrightarrow> elems_text d (w @ t @ w') [j]"
| elems: "spaces w \<Longrightarrow> json_text d t j \<Longrightarrow> spaces w' \<Longrightarrow> elems_text d u js \<Longrightarrow> elems_text d (w @ t @ w' @ '','' @ u) (j # js)"
| member: "spaces w1 \<Longrightarrow> string_text k \<Longrightarrow> spaces w2 \<Longrightarrow> spaces w3 \<Longrightarrow> json_text d t j \<Longrightarrow> spaces w4 \<Longrightarrow>
    members_text d (w1 @ quoted k @ w2 @ '':'' @ w3 @ t @ w4) [(unquote k, j)]"
| members: "spaces w1 \<Longrightarrow> string_text k \<Longrightarrow> spaces w2 \<Longrightarrow> spaces w3 \<Longrightarrow> json_text d t j \<Longrightarrow> spaces w4 \<Longrightarrow> members_text d u kvs \<Longrightarrow>
    members_text d (w1 @ quoted k @ w2 @ '':'' @ w3 @ t @ w4 @ '','' @ u) ((unquote k, j) # kvs)"

section \<open>Tokens\<close>

lemma skip_ws_spaces [simp]: "spaces w \<Longrightarrow> skip_ws (w @ s) = skip_ws s"
  by (induction w) (simp_all add: spaces_def skip_ws_def)

lemma skip_ws_only [simp]: "spaces w \<Longrightarrow> skip_ws w = []"
  by (simp add: spaces_def skip_ws_def list_all_iff)

lemma skip_ws_Cons: "\<not> json_space c \<Longrightarrow> skip_ws (c # s) = c # s"
  by (simp add: skip_ws_def)

lemma skip_ws_idem [simp]: "skip_ws (skip_ws s) = skip_ws s"
  by (simp add: skip_ws_def dropWhile_idem)

definition stops :: "string \<Rightarrow> bool" where
  "stops r \<longleftrightarrow> r = [] \<or> json_space (hd r) \<or> hd r \<in> {CHR '','', CHR '']'', CHR ''}''}"

lemma stops_simps [simp]: "stops []" "stops (CHR '','' # r)" "stops (CHR '']'' # r)" "stops (CHR ''}'' # r)"
  by (simp_all add: stops_def)

lemma stops_spaces: "spaces w \<Longrightarrow> stops r \<Longrightarrow> stops (w @ r)"
  by (cases w) (auto simp: stops_def spaces_def)

lemma stops_cases:
  assumes "stops r"
  obtains "r = []" | c s where "r = c # s" "\<not> is_digit c" "c \<notin> {CHR ''.'', CHR ''e'', CHR ''E'', CHR ''+'', CHR ''-''}"
  using assms by (cases r) (auto simp: stops_def json_space_def is_digit_def)

lemma scan_digits_text:
  assumes "digits_text ds" "r = [] \<or> \<not> is_digit (hd r)"
  shows "scan_digits (ds @ r) = Some (ds, r)"
proof -
  have "takeWhile is_digit (ds @ r) = ds" "dropWhile is_digit (ds @ r) = r"
    using assms by (auto simp: digits_text_def list_all_iff takeWhile_append dropWhile_append takeWhile_eq_Nil_iff
        dropWhile_eq_self_iff)
  with assms show ?thesis by (cases ds) (auto simp: scan_digits_def digits_text_def)
qed

lemma scan_number_text:
  assumes "number_text lit" "stops r"
  shows "scan_number (lit @ r) = Some (lit, r)"
proof -
  obtain sign i f e where lit: "lit = sign @ i @ f @ e" "sign \<in> {[], ''-''}" "int_digits i"
      and f: "f = [] \<or> (\<exists>ds. f = ''.'' @ ds \<and> digits_text ds)"
      and e: "e = [] \<or> (\<exists>x g ds. e = [x] @ g @ ds \<and> x \<in> {CHR ''e'', CHR ''E''} \<and> g \<in> {[], ''+'', ''-''} \<and> digits_text ds)"
    using assms(1) unfolding number_text_def by blast
  have nd_r: "r = [] \<or> \<not> is_digit (hd r)" using assms(2) by (cases rule: stops_cases) auto
  have "scan_exp (e @ r) = Some (e, r)"
  proof (cases "e = []")
    case True
    with assms(2) show ?thesis by (cases rule: stops_cases) (auto simp: scan_exp_def)
  next
    case False
    with e obtain x g ds where x: "e = [x] @ g @ ds" "x \<in> {CHR ''e'', CHR ''E''}" "g \<in> {[], ''+'', ''-''}" "digits_text ds"
      by blast
    obtain d0 ds' where "ds = d0 # ds'" "is_digit d0" using x(4) by (cases ds) (auto simp: digits_text_def)
    moreover from this have "d0 \<noteq> CHR ''+''" "d0 \<noteq> CHR ''-''" by (auto simp: is_digit_def)
    ultimately show ?thesis using x scan_digits_text [OF x(4) nd_r] by (auto simp: scan_exp_def)
  qed
  moreover have nd_e: "e @ r = [] \<or> \<not> is_digit (hd (e @ r)) \<and> hd (e @ r) \<noteq> CHR ''.''"
    using e assms(2) by (cases "e = []") (auto simp: is_digit_def elim: stops_cases)
  have "scan_frac (f @ e @ r) = Some (f, e @ r)"
  proof (cases "f = []")
    case True
    with nd_e show ?thesis by (cases "e @ r") (auto simp: scan_frac_def)
  next
    case False
    with f obtain ds where "f = ''.'' @ ds" "digits_text ds" by blast
    with scan_digits_text [of ds "e @ r"] nd_e show ?thesis by (auto simp: scan_frac_def)
  qed
  moreover have "scan_int (i @ f @ e @ r) = Some (i, f @ e @ r)"
  proof -
    have nd: "f @ e @ r = [] \<or> \<not> is_digit (hd (f @ e @ r))"
      using f nd_e by (cases "f = []") (auto simp: is_digit_def)
    have i: "digits_text i" using lit(3) by (simp add: int_digits_def digits_text_def)
    obtain c cs where c: "i = c # cs" "c = CHR ''0'' \<longrightarrow> cs = []"
      using lit(3) by (cases i) (auto simp: int_digits_def)
    with scan_digits_text [OF i nd] show ?thesis by (auto simp: scan_int_def)
  qed
  moreover obtain c cs where i: "i = c # cs" "is_digit c" using int_digits_head [OF lit(3)] by blast
  moreover from i(2) have "c \<noteq> CHR ''-''" by (auto simp: is_digit_def)
  ultimately show ?thesis using lit(1,2) by (auto simp: scan_number_def)
qed

definition escape_ok :: "char \<Rightarrow> string \<Rightarrow> bool" where
  "escape_ok e r \<longleftrightarrow> e \<in> set ''bfnrt/'' \<or> e = CHR 0x5C \<or> e = CHR 0x22 \<or>
     (e = CHR ''u'' \<and> length r \<ge> 4 \<and> list_all is_hex (take 4 r))"

lemma scan_string_escape:
  "escape_ok e r \<Longrightarrow> scan_string (CHR 0x5C # e # r) = map_option (\<lambda>(raw, s). (CHR 0x5C # e # raw, s)) (scan_string r)"
  unfolding escape_ok_def by (subst scan_string.simps) (simp only: list.case if_True char.inject simp_thms if_False)

lemma string_text_escape: "string_text (CHR 0x5C # e # r) \<longleftrightarrow> escape_ok e r \<and> string_text r"
  unfolding escape_ok_def by (subst string_text.simps) (simp only: list.case if_True simp_thms)

lemma escape_ok_append: "escape_ok e r \<Longrightarrow> escape_ok e (r @ s)"
  by (auto simp: escape_ok_def simp del: set_simps)

lemma scan_string_text: "string_text raw \<Longrightarrow> scan_string (raw @ CHR 0x22 # r) = Some (raw, r)"
proof (induction "length raw" arbitrary: raw rule: less_induct)
  case less
  show ?case
  proof (cases raw)
    case (Cons c s)
    show ?thesis
    proof (cases "c = CHR 0x5C")
      case True
      obtain e s' where s: "s = e # s'" using less.prems Cons True by (cases s) simp_all
      with less.prems Cons True have e: "escape_ok e s'" "string_text s'" by (simp_all only: string_text_escape)
      have "scan_string (s' @ CHR 0x22 # r) = Some (s', r)" by (rule less.hyps [OF _ e(2)]) (simp add: Cons s)
      then show ?thesis
        using scan_string_escape [OF escape_ok_append [OF e(1), of "CHR 0x22 # r"]] by (simp only: Cons s True append_Cons option.map prod.case)
    next
      case False
      with less Cons show ?thesis by simp
    qed
  qed simp
qed

lemma int_number_text: "int_digits ds \<Longrightarrow> number_text ds"
  unfolding number_text_def by (rule exI [of _ "[]"], rule exI [of _ ds], rule exI [of _ "[]"], rule exI [of _ "[]"]) simp

lemma number_text_head:
  assumes "number_text lit"
  obtains c cs where "lit = c # cs" "\<not> json_space c"
    "c \<notin> {CHR ''{'', CHR ''['', CHR ''}'', CHR '']'', CHR 0x22, CHR ''n'', CHR ''t'', CHR ''f''}"
proof -
  have "\<exists>c cs. lit = c # cs \<and> (is_digit c \<or> c = CHR ''-'')"
    using assms int_digits_head unfolding number_text_def by fastforce
  then obtain c cs where c: "lit = c # cs" "is_digit c \<or> c = CHR ''-''" by blast
  show thesis
    by (rule that [OF c(1)]) (use c(2) in \<open>auto simp: json_space_def is_digit_def\<close>)
qed

section \<open>The scanner accepts the grammar\<close>

lemma pval_spaces [simp]: "spaces w \<Longrightarrow> pval n d (w @ s) = pval n d s"
  by (cases n) (simp_all add: scan_head_def)

lemma pval_skip [simp]: "pval n d (skip_ws s) = pval n d s"
  by (cases n) (simp_all add: scan_head_def)

lemma parr_skip [simp]: "parr n d (skip_ws s) = parr n d s"
  by (cases n) simp_all

lemma scan_key_skip [simp]: "scan_key (skip_ws s) = scan_key s"
  by (simp add: scan_key_def)

lemma pobj_skip [simp]: "pobj n d (skip_ws s) = pobj n d s"
  by (cases n) simp_all

lemma scan_sep_spaces [simp]: "spaces w \<Longrightarrow> scan_sep close (w @ s) = scan_sep close s"
  by (simp add: scan_sep_def)

lemma scan_key_text:
  assumes "spaces w1" "string_text k" "spaces w2"
  shows "scan_key (w1 @ quoted k @ w2 @ CHR '':'' # r) = Some (unquote k, r)"
  using assms scan_string_text [OF assms(2)] by (simp add: scan_key_def quoted_def)

lemma open_array:
  assumes "d < maxNestingDepth" "skip_ws r = c # cs" "c \<noteq> CHR '']''" "parr n (Suc d) r = Done (js, u)"
  shows "pval (Suc n) d (CHR ''['' # r) = Done (JArr js, u)"
  using assms parr_skip [of n "Suc d" r] by (simp add: scan_head_def scan_open_def)

lemma open_object:
  assumes "d < maxNestingDepth" "skip_ws r = CHR 0x22 # cs" "pobj n (Suc d) r = Done (kvs, u)"
  shows "pval (Suc n) d (CHR ''{'' # r) = Done (JObj kvs, u)"
  using assms pobj_skip [of n "Suc d" r] by (simp add: scan_head_def scan_open_def)

lemma json_text_head:
  assumes "json_text d t j"
  shows "\<exists>c cs. t = c # cs \<and> \<not> json_space c \<and> c \<noteq> CHR '']''"
  using assms
proof (cases rule: json_text.cases)
  case number
  then show ?thesis by (auto elim: number_text_head)
next
  case string
  then show ?thesis by (simp add: quoted_def json_space_def)
qed (simp_all add: json_space_def)

lemma elems_text_head:
  assumes "elems_text d t js"
  shows "\<exists>c cs. \<forall>r. skip_ws (t @ r) = c # cs @ r \<and> c \<noteq> CHR '']''"
  using assms
proof (cases rule: elems_text.cases)
  case (elem w t' j w')
  obtain c cs where "t' = c # cs" "\<not> json_space c" "c \<noteq> CHR '']''" using json_text_head [OF elem(4)] by blast
  with elem show ?thesis by (intro exI [of _ c] exI [of _ "cs @ w'"]) (simp add: skip_ws_Cons)
next
  case (elems w t' j w' u js')
  obtain c cs where "t' = c # cs" "\<not> json_space c" "c \<noteq> CHR '']''" using json_text_head [OF elems(4)] by blast
  with elems show ?thesis by (intro exI [of _ c] exI [of _ "cs @ w' @ '','' @ u"]) (simp add: skip_ws_Cons)
qed

lemma members_text_head:
  assumes "members_text d t kvs"
  shows "\<exists>cs. \<forall>r. skip_ws (t @ r) = CHR 0x22 # cs @ r"
  using assms
proof (cases rule: members_text.cases)
  case (member w1 k w2 w3 t' j w4)
  then show ?thesis
    by (intro exI [of _ "k @ CHR 0x22 # w2 @ '':'' @ w3 @ t' @ w4"]) (simp add: quoted_def skip_ws_Cons json_space_def)
next
  case (members w1 k w2 w3 t' j w4 u kvs')
  then show ?thesis
    by (intro exI [of _ "k @ CHR 0x22 # w2 @ '':'' @ w3 @ t' @ w4 @ '','' @ u"]) (simp add: quoted_def skip_ws_Cons json_space_def)
qed

lemma parr_more:
  assumes "pval n d (t @ r0) = Done (j, r0)" "scan_sep CHR '']'' r0 = Some (True, u)" "parr m d u = Done (js, v)"
  shows "parr (Suc (max n m)) d (t @ r0) = Done (j # js, v)"
  using scan_done_mono(1) [OF max.cobounded1 assms(1), of m] scan_done_mono(2) [OF max.cobounded2 assms(3), of n] assms(2)
  by simp

lemma pobj_more:
  assumes "scan_key k = Some (key, t @ r0)" "pval n d (t @ r0) = Done (j, r0)" "scan_sep CHR ''}'' r0 = Some (True, u)"
    "pobj m d u = Done (kvs, v)"
  shows "pobj (Suc (max n m)) d k = Done ((key, j) # kvs, v)"
  using scan_done_mono(1) [OF max.cobounded1 assms(2), of m] scan_done_mono(3) [OF max.cobounded2 assms(4), of n] assms(1,3)
  by simp

lemma pval_leaf: "scan_head d s = Leaf v r \<Longrightarrow> \<exists>n. pval n d s = Done (v, r)"
  by (intro exI [of _ 1]) simp

lemma scanner_accepts:
  "json_text d t j \<Longrightarrow> stops r \<Longrightarrow> \<exists>n. pval n d (t @ r) = Done (j, r)"
  "elems_text d t js \<Longrightarrow> \<exists>n. parr n d (t @ CHR '']'' # r) = Done (js, r)"
  "members_text d t kvs \<Longrightarrow> \<exists>n. pobj n d (t @ CHR ''}'' # r) = Done (kvs, r)"
proof (induction arbitrary: r and r and r rule: json_text_elems_text_members_text.inducts)
  case (number lit d)
  obtain c cs where "lit = c # cs" "\<not> json_space c"
      "c \<notin> {CHR ''{'', CHR ''['', CHR ''}'', CHR '']'', CHR 0x22, CHR ''n'', CHR ''t'', CHR ''f''}"
    using number_text_head [OF number(1)] by blast
  with scan_number_text [OF number] show ?case by (intro pval_leaf) (simp add: scan_head_def)
next
  case (string raw d)
  with scan_string_text [OF string(1)] show ?case by (intro pval_leaf) (simp add: scan_head_def quoted_def)
next
  case (array d t js)
  obtain n where "parr n (Suc d) (t @ CHR '']'' # r) = Done (js, r)" using array by blast
  moreover obtain c cs where "skip_ws (t @ CHR '']'' # r) = c # cs @ CHR '']'' # r" "c \<noteq> CHR '']''"
    using elems_text_head [OF array(2)] by blast
  ultimately have "pval (Suc n) d (CHR ''['' # t @ CHR '']'' # r) = Done (JArr js, r)"
    by (intro open_array [OF array(1)])
  then show ?case by (intro exI [of _ "Suc n"]) (simp del: pval.simps)
next
  case (object d t kvs)
  obtain n where "pobj n (Suc d) (t @ CHR ''}'' # r) = Done (kvs, r)" using object by blast
  moreover obtain cs where "skip_ws (t @ CHR ''}'' # r) = CHR 0x22 # cs @ CHR ''}'' # r"
    using members_text_head [OF object(2)] by blast
  ultimately have "pval (Suc n) d (CHR ''{'' # t @ CHR ''}'' # r) = Done (JObj kvs, r)"
    by (intro open_object [OF object(1)])
  then show ?case by (intro exI [of _ "Suc n"]) (simp del: pval.simps)
next
  case (elem w d t j w')
  obtain n where "pval n d (t @ w' @ CHR '']'' # r) = Done (j, w' @ CHR '']'' # r)"
    using elem stops_spaces by (metis stops_simps(3))
  then have "parr (Suc n) d (w @ t @ w' @ CHR '']'' # r) = Done ([j], r)"
    using elem by (simp add: scan_sep_def)
  then show ?case by (intro exI [of _ "Suc n"]) simp
next
  case (elems w d t j w' u js)
  obtain n where n: "pval n d (t @ w' @ CHR '','' # u @ CHR '']'' # r) = Done (j, w' @ CHR '','' # u @ CHR '']'' # r)"
    using elems stops_spaces by (metis stops_simps(2))
  obtain m where m: "parr m d (u @ CHR '']'' # r) = Done (js, r)" using elems by blast
  have "pval n d ((w @ t) @ w' @ CHR '','' # u @ CHR '']'' # r) = Done (j, w' @ CHR '','' # u @ CHR '']'' # r)"
    using n elems(1) by simp
  from parr_more [OF this _ m] elems(3) show ?case
    by (intro exI [of _ "Suc (max n m)"]) (simp add: scan_sep_def del: parr.simps)
next
  case (member w1 k w2 w3 d t j w4)
  obtain n where n: "pval n d (t @ w4 @ CHR ''}'' # r) = Done (j, w4 @ CHR ''}'' # r)"
    using member stops_spaces by (metis stops_simps(4))
  have "pobj (Suc n) d (w1 @ quoted k @ w2 @ CHR '':'' # w3 @ t @ w4 @ CHR ''}'' # r) = Done ([(unquote k, j)], r)"
    using n member scan_key_text [OF member(1-3)] by (simp add: scan_sep_def)
  then show ?case by (intro exI [of _ "Suc n"]) (simp del: pobj.simps)
next
  case (members w1 k w2 w3 d t j w4 u kvs)
  obtain n where n: "pval n d (t @ w4 @ CHR '','' # u @ CHR ''}'' # r) = Done (j, w4 @ CHR '','' # u @ CHR ''}'' # r)"
    using members stops_spaces by (metis stops_simps(2))
  obtain m where m: "pobj m d (u @ CHR ''}'' # r) = Done (kvs, r)" using members by blast
  have "pval n d ((w3 @ t) @ w4 @ CHR '','' # u @ CHR ''}'' # r) = Done (j, w4 @ CHR '','' # u @ CHR ''}'' # r)"
    using n members(4) by simp
  from pobj_more [OF _ this _ m, of "w1 @ quoted k @ w2 @ CHR '':'' # w3 @ t @ w4 @ CHR '','' # u @ CHR ''}'' # r"]
    scan_key_text [OF members(1-3)] members(6) show ?case
    by (intro exI [of _ "Suc (max n m)"]) (simp add: scan_sep_def del: pobj.simps)
qed (auto simp: scan_head_def scan_lit_def HasPrefix_def scan_open_def intro!: pval_leaf)

theorem json_parse_grammar:
  assumes "json_text 0 t j" "spaces w" "spaces w'"
  shows "json_parse (w @ t @ w') = Some j"
proof -
  have "stops w'" using stops_spaces [OF assms(3), of "[]"] by simp
  then obtain n where "pval n 0 (t @ w') = Done (j, w')" using scanner_accepts(1) [OF assms(1)] by blast
  with assms(2,3) json_parse_fuel [of n "w @ t @ w'"] show ?thesis by simp
qed

end
