(* ===== verification/Jrpc_Call.thy ===== *)
theory Jrpc_Call
  imports Json_Grammar "HOL-Library.Multiset"
begin

text \<open>
  The package \<open>jrpc\<close> without its log sanitizer: parsing a request body into a call (or a batch
  of calls), reading the sender and the transaction out of an \<open>eth_sendRawTransaction\<close>, and the
  parameters of \<open>engine_forkchoiceUpdatedV3\<close>. go-ethereum is the parameter \<open>eth\<close>: every
  function of it that decodes may fail, and those the code guards by \<open>recover\<close> may panic.
\<close>

section \<open>The functions used of go-ethereum\<close>

record 'tx eth_lib =
  hexutil_Decode :: "string \<Rightarrow> string + string"
  tx_UnmarshalBinary :: "string \<Rightarrow> (string + 'tx) go"
  tx_Type :: "'tx \<Rightarrow> nat"
  DepositTxType :: nat
  tx_From :: "'tx \<Rightarrow> string"
  tx_ChainId :: "'tx \<Rightarrow> int option"
  tx_Sender :: "int \<Rightarrow> 'tx \<Rightarrow> (string + string) go"
    \<comment> \<open>\<open>ethtypes.Sender(ethtypes.LatestSignerForChainID(chainId), tx)\<close>\<close>
  tx_To :: "'tx \<Rightarrow> string option"
  tx_Hash :: "'tx \<Rightarrow> string"
  tx_Nonce :: "'tx \<Rightarrow> nat"
  hash_Hex :: "string \<Rightarrow> string"

section \<open>Errors\<close>

datatype raw_tx_error =
    HexError string
  | BinaryError string
  | InvalidChainId "int option"
  | SenderError string

datatype call_error =
    InvalidMethod string
  | InvalidParams
  | ParamsCountError nat
  | RawTxError raw_tx_error
  | Recovered

definition errFailedToDecodeEthSendRawTransaction :: string where
  "errFailedToDecodeEthSendRawTransaction = ''failed to decode eth_sendRawTransaction''"

text \<open>The text of an error of \<open>DecodeEthRawTransaction\<close>; a nil \<open>*big.Int\<close> prints as \<open><nil>\<close>.\<close>

definition raw_tx_error_text :: "raw_tx_error \<Rightarrow> string" where
  "raw_tx_error_text e = errFailedToDecodeEthSendRawTransaction @ '': '' @
     (case e of
        HexError t \<Rightarrow> t
      | BinaryError t \<Rightarrow> t
      | InvalidChainId c \<Rightarrow> ''invalid chain id: '' @ (case c of None \<Rightarrow> ''<nil>'' | Some i \<Rightarrow> itoa i)
      | SenderError t \<Rightarrow> t)"

section \<open>Raw transactions\<close>

definition DecodeEthRawTransaction :: "'tx eth_lib \<Rightarrow> string \<Rightarrow> (raw_tx_error + string \<times> 'tx) go" where
  "DecodeEthRawTransaction eth str =
     (case hexutil_Decode eth str of
        Inl e \<Rightarrow> Ret (Inl (HexError e))
      | Inr bytes \<Rightarrow>
          go_bind (tx_UnmarshalBinary eth bytes) (\<lambda>r. case r of
            Inl e \<Rightarrow> Ret (Inl (BinaryError e))
          | Inr tx \<Rightarrow>
              if tx_Type eth tx = DepositTxType eth then Ret (Inr (tx_From eth tx, tx))
              else (case tx_ChainId eth tx of
                  None \<Rightarrow> Ret (Inl (InvalidChainId None))
                | Some c \<Rightarrow>
                    if c \<le> 0 then Ret (Inl (InvalidChainId (Some c)))
                    else go_map (\<lambda>s. case s of Inl e \<Rightarrow> Inl (SenderError e) | Inr from \<Rightarrow> Inr (from, tx))
                           (tx_Sender eth c tx))))"

text \<open>The deferred \<open>recover\<close> turns a panic of the body into an error.\<close>

definition recovered :: "(call_error + 'a) go \<Rightarrow> call_error + 'a" where
  "recovered m = (case m of Ret x \<Rightarrow> x | Panic \<Rightarrow> Inl Recovered)"

definition decodeEthSendRawTransaction :: "'tx eth_lib \<Rightarrow> json option \<Rightarrow> call_error + string \<times> 'tx" where
  "decodeEthSendRawTransaction eth params =
     recovered
       (case Unmarshal_raw (decode_slice [] decode_string) [] params of
          None \<Rightarrow> Ret (Inl InvalidParams)
        | Some inputs \<Rightarrow>
            if length inputs \<noteq> 1 then Ret (Inl (ParamsCountError (length inputs)))
            else go_bind (slice_get inputs 0) (\<lambda>s.
                   go_map (\<lambda>r. case r of Inl e \<Rightarrow> Inl (RawTxError e) | Inr ft \<Rightarrow> Inr ft)
                     (DecodeEthRawTransaction eth s)))"

section \<open>Calls\<close>

record callUint64 =
  u_ID :: nat
  u_Method :: string
  u_Params :: "json option"

record callString =
  s_ID :: string
  s_Method :: string
  s_Params :: "json option"

datatype Call = CallUint64 callUint64 | CallString callString

fun GetID :: "Call \<Rightarrow> string" where
  "GetID (CallUint64 c) = dec (u_ID c)"
| "GetID (CallString c) = [CHR 0x22] @ s_ID c @ [CHR 0x22]"

fun GetMethod :: "Call \<Rightarrow> string" where
  "GetMethod (CallUint64 c) = u_Method c"
| "GetMethod (CallString c) = s_Method c"

fun GetParams :: "Call \<Rightarrow> json option" where
  "GetParams (CallUint64 c) = u_Params c"
| "GetParams (CallString c) = s_Params c"

definition DecodeEthSendRawTransaction :: "'tx eth_lib \<Rightarrow> Call \<Rightarrow> call_error + string \<times> 'tx" where
  "DecodeEthSendRawTransaction eth c =
     (if GetMethod c \<noteq> ''eth_sendRawTransaction'' then Inl (InvalidMethod (GetMethod c))
      else decodeEthSendRawTransaction eth (GetParams c))"

section \<open>Parsing a body\<close>

definition call_fields :: "string list" where
  "call_fields = [''id'', ''method'', ''params'']"

definition decode_callUint64 :: "callUint64 decoder" where
  "decode_callUint64 = decode_struct call_fields (\<lambda>f j c.
     if f = ''id'' then (case decode_uint64 j (u_ID c) of (x, ok) \<Rightarrow> (c\<lparr>u_ID := x\<rparr>, ok))
     else if f = ''method'' then (case decode_string j (u_Method c) of (x, ok) \<Rightarrow> (c\<lparr>u_Method := x\<rparr>, ok))
     else (case decode_raw j (u_Params c) of (x, ok) \<Rightarrow> (c\<lparr>u_Params := x\<rparr>, ok)))"

definition decode_callString :: "callString decoder" where
  "decode_callString = decode_struct call_fields (\<lambda>f j c.
     if f = ''id'' then (case decode_string j (s_ID c) of (x, ok) \<Rightarrow> (c\<lparr>s_ID := x\<rparr>, ok))
     else if f = ''method'' then (case decode_string j (s_Method c) of (x, ok) \<Rightarrow> (c\<lparr>s_Method := x\<rparr>, ok))
     else (case decode_raw j (s_Params c) of (x, ok) \<Rightarrow> (c\<lparr>s_Params := x\<rparr>, ok)))"

definition zero_callUint64 :: callUint64 where
  "zero_callUint64 = \<lparr>u_ID = 0, u_Method = [], u_Params = None\<rparr>"

definition zero_callString :: callString where
  "zero_callString = \<lparr>s_ID = [], s_Method = [], s_Params = None\<rparr>"

definition Unmarshal :: "string \<Rightarrow> Call option" where
  "Unmarshal body =
     (case Unmarshal_bytes decode_callUint64 zero_callUint64 body of
        Some c \<Rightarrow> Some (CallUint64 c)
      | None \<Rightarrow> map_option CallString (Unmarshal_bytes decode_callString zero_callString body))"

definition UnmarshalBatch :: "string \<Rightarrow> Call list option" where
  \<comment> \<open>the batch of string ids is built and then dropped: the last line returns \<open>nil\<close> in any case\<close>
  "UnmarshalBatch body =
     (case Unmarshal_bytes (decode_slice zero_callUint64 decode_callUint64) [] body of
        Some batch \<Rightarrow> Some (map CallUint64 batch)
      | None \<Rightarrow>
          (case Unmarshal_bytes (decode_slice zero_callString decode_callString) [] body of
             Some batch \<Rightarrow> (let dropped = map CallString batch in None)
           | None \<Rightarrow> None))"

section \<open>\<open>engine_forkchoiceUpdatedV3\<close>\<close>

record ForkchoiceUpdatedV3 =
  fcu_Params :: "json option list"

definition decode_fcu :: "ForkchoiceUpdatedV3 decoder" where
  "decode_fcu = decode_struct [''params''] (\<lambda>f j c.
     case decode_slice None decode_raw j (fcu_Params c) of (x, ok) \<Rightarrow> (c\<lparr>fcu_Params := x\<rparr>, ok))"

definition ParamsCount :: "ForkchoiceUpdatedV3 \<Rightarrow> int" where
  "ParamsCount f = int (length (filter (\<lambda>p. p \<noteq> Some JNull) (fcu_Params f)))"

record ForkchoiceState =
  HeadBlockHash :: string
  SafeBlockHash :: string
  FinalizedBlockHash :: string

definition decode_state :: "ForkchoiceState decoder" where
  "decode_state = decode_struct [''headBlockHash'', ''safeBlockHash'', ''finalizedBlockHash''] (\<lambda>f j c.
     if f = ''headBlockHash'' then
       (case decode_string j (HeadBlockHash c) of (x, ok) \<Rightarrow> (c\<lparr>HeadBlockHash := x\<rparr>, ok))
     else if f = ''safeBlockHash'' then
       (case decode_string j (SafeBlockHash c) of (x, ok) \<Rightarrow> (c\<lparr>SafeBlockHash := x\<rparr>, ok))
     else (case decode_string j (FinalizedBlockHash c) of (x, ok) \<Rightarrow> (c\<lparr>FinalizedBlockHash := x\<rparr>, ok)))"

definition GetHashes :: "ForkchoiceState \<Rightarrow> string \<times> string \<times> string" where
  "GetHashes p = (HeadBlockHash p, SafeBlockHash p, FinalizedBlockHash p)"

record PayloadAttributes =
  pa_Timestamp :: string

definition decode_attributes :: "PayloadAttributes decoder" where
  "decode_attributes = decode_struct [''timestamp''] (\<lambda>f j c.
     case decode_string j (pa_Timestamp c) of (x, ok) \<Rightarrow> (c\<lparr>pa_Timestamp := x\<rparr>, ok))"

text \<open>\<open>strconv.ParseInt(s, 16, 64)\<close>: no prefix and no underscore is accepted with an explicit base.\<close>

definition hex_number :: "string \<Rightarrow> int" where
  "hex_number s = foldl (\<lambda>a c. 16 * a + int (case hex_value c of Some d \<Rightarrow> d | None \<Rightarrow> 0)) 0 s"

definition ParseHexInt64 :: "string \<Rightarrow> int option" where
  "ParseHexInt64 s =
     (let neg = (take 1 s = ''-''); ds = (if neg \<or> take 1 s = ''+'' then drop 1 s else s);
          n = hex_number ds
      in if ds = [] \<or> \<not> list_all is_hex ds then None
         else if neg then (if n \<le> 2 ^ 63 then Some (- n) else None)
         else if n < 2 ^ 63 then Some n else None)"

definition GetTimestamp :: "PayloadAttributes \<Rightarrow> int option" where
  \<comment> \<open>seconds since the epoch\<close>
  "GetTimestamp p = ParseHexInt64 (TrimPrefix (pa_Timestamp p) ''0x'')"

section \<open>What a request says is what the program reads\<close>

definition request_json :: "Call \<Rightarrow> json option \<Rightarrow> json" where
  "request_json c params = JObj
     ([(''jsonrpc'', JStr ''2.0''),
       (''id'', case c of CallUint64 u \<Rightarrow> JNum (dec (u_ID u)) | CallString s \<Rightarrow> JStr (s_ID s)),
       (''method'', JStr (GetMethod c))]
      @ (case params of None \<Rightarrow> [] | Some p \<Rightarrow> [(''params'', p)]))"

definition call_ok :: "Call \<Rightarrow> bool" where
  "call_ok c \<longleftrightarrow> plain (GetMethod c) \<and> (\<forall>p. GetParams c = Some p \<longrightarrow> json_ok 1 p) \<and>
     (case c of CallUint64 u \<Rightarrow> u_ID u < 2 ^ 64 | CallString s \<Rightarrow> plain (s_ID s))"

lemma match_call_fields [simp]:
  "match_field call_fields ''id'' = Some ''id''" "match_field call_fields ''method'' = Some ''method''"
  "match_field call_fields ''params'' = Some ''params''"
  by (simp_all add: match_field_def call_fields_def)

lemma match_jsonrpc [simp]: "match_field call_fields ''jsonrpc'' = None"
proof -
  have "length (fold_name ''jsonrpc'') = 7" "length (fold_name ''id'') = 2"
      "length (fold_name ''method'') = 6" "length (fold_name ''params'') = 6"
    by (simp_all add: length_fold_name)
  then show ?thesis by (auto simp: match_field_def call_fields_def find_None_iff)
qed

lemma request_json_ok: "call_ok c \<Longrightarrow> json_ok 0 (request_json c (GetParams c))"
  by (cases c; cases "GetParams c")
     (simp_all add: request_json_def call_ok_def plain_def plain_char_def maxNestingDepth_def)

lemma json_parse_request:
  "call_ok c \<Longrightarrow> json_parse (json_print (request_json c (GetParams c))) = Some (request_json c (GetParams c))"
  by (intro json_parse_print request_json_ok)

lemma Unmarshal_print:
  assumes "call_ok c"
  shows "Unmarshal (json_print (request_json c (GetParams c))) = Some c"
proof (cases c)
  case (CallUint64 u)
  obtain i m p where "u = \<lparr>u_ID = i, u_Method = m, u_Params = p\<rparr>" by (cases u)
  with CallUint64 assms json_parse_request [OF assms] show ?thesis
    by (cases p) (simp_all add: Unmarshal_def Unmarshal_bytes_def Unmarshal_raw_def call_ok_def
        decode_callUint64_def request_json_def ParseUint64_dec zero_callUint64_def decode_raw_def)
next
  case (CallString s)
  obtain i m p where "s = \<lparr>s_ID = i, s_Method = m, s_Params = p\<rparr>" by (cases s)
  with CallString assms json_parse_request [OF assms] show ?thesis
    by (cases p) (simp_all add: Unmarshal_def Unmarshal_bytes_def Unmarshal_raw_def call_ok_def
        decode_callUint64_def decode_callString_def request_json_def zero_callString_def decode_raw_def)
qed

text \<open>Only the members that name a field count.\<close>

definition names_field :: "string list \<Rightarrow> string \<times> json \<Rightarrow> bool" where
  "names_field fs kv \<longleftrightarrow> match_field fs (fst kv) \<noteq> None"

lemma decode_fields_named: "decode_fields fs dec_field (filter (names_field fs) kvs) st = decode_fields fs dec_field kvs st"
  by (induction fs dec_field kvs st rule: decode_fields.induct) (simp_all add: names_field_def split: option.splits prod.splits)

lemma decode_fields_ok_all:
  "snd (decode_fields fs dec_field kvs st) \<Longrightarrow> (k, j) \<in> set kvs \<Longrightarrow>
   match_field fs k = Some f \<Longrightarrow> \<exists>st'. snd (dec_field f j st')"
proof (induction kvs arbitrary: st)
  case (Cons kv kvs)
  obtain k' j' where kv: "kv = (k', j')" by (cases kv)
  show ?case
  proof (cases "match_field fs k'")
    case None
    with Cons kv show ?thesis by auto
  next
    case (Some f')
    obtain st1 where st1: "st1 = fst (dec_field f' j' st)" by blast
    have "snd (dec_field f' j' st)" "snd (decode_fields fs dec_field kvs st1)"
      using Cons.prems(1) kv Some st1 by (auto split: prod.splits)
    with Cons kv Some show ?thesis by auto
  qed
qed simp

lemma decode_callUint64_string_id:
  assumes "(''id'', JStr t) \<in> set kvs"
  shows "\<not> snd (decode_callUint64 (JObj kvs) c)"
  using decode_fields_ok_all [OF _ assms match_call_fields(1)] by (fastforce simp: decode_callUint64_def)

text \<open>
  The members of an object spell a call: \<open>id\<close>, \<open>method\<close> and, unless the call has none, \<open>params\<close>
  once each, in any order, among any other members that name none of the three.
\<close>

fun id_spells :: "json \<Rightarrow> Call \<Rightarrow> bool" where
  "id_spells (JNum lit) (CallUint64 u) = (ParseUint64 lit = Some (u_ID u))"
| "id_spells (JStr t) (CallString s) = (t = s_ID s)"
| "id_spells j c = False"

definition call_members :: "json \<Rightarrow> Call \<Rightarrow> (string \<times> json) list" where
  "call_members j c = [(''id'', j), (''method'', JStr (GetMethod c))] @
     (case GetParams c of None \<Rightarrow> [] | Some p \<Rightarrow> [(''params'', p)])"

definition spells_call :: "(string \<times> json) list \<Rightarrow> Call \<Rightarrow> bool" where
  "spells_call kvs c \<longleftrightarrow> (\<exists>j\<in>snd ` set kvs. id_spells j c \<and>
     mset (filter (names_field call_fields) kvs) = mset (call_members j c))"

lemma mset_two: "mset xs = {#a, b#} \<Longrightarrow> xs \<in> {[a, b], [b, a]}"
proof -
  assume m: "mset xs = {#a, b#}"
  from m have "length xs = 2" by (metis size_mset size_add_mset size_empty numeral_2_eq_2)
  then obtain x y where "xs = [x, y]" by (auto simp: numeral_2_eq_2 length_Suc_conv)
  with m show ?thesis by (auto simp: add_eq_conv_ex)
qed

lemma mset_three: "mset xs = {#a, b, c#} \<Longrightarrow> xs \<in> {[a, b, c], [a, c, b], [b, a, c], [b, c, a], [c, a, b], [c, b, a]}"
proof -
  assume m: "mset xs = {#a, b, c#}"
  then obtain x ys where xs: "xs = x # ys" by (cases xs) auto
  have "x \<in># {#a, b, c#}" using m xs by (metis list.set_intros(1) set_mset_mset)
  then consider "x = a" "mset ys = {#b, c#}" | "x = b" "mset ys = {#a, c#}" | "x = c" "mset ys = {#a, b#}"
    using m xs by (auto simp: add_mset_commute)
  then show ?thesis using mset_two [of ys] xs by cases auto
qed

lemma spells_call_cases:
  assumes "spells_call kvs c"
  obtains j where "id_spells j c" "(''id'', j) \<in> set kvs"
    "GetParams c = None \<Longrightarrow> filter (names_field call_fields) kvs \<in>
       {[(''id'', j), (''method'', JStr (GetMethod c))], [(''method'', JStr (GetMethod c)), (''id'', j)]}"
    "\<And>p. GetParams c = Some p \<Longrightarrow> filter (names_field call_fields) kvs \<in>
       (let i = (''id'', j); m = (''method'', JStr (GetMethod c)); q = (''params'', p)
        in {[i, m, q], [i, q, m], [m, i, q], [m, q, i], [q, i, m], [q, m, i]})"
proof -
  obtain j where j: "id_spells j c" "mset (filter (names_field call_fields) kvs) = mset (call_members j c)"
    using assms by (auto simp: spells_call_def)
  have "(''id'', j) \<in> set (filter (names_field call_fields) kvs)"
    by (metis j(2) set_mset_mset call_members_def append_Cons list.set_intros(1))
  then have "(''id'', j) \<in> set kvs" by simp
  moreover have m: "GetParams c = None \<Longrightarrow> mset (filter (names_field call_fields) kvs) = {#(''id'', j), (''method'', JStr (GetMethod c))#}"
      "\<And>p. GetParams c = Some p \<Longrightarrow> mset (filter (names_field call_fields) kvs) =
         {#(''id'', j), (''method'', JStr (GetMethod c)), (''params'', p)#}"
    unfolding j(2) by (simp_all add: call_members_def)
  ultimately show thesis
    by (intro that [OF j(1)]) (simp_all only: Let_def mset_two [OF m(1)] mset_three [OF m(2)])
qed

lemma decode_call_spelled:
  assumes "spells_call kvs c"
  shows "case c of CallUint64 u \<Rightarrow> decode_callUint64 (JObj kvs) zero_callUint64 = (u, True)
    | CallString s \<Rightarrow> \<not> snd (decode_callUint64 (JObj kvs) zero_callUint64) \<and> decode_callString (JObj kvs) zero_callString = (s, True)"
  using assms
proof (rule spells_call_cases)
  fix j assume j: "id_spells j c" "(''id'', j) \<in> set kvs"
    and p: "GetParams c = None \<Longrightarrow> filter (names_field call_fields) kvs \<in>
       {[(''id'', j), (''method'', JStr (GetMethod c))], [(''method'', JStr (GetMethod c)), (''id'', j)]}"
    "\<And>p. GetParams c = Some p \<Longrightarrow> filter (names_field call_fields) kvs \<in>
       (let i = (''id'', j); m = (''method'', JStr (GetMethod c)); q = (''params'', p)
        in {[i, m, q], [i, q, m], [m, i, q], [m, q, i], [q, i, m], [q, m, i]})"
  show ?thesis
  proof (cases c)
    case (CallUint64 u)
    obtain i m q where u: "u = \<lparr>u_ID = i, u_Method = m, u_Params = q\<rparr>" by (cases u)
    obtain lit where "j = JNum lit" "ParseUint64 lit = Some i" using j(1) CallUint64 u by (cases j) auto
    with p CallUint64 u show ?thesis
      by (cases q) (auto simp: Let_def decode_callUint64_def decode_raw_def zero_callUint64_def
          decode_fields_named [of call_fields _ kvs, symmetric])
  next
    case (CallString s)
    obtain i m q where s: "s = \<lparr>s_ID = i, s_Method = m, s_Params = q\<rparr>" by (cases s)
    have "j = JStr i" using j(1) CallString s by (cases j) auto
    moreover from this have "\<not> snd (decode_callUint64 (JObj kvs) zero_callUint64)"
      using decode_callUint64_string_id j(2) by blast
    ultimately show ?thesis using p CallString s
      by (cases q) (auto simp: Let_def decode_callString_def decode_raw_def zero_callString_def
          decode_fields_named [of call_fields _ kvs, symmetric])
  qed
qed

text \<open>
  C31: Every JSON-RPC request that names its call without ambiguity is read back exactly. For any text
  of the JSON grammar (RFC 8259: any white space, escapes in strings, any numbers, nested no deeper than the
  library's limit of 10000) that is an object with an \<open>id\<close>, a \<open>method\<close> and possibly \<open>params\<close>, each
  once, in any order and among any other members, \<open>Unmarshal\<close> yields the call with that id, an
  unsigned 64-bit number or a string, that method and those parameters. Not covered are a member that repeats one
  of the three, also in other letter case, and an id or a method of another type.
\<close>

theorem Unmarshal_request:
  assumes "json_text 0 t (JObj kvs)" "spaces w" "spaces w'" "spells_call kvs c"
  shows "Unmarshal (w @ t @ w') = Some c"
  using decode_call_spelled [OF assms(4)] json_parse_grammar [OF assms(1-3)]
  by (cases c) (auto simp: Unmarshal_def Unmarshal_bytes_def Unmarshal_raw_def split: prod.splits)

theorem Unmarshal_request_witness:
  "Unmarshal '' { \"method\" : \"eth_chainId\", \"params\": [ ],\"id\": 7 }'' =
     Some (CallUint64 \<lparr>u_ID = 7, u_Method = ''eth_chainId'', u_Params = Some (JArr [])\<rparr>)"
proof -
  have sp: "spaces []" "spaces '' ''" by (simp_all add: spaces_def json_space_def)
  have un: "unquote ''id'' = ''id''" "unquote ''method'' = ''method''" "unquote ''params'' = ''params''"
      "unquote ''eth_chainId'' = ''eth_chainId''"
    by (simp_all add: unquote_plain plain_def plain_char_def)
  have n: "json_text 1 ''7'' (JNum ''7'')"
    by (intro number int_number_text) (simp add: int_digits_def is_digit_def)
  have m: "json_text 1 (quoted ''eth_chainId'') (JStr ''eth_chainId'')"
    using string [of "''eth_chainId''" 1] by (simp add: un)
  have q: "json_text 1 (''['' @ '' '' @ '']'') (JArr [])"
    by (rule no_elems) (simp_all add: sp maxNestingDepth_def)
  have k: "string_text ''id''" "string_text ''method''" "string_text ''params''" by simp_all
  have "members_text 1 ([] @ quoted ''id'' @ [] @ '':'' @ '' '' @ ''7'' @ '' '') [(unquote ''id'', JNum ''7'')]"
    by (intro member sp n k)
  from members [of "'' ''" "''params''" "[]" "'' ''", OF _ _ _ _ q _ this, of "[]"]
  have "members_text 1 ('' '' @ quoted ''params'' @ [] @ '':'' @ '' '' @ (''['' @ '' '' @ '']'') @ [] @ '','' @
      [] @ quoted ''id'' @ [] @ '':'' @ '' '' @ ''7'' @ '' '') [(''params'', JArr []), (''id'', JNum ''7'')]"
    by (simp add: sp un)
  from members [of "'' ''" "''method''" "'' ''" "'' ''", OF _ _ _ _ m _ this, of "[]"]
  have o: "members_text 1 ('' '' @ quoted ''method'' @ '' '' @ '':'' @ '' '' @ quoted ''eth_chainId'' @ [] @ '','' @
      '' '' @ quoted ''params'' @ [] @ '':'' @ '' '' @ (''['' @ '' '' @ '']'') @ [] @ '','' @
      [] @ quoted ''id'' @ [] @ '':'' @ '' '' @ ''7'' @ '' '')
      [(''method'', JStr ''eth_chainId''), (''params'', JArr []), (''id'', JNum ''7'')]"
    by (simp add: sp un)
  note o' = object [of 0, OF _ o [unfolded One_nat_def]]
  let ?c = "CallUint64 \<lparr>u_ID = 7, u_Method = ''eth_chainId'', u_Params = Some (JArr [])\<rparr>"
  have "spells_call [(''method'', JStr ''eth_chainId''), (''params'', JArr []), (''id'', JNum ''7'')] ?c"
    by (simp add: spells_call_def names_field_def call_members_def ParseUint64_def dec_value_def is_digit_def add_mset_commute)
  from Unmarshal_request [OF o' sp(2) sp(1) this] show ?thesis
    by (simp add: quoted_def maxNestingDepth_def)
qed

section \<open>Batches\<close>

lemma UnmarshalBatch_string_ids:
  assumes "json_parse body = Some (JArr js)" "JObj kvs \<in> set js" "(''id'', JStr t) \<in> set kvs"
  shows "UnmarshalBatch body = None"
proof -
  have "\<not> list_all snd (map (\<lambda>j. decode_callUint64 j zero_callUint64) js)"
    using assms(2) decode_callUint64_string_id [OF assms(3)] by (auto simp: list_all_iff)
  with assms(1) show ?thesis
    by (auto simp: UnmarshalBatch_def Unmarshal_bytes_def Unmarshal_raw_def split: option.splits)
qed

text \<open>
  A batch with a string id in it is never parsed: \<open>UnmarshalBatch\<close> fails on every
  well-formed array of calls one of which carries a string as its id, also when all do. (The
  batch of string ids is decoded and then not returned.)
\<close>

theorem UnmarshalBatch_string_id:
  assumes "json_parse body = Some (JArr js)" "JObj kvs \<in> set js" "(''id'', JStr t) \<in> set kvs"
  shows "UnmarshalBatch body = None"
  using assms by (rule UnmarshalBatch_string_ids)

theorem UnmarshalBatch_string_id_witness:
  "UnmarshalBatch ''[{\"id\":\"a\",\"method\":\"eth_sendBundle\",\"params\":[]}]'' = None"
proof -
  have "json_parse (json_print (JArr [JObj [(''id'', JStr ''a''), (''method'', JStr ''eth_sendBundle''),
      (''params'', JArr [])]])) = Some (JArr [JObj [(''id'', JStr ''a''), (''method'', JStr ''eth_sendBundle''),
      (''params'', JArr [])]])"
    by (rule json_parse_print) (simp add: plain_def plain_char_def maxNestingDepth_def)
  from UnmarshalBatch_string_id [OF this,
      of "[(''id'', JStr ''a''), (''method'', JStr ''eth_sendBundle''), (''params'', JArr [])]" "''a''"]
  show ?thesis by (simp add: quoted_def)
qed

section \<open>Raw transactions\<close>

definition raw_tx_ok :: "'tx eth_lib \<Rightarrow> string \<Rightarrow> string \<Rightarrow> 'tx \<Rightarrow> bool" where
  "raw_tx_ok eth str from tx \<longleftrightarrow>
     (\<exists>bytes. hexutil_Decode eth str = Inr bytes \<and> tx_UnmarshalBinary eth bytes = Ret (Inr tx)) \<and>
     (if tx_Type eth tx = DepositTxType eth then from = tx_From eth tx
      else \<exists>c. tx_ChainId eth tx = Some c \<and> 0 < c \<and> tx_Sender eth c tx = Ret (Inr from))"

lemma DecodeEthRawTransaction_ok:
  "DecodeEthRawTransaction eth str = Ret (Inr (from, tx)) \<longleftrightarrow> raw_tx_ok eth str from tx"
proof (cases "hexutil_Decode eth str")
  case (Inr bytes)
  note hex = Inr
  show ?thesis
  proof (cases "tx_UnmarshalBinary eth bytes")
    case (Ret r)
    show ?thesis
    proof (cases r)
      case (Inr tx')
      have sender: "Inr (from, tx) = (case s of Inl e \<Rightarrow> Inl (SenderError e) | Inr f \<Rightarrow> Inr (f, tx'))
          \<longleftrightarrow> s = Inr from \<and> tx' = tx" for s
        by (cases s) auto
      show ?thesis
        by (cases "tx_ChainId eth tx'")
          (auto simp: DecodeEthRawTransaction_def raw_tx_ok_def hex Ret Inr go_map_Ret_iff sender)
    qed (simp add: DecodeEthRawTransaction_def raw_tx_ok_def hex Ret)
  qed (simp add: DecodeEthRawTransaction_def raw_tx_ok_def hex)
qed (simp add: DecodeEthRawTransaction_def raw_tx_ok_def)

lemma recovered_Inr [simp]: "recovered m = Inr x \<longleftrightarrow> m = Ret (Inr x)"
  by (cases m) (auto simp: recovered_def)

lemma wrap_RawTxError [simp]:
  "(case r of Inl e \<Rightarrow> Inl (RawTxError e) | Inr ft \<Rightarrow> Inr ft) = Inr x \<longleftrightarrow> r = Inr x"
  "Inr x = (case r of Inl e \<Rightarrow> Inl (RawTxError e) | Inr ft \<Rightarrow> Inr ft) \<longleftrightarrow> r = Inr x"
  by (cases r; auto)+

lemma decode_one_string: "decode_string j [] = (s, True) \<longleftrightarrow> j = JStr s \<or> (j = JNull \<and> s = [])"
  by (cases j) auto

lemma decode_strings_one:
  "decode_slice [] decode_string j [] = ([s], True) \<longleftrightarrow>
     j = JArr [JStr s] \<or> (j = JArr [JNull] \<and> s = [])"
proof (cases j)
  case (JArr js)
  have "decode_slice [] decode_string j [] = ([s], True) \<longleftrightarrow> (\<exists>j'. js = [j'] \<and> decode_string j' [] = (s, True))"
    unfolding JArr by (cases js) (auto simp: Let_def prod_eq_iff)
  with JArr show ?thesis by (auto simp: decode_one_string)
qed simp_all

lemma Unmarshal_params_one:
  "Unmarshal_raw (decode_slice [] decode_string) [] raw = Some [s] \<longleftrightarrow>
     raw = Some (JArr [JStr s]) \<or> (raw = Some (JArr [JNull]) \<and> s = [])"
proof (cases raw)
  case (Some j)
  have "Unmarshal_raw (decode_slice [] decode_string) [] raw = Some [s] \<longleftrightarrow>
      decode_slice [] decode_string j [] = ([s], True)"
    unfolding Some Unmarshal_raw_def by (simp split: prod.splits)
  with Some show ?thesis by (simp add: decode_strings_one)
qed (simp add: Unmarshal_raw_def)

text \<open>
  \<open>DecodeEthSendRawTransaction\<close> yields a sender and a transaction exactly when the
  method is \<open>eth_sendRawTransaction\<close>, the parameters are one string (or \<open>null\<close>, read as the empty
  string) that decodes, and the transaction is a deposit, sent by its own sender, or has a positive
  chain id under which a sender is recovered. In every other case, a panic of the library
  included, it is an error.
\<close>

theorem DecodeEthSendRawTransaction_ok:
  "DecodeEthSendRawTransaction eth c = Inr (from, tx) \<longleftrightarrow>
     GetMethod c = ''eth_sendRawTransaction'' \<and>
     (\<exists>str. (GetParams c = Some (JArr [JStr str]) \<or> (GetParams c = Some (JArr [JNull]) \<and> str = []))
        \<and> raw_tx_ok eth str from tx)"
proof -
  have "decodeEthSendRawTransaction eth params = Inr (from, tx) \<longleftrightarrow>
      (\<exists>str. Unmarshal_raw (decode_slice [] decode_string) [] params = Some [str] \<and> raw_tx_ok eth str from tx)"
    for params
    by (auto simp: decodeEthSendRawTransaction_def go_result_iffs length_Suc_conv slice_get_def
        DecodeEthRawTransaction_ok [symmetric] split: option.splits if_splits)
  then show ?thesis by (auto simp: DecodeEthSendRawTransaction_def Unmarshal_params_one)
qed

end
