(* ===== verification/Json_Lex.thy ===== *)
theory Json_Lex
  imports Json_Text
begin

text \<open>
  A lexical condition every JSON text meets, whatever it holds: reading from left to right with quotes and
  backslashes only, each closing quote is followed by white space, punctuation or the end
  (\<open>json_parse_lex\<close>). It is how a body with a stray quote is seen to be no JSON text even where the rest of it is
  arbitrary bytes.
\<close>

datatype lex_state = Outside | Inside | Escaped

definition closes :: "string \<Rightarrow> bool" where
  "closes r \<longleftrightarrow> r = [] \<or> json_space (hd r) \<or> hd r \<in> {CHR '','', CHR '':'', CHR '']'', CHR ''}''}"

fun lexed :: "lex_state \<Rightarrow> string \<Rightarrow> bool" where
  "lexed q [] = True"
| "lexed Outside (c # r) = lexed (if c = CHR 0x22 then Inside else Outside) r"
| "lexed Inside (c # r) =
     (if c = CHR 0x5C then lexed Escaped r else if c = CHR 0x22 then closes r \<and> lexed Outside r else lexed Inside r)"
| "lexed Escaped (c # r) = lexed Inside r"

lemma closes_simps [simp]: "closes []" "closes (c # r) \<longleftrightarrow> json_space c \<or> c \<in> {CHR '','', CHR '':'', CHR '']'', CHR ''}''}"
  by (simp_all add: closes_def)

lemma lex_append: "lexed q (x @ s) \<Longrightarrow> \<exists>q'. lexed q' s"
  by (induction q x rule: lexed.induct) (auto split: if_splits)

lemma lex_Outside_skip: "CHR 0x22 \<notin> set x \<Longrightarrow> lexed Outside (x @ s) = lexed Outside s"
  by (induction x) auto

lemma lex_skip_ws [simp]: "lexed Outside (skip_ws s) = lexed Outside s"
  by (induction s) (auto simp: skip_ws_def json_space_def)

lemma closes_skip_ws: "skip_ws s = [] \<or> hd (skip_ws s) \<in> {CHR '','', CHR '':'', CHR '']'', CHR ''}''} \<Longrightarrow> closes s"
  by (cases s) (auto simp: skip_ws_def split: if_splits)

section \<open>Tokens\<close>

text \<open>A token without quotes is a prefix of the input.\<close>

definition cuts :: "(string \<times> string) option \<Rightarrow> string \<Rightarrow> bool" where
  "cuts m s \<longleftrightarrow> (\<forall>x t. m = Some (x, t) \<longrightarrow> s = x @ t \<and> CHR 0x22 \<notin> set x)"

lemma cuts_digits: "cuts (scan_digits s) s"
  by (cases s) (auto simp: cuts_def scan_digits_def is_digit_def dest: set_takeWhileD)

lemma cuts_int: "cuts (scan_int s) s"
  using cuts_digits [of s] by (cases s) (auto simp: cuts_def scan_int_def)

lemma cuts_frac: "cuts (scan_frac s) s"
  using cuts_digits [of "tl s"] by (cases s) (auto simp: cuts_def scan_frac_def)

lemma cuts_exp: "cuts (scan_exp s) s"
proof (cases s)
  case (Cons c r)
  show ?thesis
    using cuts_digits [of r] cuts_digits [of "tl r"] unfolding Cons by (cases r) (auto simp: cuts_def scan_exp_def)
qed (simp add: cuts_def scan_exp_def)

lemma cuts_unsigned:
  "cuts (Option.bind (scan_int s) (\<lambda>(i, s1). Option.bind (scan_frac s1) (\<lambda>(f, s2).
     Option.bind (scan_exp s2) (\<lambda>(e, s3). Some (sign @ i @ f @ e, s3))))) (sign @ s)" if "CHR 0x22 \<notin> set sign"
proof -
  have "sign @ s = lit @ t \<and> CHR 0x22 \<notin> set lit"
    if m: "scan_int s = Some (i, s1)" "scan_frac s1 = Some (f, s2)" "scan_exp s2 = Some (e, t)" "lit = sign @ i @ f @ e"
    for i f e s1 s2 t lit
    using m cuts_int [of s] cuts_frac [of s1] cuts_exp [of s2] \<open>CHR 0x22 \<notin> set sign\<close> by (auto simp: cuts_def)
  then show ?thesis unfolding cuts_def by (auto simp: bind_eq_Some_conv)
qed

lemma cuts_number: "cuts (scan_number s) s"
proof (cases s)
  case Nil
  then show ?thesis by (simp add: cuts_def scan_number_def scan_int_def)
next
  case (Cons c r)
  with cuts_unsigned [of "[c]" r] cuts_unsigned [of "[]" s] show ?thesis by (auto simp: scan_number_def)
qed

lemma lex_scan_number: "scan_number s = Some (lit, t) \<Longrightarrow> lexed Outside s = lexed Outside t"
  using cuts_number [of s] lex_Outside_skip [of lit t] by (auto simp: cuts_def)

lemma lex_scan_lit: "scan_lit lit v s = Some (j, t) \<Longrightarrow> CHR 0x22 \<notin> set lit \<Longrightarrow> lexed Outside s = lexed Outside t"
  using lex_Outside_skip [of lit t] by (auto simp: scan_lit_def HasPrefix_def split: if_splits) (metis append_take_drop_id)+

lemma lex_scan_string: "scan_string s = Some (raw, t) \<Longrightarrow> closes t \<Longrightarrow> lexed Outside t \<Longrightarrow> lexed Inside s"
proof (induction s arbitrary: raw t rule: scan_string.induct)
  case (2 c r)
  then show ?case by (cases "c = CHR 0x5C") (auto split: if_splits list.splits)
qed simp

section \<open>Values\<close>

lemma lex_scan_sep: "scan_sep close s = Some (more, r) \<Longrightarrow> close \<in> {CHR '']'', CHR ''}''} \<Longrightarrow> lexed Outside r \<Longrightarrow> closes s \<and> lexed Outside s"
  using closes_skip_ws [of s] lex_skip_ws [of s] by (auto simp: scan_sep_def simp del: lex_skip_ws split: list.splits if_splits)

lemma lex_scan_key:
  assumes "scan_key s = Some (k, r)" "lexed Outside r"
  shows "lexed Outside s"
proof -
  obtain u raw t where "skip_ws s = CHR 0x22 # u" "scan_string u = Some (raw, t)" "skip_ws t = CHR '':'' # r"
    using assms(1) by (auto simp: scan_key_def split: list.splits if_splits bind_splits)
  moreover from this(3) have "closes t" "lexed Outside t"
    using closes_skip_ws [of t] lex_skip_ws [of t] assms(2) by (simp_all del: lex_skip_ws)
  ultimately show ?thesis using lex_scan_string lex_skip_ws [of s] by (simp del: lex_skip_ws)
qed

lemma lex_scan_head:
  "scan_head d s = Leaf v t \<Longrightarrow> closes t \<Longrightarrow> lexed Outside t \<Longrightarrow> lexed Outside s"
  "scan_head d s = InObj r \<Longrightarrow> lexed Outside r \<Longrightarrow> lexed Outside s"
  "scan_head d s = InArr r \<Longrightarrow> lexed Outside r \<Longrightarrow> lexed Outside s"
proof -
  have opened: "scan_head d s = InObj r \<Longrightarrow> \<exists>u. skip_ws s = CHR ''{'' # u \<and> lexed Outside u = lexed Outside r"
    "scan_head d s = InArr r \<Longrightarrow> \<exists>u. skip_ws s = CHR ''['' # u \<and> lexed Outside u = lexed Outside r" for r
    unfolding scan_head_def scan_open_def
    by (cases "skip_ws s"; auto split: list.splits if_splits; metis lex_skip_ws)+
  show "lexed Outside s" if h: "scan_head d s = Leaf v t" "closes t" "lexed Outside t"
  proof -
    obtain c r where s: "skip_ws s = c # r" using h(1) by (auto simp: scan_head_def split: list.splits)
    have "lexed Outside (c # r)"
    proof (cases "c \<in> {CHR ''{'', CHR ''[''}")
      case True
      then obtain e r' where "skip_ws r = e # r'" "e \<noteq> CHR 0x22" "r' = t"
        using h(1) s by (auto simp: scan_head_def scan_open_def split: list.splits if_splits)
      then have "lexed Outside r" using h(3) lex_skip_ws [of r] by (simp del: lex_skip_ws)
      with True show ?thesis by auto
    next
      case False
      show ?thesis
      proof (cases "c = CHR 0x22")
        case True
        with h(1) s False obtain raw where "scan_string r = Some (raw, t)"
          by (auto simp: scan_head_def)
        with True h show ?thesis using lex_scan_string by simp
      next
        case no_quote: False
        then have "scan_lit ''null'' JNull (c # r) = Some (v, t) \<or> scan_lit ''true'' (JBool True) (c # r) = Some (v, t) \<or>
            scan_lit ''false'' (JBool False) (c # r) = Some (v, t) \<or> (\<exists>lit. scan_number (c # r) = Some (lit, t))"
          using h(1) s False by (auto simp: scan_head_def split: if_splits)
        then have "lexed Outside (c # r) = lexed Outside t"
          by (elim disjE exE) (erule lex_scan_lit lex_scan_number; simp)+
        with h(3) show ?thesis by simp
      qed
    qed
    then show ?thesis using s lex_skip_ws [of s] by (simp del: lex_skip_ws)
  qed
  show "lexed Outside s" if "scan_head d s = InObj r" "lexed Outside r"
    using that(2) lex_skip_ws [of s] opened(1) [OF that(1)] by (auto simp del: lex_skip_ws)
  show "lexed Outside s" if "scan_head d s = InArr r" "lexed Outside r"
    using that(2) lex_skip_ws [of s] opened(2) [OF that(1)] by (auto simp del: lex_skip_ws)
qed

lemma lex_values:
  "pval n d s = Done (v, t) \<Longrightarrow> closes t \<Longrightarrow> lexed Outside t \<Longrightarrow> lexed Outside s"
  "parr n d s = Done (vs, t) \<Longrightarrow> lexed Outside t \<Longrightarrow> lexed Outside s"
  "pobj n d s = Done (kvs, t) \<Longrightarrow> lexed Outside t \<Longrightarrow> lexed Outside s"
proof (induction n arbitrary: d s v t vs kvs)
  case (Suc n)
  note IH = Suc.IH
  show "lexed Outside s" if "pval (Suc n) d s = Done (v, t)" "closes t" "lexed Outside t" for d s v t
    using that IH(2,3) lex_scan_head [of d s] by (auto split: json_head.splits)
  show "lexed Outside s" if "parr (Suc n) d s = Done (vs, t)" "lexed Outside t" for d s vs t
  proof -
    from that obtain v u where u: "pval n d s = Done (v, u)" by auto
    with that obtain more r where r: "scan_sep CHR '']'' u = Some (more, r)" by (auto split: option.splits)
    have "lexed Outside r" using that u r IH(2) [of d r] by (cases more) auto
    with IH(1) [OF u] lex_scan_sep [OF r] show ?thesis by simp
  qed
  show "lexed Outside s" if "pobj (Suc n) d s = Done (kvs, t)" "lexed Outside t" for d s kvs t
  proof -
    from that obtain k q where q: "scan_key s = Some (k, q)" by (auto split: option.splits)
    with that obtain v u where u: "pval n d q = Done (v, u)" by auto
    with that q obtain more r where r: "scan_sep CHR ''}'' u = Some (more, r)" by (auto split: option.splits)
    have "lexed Outside r" using that u q r IH(3) [of d r] by (cases more) auto
    with IH(1) [OF u] lex_scan_sep [OF r] lex_scan_key [OF q] show ?thesis by simp
  qed
qed simp_all

theorem json_parse_lex: "json_parse s = Some j \<Longrightarrow> lexed Outside s"
proof -
  assume "json_parse s = Some j"
  then obtain t where t: "pval (2 * length s + 2) 0 s = Done (j, t)" "skip_ws t = []"
    by (auto simp: json_parse_def split: scan.splits if_splits)
  moreover from t(2) have "closes t" "lexed Outside t"
    using closes_skip_ws [of t] lex_skip_ws [of t] by (simp_all del: lex_skip_ws)
  ultimately show ?thesis by (metis lex_values(1))
qed

text \<open>A suffix that no state of the reader takes makes the whole text malformed, whatever comes before it.\<close>

lemma json_parse_suffix: "(\<And>q. \<not> lexed q s) \<Longrightarrow> json_parse (x @ s) = None"
  using json_parse_lex lex_append by (metis not_None_eq)

end
