(* ===== verification/Triaged.thy ===== *)
theory Triaged
  imports Jrpc_Call Json_Lex
begin

text \<open>
  The package \<open>triaged\<close>: what triage decides about a request, and the response the proxy
  builds, as far as the program sets it (\<open>fasthttp.Response\<close>: status, headers added, body).
  A nil and an empty list of transactions are both \<open>[]\<close>: the code asks for the length only.
\<close>

record RequestTransaction =
  rt_From :: "string option"
  rt_To :: "string option"
  rt_Hash :: string
  rt_Nonce :: nat

record Request =
  Proxy :: bool
  Prioritise :: bool
  Mirror :: bool
  Deadline :: "int option"
    \<comment> \<open>seconds since the epoch; \<open>None\<close> is the zero \<open>time.Time\<close>\<close>
  JrpcMethod :: string
  JrpcID :: string
  Transactions :: "RequestTransaction list"

definition zero_Request :: Request where
  "zero_Request = \<lparr>Proxy = False, Prioritise = False, Mirror = False, Deadline = None,
                   JrpcMethod = [], JrpcID = [], Transactions = []\<rparr>"

lemma zero_Request_simps [simp]:
  "Proxy zero_Request = False" "Mirror zero_Request = False" "Prioritise zero_Request = False"
  "Deadline zero_Request = None" "JrpcMethod zero_Request = []" "JrpcID zero_Request = []"
  "Transactions zero_Request = []"
  by (simp_all add: zero_Request_def)

text \<open>The fields a transaction adds to a log entry; the two \<open>String\<close> methods are go-ethereum's.\<close>

datatype log_value = LogString string | LogUint64 nat

definition MarshalLogObject :: "(string \<Rightarrow> string) \<Rightarrow> (string \<Rightarrow> string) \<Rightarrow> RequestTransaction \<Rightarrow> (string \<times> log_value) list" where
  "MarshalLogObject addr_String hash_String tx =
     (case rt_From tx of None \<Rightarrow> [] | Some a \<Rightarrow> [(''from'', LogString (addr_String a))]) @
     (case rt_To tx of None \<Rightarrow> [] | Some a \<Rightarrow> [(''to'', LogString (addr_String a))]) @
     [(''hash'', LogString (hash_String (rt_Hash tx))), (''nonce'', LogUint64 (rt_Nonce tx))]"

definition MarshalLogArray :: "(string \<Rightarrow> string) \<Rightarrow> (string \<Rightarrow> string) \<Rightarrow> RequestTransaction list \<Rightarrow> (string \<times> log_value) list list" where
  \<comment> \<open>\<open>MarshalLogObject\<close> never fails, so neither does the encoder's \<open>AppendObject\<close>\<close>
  "MarshalLogArray addr_String hash_String txs = map (MarshalLogObject addr_String hash_String) txs"

record Response =
  StatusCode :: int
  Headers :: "(string \<times> string) list"
  Body :: string

definition AcquireResponse :: Response where
  "AcquireResponse = \<lparr>StatusCode = 200, Headers = [], Body = []\<rparr>"

definition json_content :: "string \<times> string" where
  "json_content = (''content-type'', ''application/json; charset=utf-8'')"

section \<open>Bodies written by hand\<close>

text \<open>The text \<open>{"jsonrpc":"2.0","id":<id>,<rest>}\<close> every hand-written response starts with.\<close>

definition jrpc_body :: "string \<Rightarrow> string \<Rightarrow> string" where
  "jrpc_body rid rest = ''{\"jsonrpc\":\"2.0\",\"id\":'' @ rid @ '','' @ rest @ ''}''"

text \<open>The JSON value an id stands for.\<close>

fun id_json :: "Call \<Rightarrow> json" where
  "id_json (CallUint64 u) = JNum (dec (u_ID u))"
| "id_json (CallString s) = JStr (s_ID s)"

fun id_ok :: "Call \<Rightarrow> bool" where
  "id_ok (CallUint64 u) = True"
| "id_ok (CallString s) = plain (s_ID s)"

lemma GetID_json: "GetID c = json_print (id_json c)"
  by (cases c) (simp_all add: quoted_def)

lemma json_ok_id [simp]: "id_ok c \<Longrightarrow> json_ok d (id_json c)"
  by (cases c) simp_all

lemma plain_simps [simp]:
  "plain []" "plain (c # t) \<longleftrightarrow> plain_char c \<and> plain t"
  by (simp_all add: plain_def)

lemma plain_append [simp]: "plain (s @ t) \<longleftrightarrow> plain s \<and> plain t"
  by (simp add: plain_def)

lemma json_parse_jrpc_body:
  assumes "id_ok c" "json_ok 1 v" "plain k"
  shows "json_parse (jrpc_body (GetID c) (quoted k @ '':'' @ json_print v))
    = Some (JObj [(''jsonrpc'', JStr ''2.0''), (''id'', id_json c), (k, v)])"
proof -
  have "json_ok 0 (JObj [(''jsonrpc'', JStr ''2.0''), (''id'', id_json c), (k, v)])"
    using assms by (simp add: plain_char_def maxNestingDepth_def)
  from json_parse_print [OF this] show ?thesis
    by (simp add: jrpc_body_def GetID_json quoted_def)
qed

text \<open>A syntax error inside a body is a syntax error of the body.\<close>

lemma pobj_error_after:
  assumes "pobj n d u = SyntaxError" "plain k" "json_ok d v"
  shows "\<exists>m. pobj m d (quoted k @ '':'' @ json_print v @ '','' @ u) = SyntaxError"
proof -
  obtain m where m: "pval m d (json_print v @ CHR '','' # u) = Done (v, CHR '','' # u)"
    using pval_print [OF assms(3), of "CHR '','' # u"] by auto
  have n: "pobj (max n m) d u = SyntaxError"
  proof -
    have "pobj (n + i) d u = SyntaxError" for i
      by (induction i) (use assms(1) scan_mono(3) [of "n + _" d u] in auto)
    then show ?thesis by (metis le_add_diff_inverse max.cobounded1)
  qed
  have "pobj (Suc (max n m)) d (quoted k @ CHR '':'' # json_print v @ CHR '','' # u) = SyntaxError"
    using scan_done_mono(1) [OF max.cobounded2 m, of n] n assms(2)
    by (simp add: scan_sep_def scan_key_print)
  then show ?thesis by (intro exI [of _ "Suc (max n m)"]) simp
qed

lemma pval_error_object:
  assumes "pobj n (Suc d) (CHR 0x22 # u) = SyntaxError" "d < maxNestingDepth"
  shows "pval (Suc n) d (CHR ''{'' # CHR 0x22 # u) = SyntaxError"
  using assms by (simp add: scan_head_def scan_open_def)

lemma pobj_error_value:
  assumes "pval n d r = SyntaxError" "plain k"
  shows "pobj (Suc n) d (quoted k @ '':'' @ r) = SyntaxError"
  using assms by (simp add: scan_key_print)

lemma json_parse_error:
  "pval n 0 s = SyntaxError \<Longrightarrow> json_parse s = None"
  using json_parse_fuel [of n s] by simp

text \<open>The error object as the code writes it, with the quote that should close \<open>message\<close> missing.\<close>

definition unquoted_error :: "string \<Rightarrow> string \<Rightarrow> string" where
  "unquoted_error code msg = ''\"error\":{\"code\":'' @ code @ '',\"message:\"'' @ msg @ ''\"}''"

text \<open>Whatever bytes the id is made of, no JSON parser takes it.\<close>

lemma unquoted_error_malformed:
  assumes "CHR 0x22 \<notin> set code" "msg \<noteq> []" "\<not> closes msg"
  shows "json_parse (jrpc_body rid (unquoted_error code msg)) = None"
proof -
  let ?s = "'','' @ unquoted_error code msg @ ''}''"
  have "\<not> closes (msg @ r)" for r using assms(2,3) by (cases msg) simp_all
  then have "\<not> lexed q ?s" for q
    by (cases q) (simp_all add: unquoted_error_def lex_Outside_skip [OF assms(1)] json_space_def)
  from json_parse_suffix [OF this, of "''{\"jsonrpc\":\"2.0\",\"id\":'' @ rid"] show ?thesis
    by (simp add: jrpc_body_def)
qed

end
