(* ===== verification/Sanitize.thy ===== *)
theory Sanitize
  imports Jrpc_Call "HOL-Library.AList"
begin

text \<open>
  \<open>jrpc/sanitize.go\<close>: before a request or response is logged, every raw transaction in it is
  replaced by its hash. The input is a value as \<open>json.Unmarshal\<close> into \<open>any\<close> yields it
  (\<^const>\<open>to_any\<close>): a tree, in which no two maps or slices share storage, so updating in place
  is returning the updated tree. The specification is a rewriting of the tree at a declared set
  of paths, which says in one statement what is replaced and that nothing else is.
\<close>

section \<open>The code\<close>

definition rawTransactionToHash :: "'tx eth_lib \<Rightarrow> json \<Rightarrow> json go" where
  \<comment> \<open>unlike \<open>decodeEthSendRawTransaction\<close> it recovers from no panic\<close>
  "rawTransactionToHash eth j =
     (case j of
        JStr str \<Rightarrow>
          go_map (\<lambda>r. case r of
              Inl e \<Rightarrow> JStr (''[error decoding tx: '' @ raw_tx_error_text e @ '']'')
            | Inr (from, tx) \<Rightarrow> JStr (hash_Hex eth (tx_Hash eth tx)))
            (DecodeEthRawTransaction eth str)
      | _ \<Rightarrow> Ret (JStr ''[error casting tx to string]''))"

definition sanitizeTransactions :: "'tx eth_lib \<Rightarrow> (string \<times> json) list \<Rightarrow> string \<Rightarrow> (string \<times> json) list go" where
  "sanitizeTransactions eth obj key =
     (case map_of obj key of
        Some (JArr transactions) \<Rightarrow>
          go_map (\<lambda>ts. AList.update key (JArr ts) obj) (go_list (rawTransactionToHash eth) transactions)
      | _ \<Rightarrow> Ret obj)"

definition sanitize_param :: "'tx eth_lib \<Rightarrow> int \<Rightarrow> string \<Rightarrow> json list \<Rightarrow> json list go" where
  \<comment> \<open>the type switch on \<open>params[i]\<close> that three cases of \<open>sanitizeMessage\<close> share\<close>
  "sanitize_param eth i key params =
     (if int (length params) < i + 1 then Ret params
      else go_bind (slice_get params i) (\<lambda>p. case p of
          JObj payload \<Rightarrow> go_bind (sanitizeTransactions eth payload key) (\<lambda>pl. slice_set params i (JObj pl))
        | _ \<Rightarrow> Ret params))"

definition sanitizeMessage :: "'tx eth_lib \<Rightarrow> (string \<times> json) list \<Rightarrow> (string \<times> json) list go" where
  "sanitizeMessage eth message =
     (let rpc_method = (case map_of message ''method'' of Some (JStr m) \<Rightarrow> m | _ \<Rightarrow> [])
      in if rpc_method \<noteq> [] then
           (case map_of message ''params'' of
              Some (JArr params) \<Rightarrow>
                go_map (\<lambda>ps. AList.update ''params'' (JArr ps) message)
                  (if rpc_method = ''engine_forkchoiceUpdatedV3'' then sanitize_param eth 1 ''transactions'' params
                   else if rpc_method = ''engine_newPayloadV4'' then sanitize_param eth 0 ''transactions'' params
                   else if rpc_method = ''eth_sendBundle'' then sanitize_param eth 0 ''txs'' params
                   else if rpc_method = ''eth_sendRawTransaction'' then go_list (rawTransactionToHash eth) params
                   else Ret params)
            | _ \<Rightarrow> Ret message)
         else
           (case map_of message ''result'' of
              Some (JObj result) \<Rightarrow>
                (case map_of result ''executionPayload'' of
                   Some (JObj payload) \<Rightarrow>
                     go_map (\<lambda>pl. AList.update ''result'' (JObj (AList.update ''executionPayload'' (JObj pl) result)) message)
                       (sanitizeTransactions eth payload ''transactions'')
                 | _ \<Rightarrow> Ret message)
            | _ \<Rightarrow> Ret message))"

fun Sanitize :: "'tx eth_lib \<Rightarrow> json \<Rightarrow> json go" where
  "Sanitize eth (JArr msg) = go_map JArr (go_list (Sanitize eth) msg)"
| "Sanitize eth (JObj msg) = go_map JObj (sanitizeMessage eth msg)"
| "Sanitize eth j = Ret j"

section \<open>The specification: which paths of a message hold raw transactions\<close>

datatype step = Key string | Idx nat

function rewrite :: "(step list \<Rightarrow> bool) \<Rightarrow> (json \<Rightarrow> json) \<Rightarrow> json \<Rightarrow> json" where
  "rewrite S f j =
     (if S [] then f j
      else case j of
        JArr js \<Rightarrow> JArr (map (\<lambda>(i, x). rewrite (\<lambda>r. S (Idx i # r)) f x) (enumerate 0 js))
      | JObj kvs \<Rightarrow> JObj (map (\<lambda>(k, x). (k, rewrite (\<lambda>r. S (Key k # r)) f x)) kvs)
      | _ \<Rightarrow> j)"
  by pat_completeness auto
termination
proof (relation "measure (\<lambda>(S, f, j). size j)", goal_cases)
  case (2 S f j js p i x)
  then have "x \<in> set js" by (auto simp: in_set_enumerate_eq)
  then show ?case using 2 size_list_estimation' [of x js "size x" size] by simp
next
  case (3 S f j kvs p k x)
  then have "(k, x) \<in> set kvs" by simp
  then show ?case using 3
    size_list_estimation' [of "(k, x)" kvs "size x" "size_prod (\<lambda>_. 0) size"] by auto
qed simp

declare rewrite.simps [simp del]

definition method_of :: "(string \<times> json) list \<Rightarrow> string" where
  "method_of message = (case map_of message ''method'' of Some (JStr m) \<Rightarrow> m | _ \<Rightarrow> [])"

text \<open>Where a message of each method keeps its transactions; a message without method is a response.\<close>

definition tx_array :: "string \<Rightarrow> step list option" where
  "tx_array m =
     (if m = '''' then Some [Key ''result'', Key ''executionPayload'', Key ''transactions'']
      else if m = ''engine_forkchoiceUpdatedV3'' then Some [Key ''params'', Idx 1, Key ''transactions'']
      else if m = ''engine_newPayloadV4'' then Some [Key ''params'', Idx 0, Key ''transactions'']
      else if m = ''eth_sendBundle'' then Some [Key ''params'', Idx 0, Key ''txs'']
      else if m = ''eth_sendRawTransaction'' then Some [Key ''params'']
      else None)"

fun is_idx :: "step \<Rightarrow> bool" where
  "is_idx (Idx i) = True"
| "is_idx (Key k) = False"

definition element_of :: "step list \<Rightarrow> step list \<Rightarrow> bool" where
  "element_of q r \<longleftrightarrow> r \<noteq> [] \<and> butlast r = q \<and> is_idx (last r)"

fun tx_slot :: "json \<Rightarrow> step list \<Rightarrow> bool" where
  "tx_slot (JArr js) (Idx i # r) = (i < length js \<and> tx_slot (js ! i) r)"
| "tx_slot (JObj kvs) r = (case tx_array (method_of kvs) of None \<Rightarrow> False | Some q \<Rightarrow> element_of q r)"
| "tx_slot j r = False"

text \<open>What the log shows in place of a transaction.\<close>

definition tx_summary :: "'tx eth_lib \<Rightarrow> json \<Rightarrow> json" where
  "tx_summary eth j = (case rawTransactionToHash eth j of Ret s \<Rightarrow> s | Panic \<Rightarrow> j)"

definition no_panic :: "'tx eth_lib \<Rightarrow> bool" where
  "no_panic eth \<longleftrightarrow> (\<forall>str. DecodeEthRawTransaction eth str \<noteq> Panic)"

section \<open>Rewriting along one path\<close>

fun at_path :: "step list \<Rightarrow> (json \<Rightarrow> json) \<Rightarrow> json \<Rightarrow> json" where
  "at_path [] g j = g j"
| "at_path (Key k # q) g (JObj kvs) =
     (case map_of kvs k of None \<Rightarrow> JObj kvs | Some v \<Rightarrow> JObj (AList.update k (at_path q g v) kvs))"
| "at_path (Idx i # q) g (JArr js) =
     (if i < length js then JArr (js[i := at_path q g (js ! i)]) else JArr js)"
| "at_path (s # q) g j = j"

fun map_elements :: "(json \<Rightarrow> json) \<Rightarrow> json \<Rightarrow> json" where
  "map_elements f (JArr js) = JArr (map f js)"
| "map_elements f j = j"

lemma enumerate_cong:
  "(\<And>i. i < length js \<Longrightarrow> g (i, js ! i) = h i) \<Longrightarrow> map g (enumerate 0 js) = map h [0..<length js]"
  by (rule nth_equalityI) (auto simp: nth_enumerate_eq)

lemma rewrite_none: "(\<And>r. \<not> S r) \<Longrightarrow> rewrite S f j = j"
proof (induction S f j rule: rewrite.induct)
  case (1 S f j)
  show ?case
  proof (cases j)
    case (JArr js)
    have "map (\<lambda>(i, x). rewrite (\<lambda>r. S (Idx i # r)) f x) (enumerate 0 js) = map snd (enumerate 0 js)"
      using 1 JArr by (intro map_cong) auto
    with 1 JArr show ?thesis by (subst rewrite.simps) simp
  next
    case (JObj kvs)
    have "map (\<lambda>(k, x). (k, rewrite (\<lambda>r. S (Key k # r)) f x)) kvs = map (\<lambda>x. x) kvs"
      using 1 JObj by (intro map_cong) auto
    with 1 JObj show ?thesis by (subst rewrite.simps) simp
  qed (use 1 in \<open>subst rewrite.simps, simp\<close>)+
qed

lemma element_of_Nil [simp]: "\<not> element_of q []"
  by (simp add: element_of_def)

lemma element_of_Nil_Cons [simp]: "element_of [] (s # r) \<longleftrightarrow> r = [] \<and> is_idx s"
  by (auto simp: element_of_def)

lemma element_of_Cons_Cons [simp]: "element_of (s # q) (t # r) \<longleftrightarrow> s = t \<and> element_of q r"
  by (auto simp: element_of_def)

lemma rewrite_elements: "rewrite (element_of []) f j = map_elements f j"
proof -
  have here: "rewrite (\<lambda>r. r = []) f x = f x" for x by (subst rewrite.simps) simp
  show ?thesis
  proof (cases j)
    case (JArr js)
    have "map (\<lambda>(i, x). rewrite (\<lambda>r. r = []) f x) (enumerate 0 js) = map (f \<circ> snd) (enumerate 0 js)"
      by (intro map_cong) (auto simp: here)
    also have "\<dots> = map f js" by (simp flip: map_map)
    finally show ?thesis using JArr by (subst rewrite.simps) simp
  qed (subst rewrite.simps, simp add: rewrite_none)+
qed

lemma update_as_map:
  "distinct (map fst kvs) \<Longrightarrow> k \<in> fst ` set kvs \<Longrightarrow>
   AList.update k v kvs = map (\<lambda>(k', x). (k', if k' = k then v else x)) kvs"
proof (induction kvs)
  case (Cons kv kvs)
  obtain k' x where kv: "kv = (k', x)" by (cases kv)
  show ?case
  proof (cases "k' = k")
    case True
    with Cons.prems kv have "map (\<lambda>(k', x). (k', if k' = k then v else x)) kvs = map (\<lambda>x. x) kvs"
      by (intro map_cong) (auto simp: image_iff)
    with True kv show ?thesis by simp
  next
    case False
    with Cons kv show ?thesis by auto
  qed
qed simp

lemma rewrite_element_of:
  assumes "json_distinct j"
  shows "rewrite (element_of q) f j = at_path q (map_elements f) j"
  using assms
proof (induction q arbitrary: j)
  case Nil
  show ?case by (simp add: rewrite_elements)
next
  case (Cons s q)
  have step: "rewrite (\<lambda>r. element_of (s # q) (t # r)) f x
      = (if t = s then rewrite (element_of q) f x else x)" for t x
    by (simp add: rewrite_none)
  show ?case
  proof (cases j)
    case (JArr js)
    have "map (\<lambda>(i, x). rewrite (\<lambda>r. element_of (s # q) (Idx i # r)) f x) (enumerate 0 js)
        = map (\<lambda>i. if Idx i = s then at_path q (map_elements f) (js ! i) else js ! i) [0..<length js]"
      using Cons JArr by (intro enumerate_cong) (auto simp: step list_all_iff rewrite_none)
    then have eq: "rewrite (element_of (s # q)) f j
        = JArr (map (\<lambda>i. if Idx i = s then at_path q (map_elements f) (js ! i) else js ! i) [0..<length js])"
      using JArr by (subst rewrite.simps) (simp del: element_of_Cons_Cons)
    show ?thesis
    proof (cases s)
      case (Key k)
      then show ?thesis using eq JArr by (simp add: map_nth)
    next
      case (Idx i)
      then show ?thesis unfolding eq using JArr
        by (auto intro!: nth_equalityI simp: nth_list_update)
    qed
  next
    case (JObj kvs)
    have dist: "json_distinct x" if "(k, x) \<in> set kvs" for k x
      using that Cons.prems JObj by (auto simp: list_all_iff)
    have "map (\<lambda>(k, x). (k, rewrite (\<lambda>r. element_of (s # q) (Key k # r)) f x)) kvs
        = map (\<lambda>(k, x). (k, if Key k = s then at_path q (map_elements f) x else x)) kvs"
      using Cons.IH dist by (intro map_cong) (auto simp: step rewrite_none)
    then have eq: "rewrite (element_of (s # q)) f j
        = JObj (map (\<lambda>(k, x). (k, if Key k = s then at_path q (map_elements f) x else x)) kvs)"
      using JObj by (subst rewrite.simps) (simp del: element_of_Cons_Cons)
    show ?thesis
    proof (cases s)
      case (Key k)
      show ?thesis
      proof (cases "map_of kvs k")
        case None
        then have "map (\<lambda>(k', x). (k', if Key k' = s then at_path q (map_elements f) x else x)) kvs = map (\<lambda>x. x) kvs"
          using Key by (intro map_cong) (auto simp: map_of_eq_None_iff image_iff)
        with eq None Key JObj show ?thesis by simp
      next
        case (Some v)
        have d: "distinct (map fst kvs)" using Cons.prems JObj by simp
        have "map (\<lambda>(k', x). (k', if Key k' = s then at_path q (map_elements f) x else x)) kvs
            = map (\<lambda>(k', x). (k', if k' = k then at_path q (map_elements f) v else x)) kvs"
          using Key Some d by (intro map_cong) (auto dest: eq_key_imp_eq_value map_of_SomeD)
        also have "\<dots> = AList.update k (at_path q (map_elements f) v) kvs"
          using Some d by (intro update_as_map [symmetric]) (auto dest: map_of_SomeD simp: rev_image_eqI)
        finally show ?thesis using eq Some Key JObj by simp
      qed
    next
      case (Idx i)
      then show ?thesis using eq JObj by (simp add: case_prod_unfold)
    qed
  qed (subst rewrite.simps, cases s, simp_all)+
qed

section \<open>The code meets the specification\<close>

lemma rawTransactionToHash_Ret:
  "no_panic eth \<Longrightarrow> rawTransactionToHash eth j = Ret (tx_summary eth j)"
  by (cases j) (auto simp: tx_summary_def rawTransactionToHash_def no_panic_def go_not_Panic_iff
      go_map_Panic_iff split: go.split)

lemma go_list_hashes:
  "no_panic eth \<Longrightarrow> go_list (rawTransactionToHash eth) js = Ret (map (tx_summary eth) js)"
  by (intro go_list_Ret rawTransactionToHash_Ret)

lemma update_same: "map_of kvs k = Some v \<Longrightarrow> AList.update k v kvs = kvs"
  by (induction kvs) (auto split: if_splits)

lemma sanitizeTransactions_at_path:
  assumes "no_panic eth"
  shows "sanitizeTransactions eth obj key
    = Ret (case at_path [Key key] (map_elements (tx_summary eth)) (JObj obj) of JObj o' \<Rightarrow> o' | _ \<Rightarrow> obj)"
  by (auto simp: sanitizeTransactions_def go_list_hashes [OF assms] update_same split: option.split json.split)

lemma at_path_key_obj: "\<exists>kvs'. at_path [Key k] g (JObj kvs) = JObj kvs'"
  by (auto split: option.split)

lemma sanitize_param_at_path:
  assumes "no_panic eth" "0 \<le> i"
  shows "\<exists>ps. sanitize_param eth i key params = Ret ps \<and>
    at_path [Idx (nat i), Key key] (map_elements (tx_summary eth)) (JArr params) = JArr ps"
proof (cases "int (length params) < i + 1")
  case False
  then have i: "i < int (length params)" "nat i < length params" using assms(2) by auto
  show ?thesis
  proof (cases "params ! nat i")
    case (JObj payload)
    obtain pl where "at_path [Key key] (map_elements (tx_summary eth)) (JObj payload) = JObj pl"
      using at_path_key_obj by blast
    with JObj i assms show ?thesis
      by (simp add: sanitize_param_def slice_get_Ret slice_set_Ret sanitizeTransactions_at_path)
  qed (use i assms in \<open>simp_all add: sanitize_param_def slice_get_Ret list_update_same_conv\<close>)
next
  case True
  with assms(2) have "\<not> nat i < length params" by simp
  with True show ?thesis by (simp add: sanitize_param_def)
qed

lemma sanitizeMessage_response:
  assumes "no_panic eth" "method_of message = []"
  shows "go_map JObj (sanitizeMessage eth message) = Ret (at_path
      [Key ''result'', Key ''executionPayload'', Key ''transactions''] (map_elements (tx_summary eth)) (JObj message))"
proof (cases "map_of message ''result''")
  case (Some r)
  note unfolds = sanitizeMessage_def method_of_def [symmetric] assms(2) Some update_same
  show ?thesis
  proof (cases r)
    case (JObj result)
    show ?thesis
    proof (cases "map_of result ''executionPayload''")
      case ep: (Some e)
      show ?thesis
      proof (cases e)
        case e: (JObj payload)
        obtain pl where "at_path [Key ''transactions''] (map_elements (tx_summary eth)) (JObj payload) = JObj pl"
          using at_path_key_obj by blast
        with JObj ep e show ?thesis by (simp add: unfolds sanitizeTransactions_at_path [OF assms(1)])
      qed (use JObj ep in \<open>simp_all add: unfolds\<close>)
    qed (use JObj in \<open>simp add: unfolds\<close>)
  qed (simp_all add: unfolds)
qed (simp add: sanitizeMessage_def method_of_def [symmetric] assms(2))

lemma sanitizeMessage_request:
  assumes "no_panic eth" "method_of message \<noteq> []"
  shows "go_map JObj (sanitizeMessage eth message) = Ret (case tx_array (method_of message) of
      None \<Rightarrow> JObj message | Some q \<Rightarrow> at_path q (map_elements (tx_summary eth)) (JObj message))"
proof (cases "map_of message ''params''")
  case None
  with assms(2) show ?thesis
    by (simp add: sanitizeMessage_def method_of_def [symmetric] tx_array_def)
next
  case (Some p)
  note unfolds = sanitizeMessage_def method_of_def [symmetric] assms(2) Some update_same tx_array_def
  show ?thesis
  proof (cases p)
    case (JArr params)
    obtain ps1 where "sanitize_param eth 1 ''transactions'' params = Ret ps1"
        "at_path [Idx 1, Key ''transactions''] (map_elements (tx_summary eth)) (JArr params) = JArr ps1"
      using sanitize_param_at_path [OF assms(1), of 1] by auto
    moreover obtain ps0 where "sanitize_param eth 0 ''transactions'' params = Ret ps0"
        "at_path [Idx 0, Key ''transactions''] (map_elements (tx_summary eth)) (JArr params) = JArr ps0"
      using sanitize_param_at_path [OF assms(1), of 0] by auto
    moreover obtain ps2 where "sanitize_param eth 0 ''txs'' params = Ret ps2"
        "at_path [Idx 0, Key ''txs''] (map_elements (tx_summary eth)) (JArr params) = JArr ps2"
      using sanitize_param_at_path [OF assms(1), of 0] by auto
    ultimately show ?thesis
      using JArr by (simp add: unfolds go_list_hashes [OF assms(1)] del: at_path.simps(3))
  qed (simp_all add: unfolds)
qed

lemma sanitizeMessage_at_path:
  assumes "no_panic eth"
  shows "go_map JObj (sanitizeMessage eth message) = Ret (case tx_array (method_of message) of
      None \<Rightarrow> JObj message | Some q \<Rightarrow> at_path q (map_elements (tx_summary eth)) (JObj message))"
proof (cases "method_of message = []")
  case True
  then show ?thesis using sanitizeMessage_response [OF assms True] by (simp add: tx_array_def)
qed (rule sanitizeMessage_request [OF assms])

lemma Sanitize_by_rewriting:
  assumes "no_panic eth" "json_distinct msg"
  shows "Sanitize eth msg = Ret (rewrite (tx_slot msg) (tx_summary eth) msg)"
  using assms(2)
proof (induction msg)
  case (JArr js)
  have "go_list (Sanitize eth) js = Ret (map (\<lambda>x. rewrite (tx_slot x) (tx_summary eth) x) js)"
    using JArr by (intro go_list_Ret) (auto simp: list_all_iff)
  moreover have "map (\<lambda>(i, x). rewrite (\<lambda>r. tx_slot (JArr js) (Idx i # r)) (tx_summary eth) x) (enumerate 0 js)
      = map (\<lambda>i. rewrite (tx_slot (js ! i)) (tx_summary eth) (js ! i)) [0..<length js]"
    by (intro enumerate_cong) simp
  moreover have "\<dots> = map (\<lambda>x. rewrite (tx_slot x) (tx_summary eth) x) js"
    by (auto intro: nth_equalityI)
  ultimately show ?case by (subst rewrite.simps) simp
next
  case (JObj kvs)
  show ?case
  proof (cases "tx_array (method_of kvs)")
    case None
    then show ?thesis using sanitizeMessage_at_path [OF assms(1), of kvs] by (simp add: rewrite_none)
  next
    case (Some q)
    then have "tx_slot (JObj kvs) = element_of q" by (intro ext) simp
    then show ?thesis
      using sanitizeMessage_at_path [OF assms(1), of kvs] Some rewrite_element_of [OF JObj.prems, of q] by simp
  qed
qed (simp_all add: rewrite_none)

text \<open>
  C14: On any value as decoded from JSON, if decoding a transaction does not panic, \<open>Sanitize\<close>
  returns exactly the value with each slot that holds a raw transaction (per method, in every
  message of a batch, in a response's execution payload) replaced by the transaction's hash or
  an error text, and every other part of the value as it was.
\<close>

theorem Sanitize_rewrites:
  assumes "no_panic eth" "json_distinct msg"
  shows "Sanitize eth msg = Ret (rewrite (tx_slot msg) (tx_summary eth) msg)"
  by (rule Sanitize_by_rewriting [OF assms])

definition demo_eth :: "string eth_lib" where
  \<comment> \<open>a library whose transactions are their own bytes, chain 1, sent by \<open>from\<close>\<close>
  "demo_eth = \<lparr>hexutil_Decode = (\<lambda>s. if HasPrefix s ''0x'' then Inr (drop 2 s) else Inl ''hex string without 0x prefix''),
     tx_UnmarshalBinary = (\<lambda>b. if b = [] then Ret (Inl ''EOF'') else Ret (Inr b)),
     tx_Type = (\<lambda>tx. 2), DepositTxType = 126, tx_From = (\<lambda>tx. []), tx_ChainId = (\<lambda>tx. Some 1),
     tx_Sender = (\<lambda>c tx. Ret (Inr ''from'')), tx_To = (\<lambda>tx. None), tx_Hash = (\<lambda>tx. ''#'' @ tx),
     tx_Nonce = (\<lambda>tx. 0), hash_Hex = (\<lambda>h. h)\<rparr>"

lemma no_panic_demo: "no_panic demo_eth"
  by (auto simp: no_panic_def DecodeEthRawTransaction_def demo_eth_def)

theorem Sanitize_rewrites_witness:
  "Sanitize demo_eth (JArr [JObj [(''method'', JStr ''eth_sendRawTransaction''),
       (''params'', JArr [JStr ''0x12'', JStr ''34''])], JNull])
   = Ret (JArr [JObj [(''method'', JStr ''eth_sendRawTransaction''),
       (''params'', JArr [JStr ''#12'', JStr (''[error decoding tx: failed to decode eth_sendRawTransaction: ''
          @ ''hex string without 0x prefix]'')])], JNull])"
proof -
  let ?msg = "JArr [JObj [(''method'', JStr ''eth_sendRawTransaction''),
       (''params'', JArr [JStr ''0x12'', JStr ''34''])], JNull]"
  have "json_distinct ?msg" by simp
  from Sanitize_rewrites [OF no_panic_demo this]
  have "Sanitize demo_eth ?msg = Ret (rewrite (tx_slot ?msg) (tx_summary demo_eth) ?msg)" .
  also have "rewrite (tx_slot ?msg) (tx_summary demo_eth) ?msg
    = JArr [JObj [(''method'', JStr ''eth_sendRawTransaction''),
       (''params'', JArr [JStr ''#12'', JStr (''[error decoding tx: failed to decode eth_sendRawTransaction: ''
          @ ''hex string without 0x prefix]'')])], JNull]"
    by code_simp
  finally show ?thesis .
qed

end
