(* ===== verification/Rpc.thy ===== *)
theory Rpc
  imports Triaged Sanitize
begin

text \<open>
  \<open>proxy/rpc.go\<close>: the triage of a user's JSON-RPC request, single or batch, and the interception
  of \<open>tee_getDcapQuote\<close>. The TDX guest library is the parameter \<open>tdx\<close>. The wrappers \<open>Run\<close>,
  \<open>Stop\<close>, \<open>ResetConnections\<close> and \<open>Observe\<close> only pass on to the HTTP proxy.
\<close>

section \<open>The code\<close>

text \<open>The dynamic type of what \<open>QuoteToProto\<close> returns; the assertion to \<open>*QuoteV4\<close> panics on any other.\<close>

datatype 'q tdx_any = QuoteV4 'q | NilQuoteV4 | OtherType

record ('p, 'q) tdx_lib =
  GetQuoteProvider :: "string + 'p"
  GetRawQuote :: "'p \<Rightarrow> string \<Rightarrow> string + string"
  QuoteToProto :: "string \<Rightarrow> string + 'q tdx_any"
  MarshalQuote :: "'q \<Rightarrow> string + string"

definition interceptTeeGetDcapQuote :: "'tx eth_lib \<Rightarrow> ('p, 'q) tdx_lib \<Rightarrow> Call \<Rightarrow> Response go" where
  "interceptTeeGetDcapQuote eth tdx call =
     (let res = AcquireResponse\<lparr>StatusCode := 200, Headers := [json_content]\<rparr>;
          fail = (\<lambda>code msg. Ret (res\<lparr>Body := jrpc_body (GetID call) (unquoted_error code msg)\<rparr>))
      in case GetQuoteProvider tdx of
           Inl e \<Rightarrow> fail ''-32043'' ''not in tdx''
         | Inr provider \<Rightarrow>
         (case Unmarshal_raw (decode_slice [] decode_string) [] (GetParams call) of
           None \<Rightarrow> fail ''-32602'' ''invalid report data''
         | Some params \<Rightarrow>
           if length params \<noteq> 1 then fail ''-32602'' ''only 1 parameter expected''
           else go_bind (slice_get params 0) (\<lambda>param.
             case hexutil_Decode eth param of
               Inl e \<Rightarrow> fail ''-32602'' ''parameter is not a hex string''
             | Inr reportData \<Rightarrow>
               if length reportData \<noteq> 64 then fail ''-32602'' ''parameter is not 64 bytes hex''
               else (case GetRawQuote tdx provider reportData of
                 Inl e \<Rightarrow> fail ''-32043'' (''failed to get tdx quote: '' @ e)
               | Inr rawQuote \<Rightarrow>
               (case QuoteToProto tdx rawQuote of
                 Inl e \<Rightarrow> fail ''-32603'' (''failed to decode tdx quote: '' @ e)
               | Inr quote \<Rightarrow>
               (case quote of
                 OtherType \<Rightarrow> Panic
               | NilQuoteV4 \<Rightarrow> fail ''-32603'' ''unknown tdx quote format''
               | QuoteV4 q \<Rightarrow>
                 (case MarshalQuote tdx q of
                    Inl e \<Rightarrow> fail ''-32603'' (''failed to marshal tdx quote: '' @ e)
                  | Inr jsonQuote \<Rightarrow>
                      Ret (res\<lparr>Body := jrpc_body (GetID call) (''\"result\":'' @ jsonQuote)\<rparr>))))))))"

definition triaged_tx :: "'tx eth_lib \<Rightarrow> string \<Rightarrow> 'tx \<Rightarrow> RequestTransaction" where
  "triaged_tx eth from tx = \<lparr>rt_From = Some from, rt_To = tx_To eth tx, rt_Hash = tx_Hash eth tx, rt_Nonce = tx_Nonce eth tx\<rparr>"

definition triageSingle :: "'tx eth_lib \<Rightarrow> ('p, 'q) tdx_lib \<Rightarrow> Call \<Rightarrow> (Request \<times> Response) go" where
  "triageSingle eth tdx call =
     (if GetMethod call = ''tee_getDcapQuote'' then
        go_map (Pair (zero_Request\<lparr>JrpcMethod := GetMethod call, JrpcID := GetID call\<rparr>))
          (interceptTeeGetDcapQuote eth tdx call)
      else if HasPrefix (GetMethod call) ''eth_sendRawTransaction'' then
        Ret (zero_Request\<lparr>Proxy := True, Prioritise := True, Mirror := True,
               JrpcMethod := GetMethod call, JrpcID := GetID call,
               Transactions := (case DecodeEthSendRawTransaction eth call of
                   Inr (from, tx) \<Rightarrow> [triaged_tx eth from tx] | Inl e \<Rightarrow> [])\<rparr>, AcquireResponse)
      else if HasPrefix (GetMethod call) ''eth_sendBundle'' then
        Ret (zero_Request\<lparr>Proxy := True, Prioritise := True, Mirror := True,
               JrpcMethod := GetMethod call, JrpcID := GetID call\<rparr>, AcquireResponse)
      else
        Ret (zero_Request\<lparr>Proxy := True, JrpcMethod := GetMethod call, JrpcID := GetID call\<rparr>,
             AcquireResponse))"

text \<open>\<open>utils.MapHasKeyWithPrefix\<close>, on the set of the map's keys, and the set the code builds.\<close>

definition MapHasKeyWithPrefix :: "string list \<Rightarrow> string \<Rightarrow> bool" where
  "MapHasKeyWithPrefix keys pre = list_ex (\<lambda>key. HasPrefix key pre) keys"

definition methodsSet :: "Call list \<Rightarrow> string list" where
  "methodsSet batch = fold (\<lambda>call known. if GetMethod call \<in> set known then known else known @ [GetMethod call]) batch []"

fun batch_transactions :: "'tx eth_lib \<Rightarrow> Call list \<Rightarrow> RequestTransaction list" where
  "batch_transactions eth [] = []"
| "batch_transactions eth (call # calls) =
     (if GetMethod call \<noteq> ''eth_sendRawTransaction'' then batch_transactions eth calls
      else (case DecodeEthSendRawTransaction eth call of
          Inr (from, tx) \<Rightarrow> triaged_tx eth from tx # batch_transactions eth calls
        | Inl e \<Rightarrow> batch_transactions eth calls))"

definition triageBatch :: "'tx eth_lib \<Rightarrow> Call list \<Rightarrow> (Request \<times> Response) go" where
  "triageBatch eth batch =
     (if batch = [] then Ret (zero_Request, AcquireResponse)
      else go_bind (slice_get batch 0) (\<lambda>first.
        let named = zero_Request\<lparr>Proxy := True, JrpcID := GetID first,
                      JrpcMethod := ''batch('' @ itoa (int (length batch)) @ '')''\<rparr>
        in if MapHasKeyWithPrefix (methodsSet batch) ''eth_sendRawTransaction'' then
             Ret (named\<lparr>Prioritise := True, Mirror := True, Transactions := batch_transactions eth batch\<rparr>,
                  AcquireResponse)
           else if MapHasKeyWithPrefix (methodsSet batch) ''eth_sendBundle'' then
             Ret (named\<lparr>Prioritise := True, Mirror := True\<rparr>, AcquireResponse)
           else Ret (named, AcquireResponse)))"

definition Rpc_triage :: "'tx eth_lib \<Rightarrow> ('p, 'q) tdx_lib \<Rightarrow> string \<Rightarrow> (Request \<times> Response) go" where
  "Rpc_triage eth tdx body =
     (case Unmarshal body of
        Some call \<Rightarrow> triageSingle eth tdx call
      | None \<Rightarrow>
          (case UnmarshalBatch body of
             Some batch \<Rightarrow> triageBatch eth batch
           | None \<Rightarrow> Ret (zero_Request\<lparr>Proxy := True, JrpcMethod := ''unknown''\<rparr>, AcquireResponse)))"

section \<open>A batch is treated as its calls would be\<close>

lemma set_methodsSet: "set (methodsSet batch) = GetMethod ` set batch"
proof -
  have "set (fold (\<lambda>call known. if GetMethod call \<in> set known then known else known @ [GetMethod call]) batch acc)
      = set acc \<union> GetMethod ` set batch" for acc
    by (induction batch arbitrary: acc) auto
  then show ?thesis by (simp add: methodsSet_def)
qed

lemma MapHasKeyWithPrefix_methodsSet:
  "MapHasKeyWithPrefix (methodsSet batch) p \<longleftrightarrow> (\<exists>c\<in>set batch. HasPrefix (GetMethod c) p)"
  by (simp add: MapHasKeyWithPrefix_def list_ex_iff set_methodsSet)

text \<open>What the single triage decides, apart from the response.\<close>

definition is_tx_method :: "string \<Rightarrow> bool" where
  "is_tx_method m \<longleftrightarrow> HasPrefix m ''eth_sendRawTransaction'' \<or> HasPrefix m ''eth_sendBundle''"

definition call_transactions :: "'tx eth_lib \<Rightarrow> Call \<Rightarrow> RequestTransaction list" where
  "call_transactions eth c =
     (case DecodeEthSendRawTransaction eth c of Inr (from, tx) \<Rightarrow> [triaged_tx eth from tx] | Inl e \<Rightarrow> [])"

lemma call_transactions_other:
  "GetMethod c \<noteq> ''eth_sendRawTransaction'' \<Longrightarrow> call_transactions eth c = []"
  by (simp add: call_transactions_def DecodeEthSendRawTransaction_def)

lemma batch_transactions_concat:
  "batch_transactions eth batch = concat (map (call_transactions eth) batch)"
proof (induction batch)
  case (Cons c batch)
  then show ?case
    by (cases "GetMethod c = ''eth_sendRawTransaction''")
      (simp_all add: call_transactions_other, simp add: call_transactions_def [of eth c] split: sum.split)
qed simp

text \<open>
  What is decided for a single call: everything but \<open>tee_getDcapQuote\<close> is proxied; exactly
  the methods that start with \<open>eth_sendRawTransaction\<close> or \<open>eth_sendBundle\<close> are mirrored and
  prioritised; the id and the method are the call's; the transaction of a decodable
  \<open>eth_sendRawTransaction\<close> is recorded.
\<close>

theorem triageSingle_decides:
  assumes "triageSingle eth tdx c = Ret (t, res)"
  shows "Proxy t = (GetMethod c \<noteq> ''tee_getDcapQuote'') \<and> Mirror t = is_tx_method (GetMethod c) \<and>
    Prioritise t = is_tx_method (GetMethod c) \<and> JrpcMethod t = GetMethod c \<and> JrpcID t = GetID c \<and>
    Transactions t = call_transactions eth c \<and> Deadline t = None"
proof (cases "GetMethod c = ''tee_getDcapQuote''")
  case True
  then have "t = zero_Request\<lparr>JrpcMethod := GetMethod c, JrpcID := GetID c\<rparr>"
    using assms by (auto simp: triageSingle_def go_map_Ret_iff)
  with True show ?thesis
    by (simp add: zero_Request_def is_tx_method_def HasPrefix_def call_transactions_other)
next
  case False
  have "GetMethod c \<noteq> ''eth_sendRawTransaction''" if "\<not> HasPrefix (GetMethod c) ''eth_sendRawTransaction''"
    using that by (auto simp: HasPrefix_def)
  with False assms show ?thesis
    by (cases "HasPrefix (GetMethod c) ''eth_sendRawTransaction''";
        cases "HasPrefix (GetMethod c) ''eth_sendBundle''")
      (auto simp: triageSingle_def zero_Request_def is_tx_method_def call_transactions_other
        call_transactions_def [symmetric])
qed

definition demo_tdx :: "(unit, string) tdx_lib" where
  \<comment> \<open>a guest that quotes any report data as itself\<close>
  "demo_tdx = \<lparr>GetQuoteProvider = Inr (), GetRawQuote = (\<lambda>_ d. Inr d),
               QuoteToProto = (\<lambda>d. Inr (QuoteV4 d)), MarshalQuote = (\<lambda>d. Inr (quoted d))\<rparr>"

definition demo_call :: "string \<Rightarrow> string \<Rightarrow> Call" where
  "demo_call m param = CallUint64 \<lparr>u_ID = 7, u_Method = m, u_Params = Some (JArr [JStr param])\<rparr>"

theorem triageSingle_decides_witness:
  "\<exists>t res. triageSingle demo_eth demo_tdx (demo_call ''eth_sendRawTransaction'' ''0x12'') = Ret (t, res) \<and>
     Mirror t \<and> Prioritise t \<and>
     Transactions t = [\<lparr>rt_From = Some ''from'', rt_To = None, rt_Hash = ''#12'', rt_Nonce = 0\<rparr>]"
proof -
  let ?c = "demo_call ''eth_sendRawTransaction'' ''0x12''"
  obtain t res where t: "triageSingle demo_eth demo_tdx ?c = Ret (t, res)"
    by (simp add: triageSingle_def demo_call_def HasPrefix_def)
  have "is_tx_method ''eth_sendRawTransaction''"
    "call_transactions demo_eth ?c = [\<lparr>rt_From = Some ''from'', rt_To = None, rt_Hash = ''#12'', rt_Nonce = 0\<rparr>]"
    by code_simp+
  with t triageSingle_decides [OF t] show ?thesis by (auto simp: demo_call_def)
qed

text \<open>
  C24: A non-empty batch is mirrored (and prioritised) exactly when one of its calls on its own
  would be, it is always proxied, and the transactions recorded for it are those of its calls
  on their own, in their order.
\<close>

theorem triageBatch_as_calls:
  assumes "batch \<noteq> []"
  shows "\<exists>t. triageBatch eth batch = Ret (t, AcquireResponse) \<and> Proxy t \<and>
    Mirror t = (\<exists>c\<in>set batch. is_tx_method (GetMethod c)) \<and> Prioritise t = Mirror t \<and>
    JrpcID t = GetID (hd batch) \<and>
    Transactions t = concat (map (call_transactions eth) batch)"
proof -
  let ?raw = "\<exists>c\<in>set batch. HasPrefix (GetMethod c) ''eth_sendRawTransaction''"
  have none: "concat (map (call_transactions eth) batch) = []" if "\<not> ?raw"
  proof -
    have "GetMethod c \<noteq> ''eth_sendRawTransaction''" if "c \<in> set batch" for c
      using that \<open>\<not> ?raw\<close> by (auto simp: HasPrefix_def)
    then show ?thesis by (simp add: call_transactions_other)
  qed
  have "slice_get batch 0 = Ret (hd batch)" using assms by (simp add: slice_get_def hd_conv_nth)
  with assms none show ?thesis
    by (cases ?raw) (auto simp: triageBatch_def Let_def MapHasKeyWithPrefix_methodsSet zero_Request_def
        batch_transactions_concat is_tx_method_def simp del: concat_eq_Nil_conv)
qed

theorem triageBatch_as_calls_witness:
  "\<exists>t. triageBatch demo_eth [demo_call ''eth_call'' [], demo_call ''eth_sendRawTransaction'' ''0x1'',
       demo_call ''eth_sendRawTransaction'' ''junk''] = Ret (t, AcquireResponse) \<and> Mirror t \<and>
     length (Transactions t) = 1"
proof -
  let ?b = "[demo_call ''eth_call'' [], demo_call ''eth_sendRawTransaction'' ''0x1'',
       demo_call ''eth_sendRawTransaction'' ''junk'']"
  have "\<exists>c\<in>set ?b. is_tx_method (GetMethod c)"
      "length (concat (map (call_transactions demo_eth) ?b)) = 1"
    by code_simp+
  with triageBatch_as_calls [of ?b demo_eth] show ?thesis by auto
qed

text \<open>
  C35: A batch whose calls carry string ids is passed to the backend as an unknown request and
  never mirrored, whatever its calls are: it is not parsed, as a batch or as a call.
\<close>

theorem Rpc_triage_string_id_batch:
  assumes "json_parse body = Some (JArr js)" "JObj kvs \<in> set js" "(''id'', JStr i) \<in> set kvs"
  shows "Rpc_triage eth tdx body = Ret (zero_Request\<lparr>Proxy := True, JrpcMethod := ''unknown''\<rparr>, AcquireResponse)"
proof -
  have "Unmarshal body = None"
    using assms(1) by (simp add: Unmarshal_def Unmarshal_bytes_def Unmarshal_raw_def
        decode_callUint64_def decode_callString_def)
  moreover have "UnmarshalBatch body = None" by (rule UnmarshalBatch_string_ids [OF assms])
  ultimately show ?thesis by (simp add: Rpc_triage_def)
qed

theorem Rpc_triage_string_id_batch_witness:
  "Rpc_triage demo_eth demo_tdx ''[{\"id\":\"a\",\"method\":\"eth_sendBundle\",\"params\":[]}]''
     = Ret (zero_Request\<lparr>Proxy := True, JrpcMethod := ''unknown''\<rparr>, AcquireResponse)"
proof -
  let ?o = "[(''id'', JStr ''a''), (''method'', JStr ''eth_sendBundle''), (''params'', JArr [])]"
  have "json_parse (json_print (JArr [JObj ?o])) = Some (JArr [JObj ?o])"
    by (rule json_parse_print) (simp add: plain_char_def maxNestingDepth_def)
  from Rpc_triage_string_id_batch [OF this, of ?o "''a''" demo_eth demo_tdx]
  show ?thesis by (simp add: quoted_def)
qed

section \<open>\<open>tee_getDcapQuote\<close>\<close>

text \<open>
  C36: The answer to \<open>tee_getDcapQuote\<close> is either the quote of the report data (TDX is there, the
  one parameter is 64 bytes of hex, and the guest quotes it) or an error body that no JSON
  parser accepts: the key \<open>message\<close> lacks its closing quote on all eight error paths. It holds for any
  id the call may have, of any bytes: \<open>GetID\<close> puts a string id between quotes as it is.
\<close>

theorem interceptTeeGetDcapQuote_answers:
  assumes "interceptTeeGetDcapQuote eth tdx c = Ret res"
  shows "StatusCode res = 200 \<and> Headers res = [json_content] \<and>
    (json_parse (Body res) = None \<or>
     (\<exists>provider str reportData raw q jsonQuote.
        GetQuoteProvider tdx = Inr provider \<and>
        Unmarshal_raw (decode_slice [] decode_string) [] (GetParams c) = Some [str] \<and>
        hexutil_Decode eth str = Inr reportData \<and> length reportData = 64 \<and>
        GetRawQuote tdx provider reportData = Inr raw \<and> QuoteToProto tdx raw = Inr (QuoteV4 q) \<and>
        MarshalQuote tdx q = Inr jsonQuote \<and>
        Body res = jrpc_body (GetID c) (''\"result\":'' @ jsonQuote)))"
proof -
  have bad: "json_parse (jrpc_body (GetID c) (unquoted_error code (x # xs))) = None"
    if "CHR 0x22 \<notin> set code" "\<not> closes (x # xs)" for code x xs
    using that by (intro unquoted_error_malformed) simp_all
  show ?thesis
    using assms
    by (auto simp: length_Suc_conv interceptTeeGetDcapQuote_def Let_def slice_get_def bad json_space_def
        split: sum.splits option.splits if_splits tdx_any.splits)
qed

theorem interceptTeeGetDcapQuote_answers_witness:
  "\<exists>res. interceptTeeGetDcapQuote demo_eth demo_tdx
     (CallString \<lparr>s_ID = ''a\",\"b'', s_Method = ''tee_getDcapQuote'', s_Params = Some (JArr [JStr ''0x12''])\<rparr>) = Ret res
     \<and> json_parse (Body res) = None"
proof -
  let ?c = "CallString \<lparr>s_ID = ''a\",\"b'', s_Method = ''tee_getDcapQuote'', s_Params = Some (JArr [JStr ''0x12''])\<rparr>"
  have "hexutil_Decode demo_eth ''0x12'' = Inr ''12''"
    "Unmarshal_raw (decode_slice [] decode_string) [] (GetParams ?c) = Some [''0x12'']"
    by (simp_all add: demo_eth_def HasPrefix_def Unmarshal_raw_def)
  moreover from this obtain res where res: "interceptTeeGetDcapQuote demo_eth demo_tdx ?c = Ret res"
    by (simp add: interceptTeeGetDcapQuote_def demo_tdx_def slice_get_def)
  ultimately show ?thesis using interceptTeeGetDcapQuote_answers [OF res] by auto
qed

end
