(* ===== verification/Jwt.thy ===== *)
theory Jwt
  imports Json_Print
begin

text \<open>
  \<open>jwt/jwt.go\<close>: reading the \<open>iat\<close> claim of a token (its signature is the backend's business).
  The decoder is the standard library's \<open>base64.RawStdEncoding\<close>: the alphabet of RFC 4648
  section 4, no padding, line breaks skipped, trailing bits ignored.
\<close>

section \<open>Base64 without padding\<close>

definition b64_value :: "char \<Rightarrow> nat option" where
  "b64_value c =
     (let n = of_char c :: nat
      in if 65 \<le> n \<and> n \<le> 90 then Some (n - 65)
         else if 97 \<le> n \<and> n \<le> 122 then Some (n - 71)
         else if 48 \<le> n \<and> n \<le> 57 then Some (n + 4)
         else if n = 43 then Some 62 else if n = 47 then Some 63 else None)"

fun b64_groups :: "nat list \<Rightarrow> string option" where
  "b64_groups [] = Some []"
| "b64_groups [a] = None"
| "b64_groups [a, b] = Some [byte (a * 4 + b div 16)]"
| "b64_groups [a, b, c] = Some [byte (a * 4 + b div 16), byte (b mod 16 * 16 + c div 4)]"
| "b64_groups (a # b # c # d # r) =
     map_option (\<lambda>t. byte (a * 4 + b div 16) # byte (b mod 16 * 16 + c div 4) # byte (c mod 4 * 64 + d) # t)
       (b64_groups r)"

fun b64_values :: "string \<Rightarrow> nat list option" where
  "b64_values [] = Some []"
| "b64_values (c # s) =
     (if c = CHR 0x0A \<or> c = CHR 0x0D then b64_values s
      else Option.bind (b64_value c) (\<lambda>v. map_option ((#) v) (b64_values s)))"

definition RawStdEncoding_DecodeString :: "string \<Rightarrow> string option" where
  "RawStdEncoding_DecodeString s = Option.bind (b64_values s) b64_groups"

section \<open>The code\<close>

record Claims =
  iat :: int

definition decode_claims :: "Claims decoder" where
  "decode_claims = decode_struct [''iat''] (\<lambda>f j c.
     case decode_int64 j (iat c) of (x, ok) \<Rightarrow> (c\<lparr>iat := x\<rparr>, ok))"

definition IssuedAt :: "string \<Rightarrow> int option" where
  \<comment> \<open>seconds since the epoch; \<open>None\<close> is any of the three errors\<close>
  "IssuedAt token =
     (let parts = split_on CHR ''.'' token
      in if length parts \<noteq> 3 then None
         else Option.bind (RawStdEncoding_DecodeString (parts ! 1)) (\<lambda>bytes.
           map_option iat (Unmarshal_bytes decode_claims \<lparr>iat = 0\<rparr> bytes)))"

section \<open>Encoding, and the round trip\<close>

definition b64_digit :: "nat \<Rightarrow> char" where
  "b64_digit v =
     (if v < 26 then byte (v + 65) else if v < 52 then byte (v + 71) else if v < 62 then byte (v - 4)
      else if v = 62 then CHR ''+'' else CHR ''/'')"

fun b64_encode :: "string \<Rightarrow> string" where
  "b64_encode [] = []"
| "b64_encode [x] = (let a = of_char x :: nat in map b64_digit [a div 4, a mod 4 * 16])"
| "b64_encode [x, y] = (let a = of_char x :: nat; b = of_char y :: nat
     in map b64_digit [a div 4, a mod 4 * 16 + b div 16, b mod 16 * 4])"
| "b64_encode (x # y # z # r) = (let a = of_char x :: nat; b = of_char y :: nat; c = of_char z :: nat
     in map b64_digit [a div 4, a mod 4 * 16 + b div 16, b mod 16 * 4 + c div 64, c mod 64] @ b64_encode r)"

lemma of_char_byte [simp]: "n < 256 \<Longrightarrow> (of_char (byte n) :: nat) = n"
  by (simp add: byte_def)

lemma byte_of_char [simp]: "byte (of_char c) = c"
  by (simp add: byte_def)

lemma b64_value_digit: "v < 64 \<Longrightarrow> b64_value (b64_digit v) = Some v"
  by (auto simp: b64_digit_def b64_value_def Let_def)

lemma b64_digit_class: "v < 64 \<Longrightarrow> b64_digit v \<noteq> CHR 0x0A \<and> b64_digit v \<noteq> CHR 0x0D \<and> b64_digit v \<noteq> CHR ''.''"
proof -
  assume "v < 64"
  then have "(of_char (b64_digit v) :: nat) \<notin> {10, 13, 46}" by (auto simp: b64_digit_def)
  then show ?thesis by auto
qed

lemma b64_values_digits: "\<forall>v\<in>set vs. v < 64 \<Longrightarrow> b64_values (map b64_digit vs @ s) = map_option ((@) vs) (b64_values s)"
proof (induction vs)
  case Nil
  show ?case by (cases "b64_values s") simp_all
next
  case (Cons v vs)
  then show ?case by (cases "b64_values s") (simp_all add: b64_value_digit b64_digit_class)
qed

text \<open>The 6-bit values of a string, and that they spell it.\<close>

fun b64_split :: "string \<Rightarrow> nat list" where
  "b64_split [] = []"
| "b64_split [x] = [of_char x div 4, of_char x mod 4 * 16]"
| "b64_split [x, y] = [of_char x div 4, of_char x mod 4 * 16 + of_char y div 16, of_char y mod 16 * 4]"
| "b64_split (x # y # z # r) = [of_char x div 4, of_char x mod 4 * 16 + of_char y div 16,
     of_char y mod 16 * 4 + of_char z div 64, of_char z mod 64] @ b64_split r"

lemma b64_encode_split: "b64_encode s = map b64_digit (b64_split s)"
  by (induction s rule: b64_encode.induct) (simp_all add: Let_def)

lemma b64_arith:
  fixes x y z :: char
  defines "a \<equiv> of_char x :: nat" and "b \<equiv> of_char y :: nat" and "c \<equiv> of_char z :: nat"
  shows "a div 4 < 64" "a mod 4 * 16 < 64" "a mod 4 * 16 + b div 16 < 64" "b mod 16 * 4 < 64"
    "b mod 16 * 4 + c div 64 < 64" "c mod 64 < 64"
    "a div 4 * 4 + (a mod 4 * 16) div 16 = a"
    "a div 4 * 4 + (a mod 4 * 16 + b div 16) div 16 = a"
    "(a mod 4 * 16 + b div 16) mod 16 * 16 + (b mod 16 * 4) div 4 = b"
    "(a mod 4 * 16 + b div 16) mod 16 * 16 + (b mod 16 * 4 + c div 64) div 4 = b"
    "(b mod 16 * 4 + c div 64) mod 4 * 64 + c mod 64 = c"
proof -
  have lt: "a < 256" "b < 256" "c < 256" by (simp_all add: a_def b_def c_def)
  then have d: "b div 16 < 16" "c div 64 < 4" by auto
  show "a div 4 < 64" "c mod 64 < 64" using lt by auto
  show "a mod 4 * 16 < 64" using mod_less_divisor [of 4 a] by linarith
  show "b mod 16 * 4 < 64" using mod_less_divisor [of 16 b] by linarith
  show "a mod 4 * 16 + b div 16 < 64" using d mod_less_divisor [of 4 a] by linarith
  show "b mod 16 * 4 + c div 64 < 64" using d mod_less_divisor [of 16 b] by linarith
  show "a div 4 * 4 + (a mod 4 * 16) div 16 = a" by simp
  show "a div 4 * 4 + (a mod 4 * 16 + b div 16) div 16 = a"
    using d by (simp add: div_add1_eq)
  show "(a mod 4 * 16 + b div 16) mod 16 * 16 + (b mod 16 * 4) div 4 = b"
    using d by simp
  show "(a mod 4 * 16 + b div 16) mod 16 * 16 + (b mod 16 * 4 + c div 64) div 4 = b"
    using d by simp
  show "(b mod 16 * 4 + c div 64) mod 4 * 64 + c mod 64 = c"
    using d by simp
qed

lemma b64_split_bound: "\<forall>v\<in>set (b64_split s). v < 64"
  by (induction s rule: b64_split.induct) (simp_all add: b64_arith(1-6))

lemma b64_groups_split: "b64_groups (b64_split s) = Some s"
proof (induction s rule: b64_split.induct)
  case (4 x y z r)
  then show ?case
    by (simp only: b64_split.simps b64_groups.simps b64_arith append.simps byte_of_char option.map)
qed (simp_all only: b64_split.simps b64_groups.simps b64_arith byte_of_char)

lemma decode_encode: "RawStdEncoding_DecodeString (b64_encode s) = Some s"
  using b64_values_digits [of "b64_split s" "[]"] b64_split_bound
  by (simp add: RawStdEncoding_DecodeString_def b64_encode_split b64_groups_split)

section \<open>Tokens\<close>

lemma split_on_parts:
  "sep \<notin> set a \<Longrightarrow> split_on sep (a @ sep # s) = a # split_on sep s"
  "sep \<notin> set a \<Longrightarrow> split_on sep a = [a]"
  by (induction a) auto

lemma no_dot_encode: "CHR ''.'' \<notin> set (b64_encode s)"
  using b64_split_bound [of s] b64_digit_class by (fastforce simp: b64_encode_split)

lemma ParseInt64_itoa:
  assumes "- (2 ^ 63) \<le> i" "i < 2 ^ 63"
  shows "ParseInt64 (itoa i) = Some i"
proof -
  obtain c cs where c: "dec (nat i) = c # cs" "is_digit c" using dec_head [of "nat i"] by blast
  then have "c \<noteq> CHR ''-''" "c \<noteq> CHR ''+''" by (auto simp: is_digit_def)
  with c assms show ?thesis
    using dec_digits [of "nat i"] dec_value_dec [of "nat i"]
    by (auto simp: ParseInt64_def itoa_def Let_def)
qed

lemma match_iat [simp]: "match_field [''iat''] ''iat'' = Some ''iat''"
  by (simp add: match_field_def)

text \<open>
  C32: \<open>IssuedAt\<close> reads the claim back: for every 64-bit issue time, and whatever the (dot-free)
  header and signature are, the token whose payload is the unpadded standard base64 of
  \<open>{"iat":<time>}\<close> is issued at that time.
\<close>

theorem IssuedAt_encoded:
  assumes "- (2 ^ 63) \<le> i" "i < 2 ^ 63" "CHR ''.'' \<notin> set h" "CHR ''.'' \<notin> set s"
  shows "IssuedAt (h @ ''.'' @ b64_encode (json_print (JObj [(''iat'', JNum (itoa i))])) @ ''.'' @ s) = Some i"
proof -
  let ?p = "json_print (JObj [(''iat'', JNum (itoa i))])"
  have parts: "split_on CHR ''.'' (h @ ''.'' @ b64_encode ?p @ ''.'' @ s) = [h, b64_encode ?p, s]"
    using assms(3,4) no_dot_encode by (simp add: split_on_parts)
  have "json_parse ?p = Some (JObj [(''iat'', JNum (itoa i))])"
    by (rule json_parse_print) (simp add: plain_def plain_char_def maxNestingDepth_def itoa_def)
  then have "Unmarshal_bytes decode_claims \<lparr>iat = 0\<rparr> ?p = Some \<lparr>iat = i\<rparr>"
    using assms(1,2) by (simp add: Unmarshal_bytes_def Unmarshal_raw_def decode_claims_def ParseInt64_itoa)
  with parts show ?thesis
    by (simp add: IssuedAt_def Let_def decode_encode del: json_print.simps)
qed

theorem IssuedAt_encoded_witness:
  "IssuedAt (''h'' @ ''.'' @ b64_encode (json_print (JObj [(''iat'', JNum (itoa 1700000000))])) @ ''.'' @ ''s'')
     = Some 1700000000"
  by (rule IssuedAt_encoded) simp_all

text \<open>
  C37: A token whose payload is written in the URL-safe alphabet that JWT prescribes (RFC 7515),
  with a \<open>-\<close> or a \<open>_\<close> in it, is rejected: no issue time is read from it.
\<close>

theorem IssuedAt_url_safe_rejected:
  assumes "token = h @ ''.'' @ payload @ ''.'' @ s"
    and "CHR ''.'' \<notin> set h" "CHR ''.'' \<notin> set payload"
    and "CHR ''-'' \<in> set payload \<or> CHR ''_'' \<in> set payload"
  shows "IssuedAt token = None"
proof (cases "length (split_on CHR ''.'' token) = 3")
  case True
  have "b64_values p = None" if "CHR ''-'' \<in> set p \<or> CHR ''_'' \<in> set p" for p
    using that by (induction p) (auto simp: b64_value_def)
  with assms(4) have "RawStdEncoding_DecodeString payload = None"
    by (simp add: RawStdEncoding_DecodeString_def)
  moreover have "split_on CHR ''.'' token ! 1 = payload"
    using assms(2,3) by (simp add: assms(1) split_on_parts)
  ultimately show ?thesis by (simp add: IssuedAt_def Let_def)
qed (simp add: IssuedAt_def)

theorem IssuedAt_url_safe_rejected_witness: "IssuedAt ''eyJh.eyJpYXQiOjF9-_.c2ln'' = None"
  by (rule IssuedAt_url_safe_rejected [of _ "''eyJh''" "''eyJpYXQiOjF9-_''" "''c2ln''"]) simp_all

end
