(* ===== verification/Authrpc.thy ===== *)
theory Authrpc
  imports Triaged Jwt
begin

text \<open>
  \<open>proxy/authrpc.go\<close>: the triage of engine API calls, and the set of fork choices already seen
  with which repeated \<open>engine_forkchoiceUpdated\<close> calls without payload are answered by the proxy
  itself. Instants and durations are nanoseconds; \<open>now\<close> is the clock, an input of each step. The
  metrics a step emits are part of its result. The lock makes each step atomic.
\<close>

section \<open>The code\<close>

record Authrpc =
  deduplicateFCUs :: bool
  mirrorGetPayload :: bool
  seenHeads :: "string \<rightharpoonup> int"

definition NewAuthrpc :: "bool \<Rightarrow> bool \<Rightarrow> Authrpc" where
  "NewAuthrpc dedup mirror_get_payload =
     \<lparr>deduplicateFCUs = dedup, mirrorGetPayload = mirror_get_payload, seenHeads = (\<lambda>k. None)\<rparr>"

definition second :: int where
  "second = 10 ^ 9"

text \<open>One tick of the ticker of \<open>run\<close>.\<close>

definition prune :: "int \<Rightarrow> Authrpc \<Rightarrow> Authrpc" where
  "prune now p = p\<lparr>seenHeads := (\<lambda>key. case seenHeads p key of
       None \<Rightarrow> None | Some ts \<Rightarrow> if now - ts > 30 * second then None else Some ts)\<rparr>"

definition seen_key :: "string \<Rightarrow> string \<Rightarrow> string \<Rightarrow> string" where
  "seen_key h s f = h @ ''/'' @ s @ ''/'' @ f"

definition alreadySeen :: "int \<Rightarrow> string \<Rightarrow> string \<Rightarrow> string \<Rightarrow> Authrpc \<Rightarrow> bool \<times> Authrpc" where
  "alreadySeen now h s f p =
     (let key = seen_key h s f
      in if seenHeads p key \<noteq> None then (True, p)
         else (False, p\<lparr>seenHeads := (seenHeads p)(key \<mapsto> now)\<rparr>))"

definition interceptEngineForkchoiceUpdatedV3 :: "Call \<Rightarrow> string \<Rightarrow> Response" where
  "interceptEngineForkchoiceUpdatedV3 call hash =
     AcquireResponse\<lparr>StatusCode := 200, Headers := [json_content],
       Body := jrpc_body (GetID call)
         (''\"result\":{\"payloadStatus\":{\"status\":\"VALID\",\"latestValidHash\":\"'' @ hash @ ''\"}}'')\<rparr>"

datatype authrpc_metric =
    LatencyAuthrpcJwt int \<comment> \<open>milliseconds since the token was issued\<close>
  | LateFCUCount

text \<open>A \<open>time.Duration\<close> saturates at 64 bits, and \<open>Milliseconds\<close> truncates toward zero.\<close>

definition saturate :: "int \<Rightarrow> int" where
  "saturate d = max (- (2 ^ 63)) (min d (2 ^ 63 - 1))"

text \<open>
  A \<open>time.Time\<close> counts its seconds from the year 1, in 64 bits: \<open>time.Unix(s, 0)\<close> wraps for \<open>s\<close> close
  to \<open>2^63\<close>. The seconds of the time it is, counted from 1970 again:
\<close>

definition unix_time :: "int \<Rightarrow> int" where
  "unix_time s = wrap64 (s + 62135596800) - 62135596800"

definition Milliseconds :: "int \<Rightarrow> int" where
  "Milliseconds d = sgn d * (abs d div 10 ^ 6)"

definition jwt_metrics :: "int \<Rightarrow> string \<Rightarrow> authrpc_metric list" where
  "jwt_metrics now authorization =
     (let token = TrimPrefix authorization ''Bearer ''
      in if token = [] then []
         else (case IssuedAt token of
             Some t \<Rightarrow> [LatencyAuthrpcJwt (Milliseconds (saturate (now - unix_time t * second)))]
           | None \<Rightarrow> []))"

definition zero_state :: ForkchoiceState where
  "zero_state = \<lparr>HeadBlockHash = [], SafeBlockHash = [], FinalizedBlockHash = []\<rparr>"

definition zero_attributes :: PayloadAttributes where
  "zero_attributes = \<lparr>pa_Timestamp = []\<rparr>"

text \<open>The case of two parameters: with payload attributes.\<close>

definition triage_withPayload :: "int \<Rightarrow> Call \<Rightarrow> json option \<Rightarrow> Request \<times> authrpc_metric list" where
  "triage_withPayload now call param =
     (let t = zero_Request\<lparr>Proxy := True, Prioritise := True, Mirror := True,
                JrpcID := GetID call, JrpcMethod := GetMethod call @ ''_withPayload''\<rparr>
      in case Unmarshal_raw decode_attributes zero_attributes param of
           Some pa \<Rightarrow>
             (case GetTimestamp pa of
                Some ts \<Rightarrow> (t\<lparr>Deadline := Some ts\<rparr>,
                  if saturate (unix_time ts * second - now) < 200 * 10 ^ 6 then [LateFCUCount] else [])
              | None \<Rightarrow> (t, []))
         | None \<Rightarrow> (t, []))"

definition triage_fcu :: "int \<Rightarrow> string \<Rightarrow> Call \<Rightarrow> Authrpc \<Rightarrow> (Request \<times> Response \<times> authrpc_metric list \<times> Authrpc) go" where
  "triage_fcu now body call p =
     (let plain_fcu = zero_Request\<lparr>Proxy := True, Mirror := True, JrpcID := GetID call, JrpcMethod := GetMethod call\<rparr>
      in case Unmarshal_bytes decode_fcu \<lparr>fcu_Params = []\<rparr> body of
           None \<Rightarrow> Ret (plain_fcu, AcquireResponse, [], p)
         | Some fcuv3 \<Rightarrow>
             if ParamsCount fcuv3 = 2 then
               go_bind (slice_get (fcu_Params fcuv3) 1) (\<lambda>param.
                 case triage_withPayload now call param of (t, ms) \<Rightarrow> Ret (t, AcquireResponse, ms, p))
             else if ParamsCount fcuv3 = 1 \<and> deduplicateFCUs p then
               go_bind (slice_get (fcu_Params fcuv3) 0) (\<lambda>param.
                 case Unmarshal_raw decode_state zero_state param of
                   None \<Rightarrow> Ret (plain_fcu, AcquireResponse, [], p)
                 | Some fs \<Rightarrow>
                     (case GetHashes fs of (h, s, f) \<Rightarrow>
                      case alreadySeen now h s f p of (seen, p1) \<Rightarrow>
                        if seen then
                          Ret (zero_Request\<lparr>JrpcID := GetID call, JrpcMethod := GetMethod call\<rparr>,
                               interceptEngineForkchoiceUpdatedV3 call h, [], p1)
                        else Ret (plain_fcu, AcquireResponse, [], p1)))
             else Ret (plain_fcu, AcquireResponse, [], p))"

definition Authrpc_triage :: "int \<Rightarrow> string \<Rightarrow> string \<Rightarrow> Authrpc \<Rightarrow> (Request \<times> Response \<times> authrpc_metric list \<times> Authrpc) go" where
  "Authrpc_triage now authorization body p =
     go_map (\<lambda>(t, res, ms, p1). (t, res, jwt_metrics now authorization @ ms, p1))
       (case Unmarshal body of
          None \<Rightarrow> Ret (zero_Request\<lparr>Proxy := True, JrpcMethod := ''unknown''\<rparr>, AcquireResponse, [], p)
        | Some call \<Rightarrow>
            let named = zero_Request\<lparr>Proxy := True, JrpcID := GetID call, JrpcMethod := GetMethod call\<rparr>;
                m = GetMethod call
            in if HasPrefix m ''engine_getPayload'' then
                 Ret (named\<lparr>Prioritise := True, Mirror := mirrorGetPayload p\<rparr>, AcquireResponse, [], p)
               else if HasPrefix m ''engine_newPayload'' then
                 Ret (named\<lparr>Prioritise := True, Mirror := True\<rparr>, AcquireResponse, [], p)
               else if HasPrefix m ''miner_setMaxDASize'' then
                 Ret (named\<lparr>Mirror := True\<rparr>, AcquireResponse, [], p)
               else if HasPrefix m ''engine_forkchoiceUpdated'' then triage_fcu now body call p
               else Ret (named, AcquireResponse, [], p))"

section \<open>Triage never panics, and what it may decide\<close>

lemma ParamsCount_le: "ParamsCount f \<le> int (length (fcu_Params f))"
  by (simp add: ParamsCount_def)

text \<open>The hashes of a fork choice update without payload that is looked up among those seen.\<close>

definition fcu_hashes :: "string \<Rightarrow> (string \<times> string \<times> string) option" where
  "fcu_hashes body =
     (case Unmarshal body of
        None \<Rightarrow> None
      | Some call \<Rightarrow>
          if HasPrefix (GetMethod call) ''engine_forkchoiceUpdated'' then
            (case Unmarshal_bytes decode_fcu \<lparr>fcu_Params = []\<rparr> body of
               None \<Rightarrow> None
             | Some fcu \<Rightarrow>
                 if ParamsCount fcu = 1
                 then map_option GetHashes (Unmarshal_raw decode_state zero_state (hd (fcu_Params fcu)))
                 else None)
          else None)"

definition dedup_hashes :: "Authrpc \<Rightarrow> string \<Rightarrow> (string \<times> string \<times> string) option" where
  "dedup_hashes p body = (if deduplicateFCUs p then fcu_hashes body else None)"

text \<open>What one triage does, by whether it looks a fork choice up.\<close>

definition triage_outcome :: "int \<Rightarrow> Authrpc \<Rightarrow> string \<Rightarrow> Request \<times> Response \<times> authrpc_metric list \<times> Authrpc \<Rightarrow> bool" where
  "triage_outcome now p body out = (case out of (t, res, ms, p') \<Rightarrow>
     (case dedup_hashes p body of
        None \<Rightarrow> Proxy t \<and> res = AcquireResponse \<and> p' = p
      | Some (h, s, f) \<Rightarrow>
          if seenHeads p (seen_key h s f) \<noteq> None then
            \<not> Proxy t \<and> \<not> Mirror t \<and> p' = p \<and>
            (\<exists>call. Unmarshal body = Some call \<and> res = interceptEngineForkchoiceUpdatedV3 call h)
          else Proxy t \<and> Mirror t \<and> res = AcquireResponse \<and>
            p' = p\<lparr>seenHeads := (seenHeads p)(seen_key h s f \<mapsto> now)\<rparr>))"

lemma triage_fcu_outcome:
  assumes "Unmarshal body = Some call" "HasPrefix (GetMethod call) ''engine_forkchoiceUpdated''"
  shows "\<exists>out. triage_fcu now body call p = Ret out \<and> triage_outcome now p body out"
proof (cases "Unmarshal_bytes decode_fcu \<lparr>fcu_Params = []\<rparr> body")
  case None
  then have "dedup_hashes p body = None" using assms by (simp add: dedup_hashes_def fcu_hashes_def)
  then show ?thesis using None by (simp add: triage_fcu_def triage_outcome_def)
next
  case (Some fcu)
  consider "ParamsCount fcu = 2" | "ParamsCount fcu = 1" "deduplicateFCUs p"
    | "ParamsCount fcu \<noteq> 2" "\<not> (ParamsCount fcu = 1 \<and> deduplicateFCUs p)" by blast
  then show ?thesis
  proof cases
    case 1
    then have "dedup_hashes p body = None"
      using assms Some by (simp add: dedup_hashes_def fcu_hashes_def)
    moreover have "slice_get (fcu_Params fcu) 1 = Ret (fcu_Params fcu ! 1)"
      using 1 ParamsCount_le [of fcu] by (simp add: slice_get_def)
    moreover obtain t ms where t: "triage_withPayload now call (fcu_Params fcu ! 1) = (t, ms)"
      by (cases "triage_withPayload now call (fcu_Params fcu ! 1)")
    moreover have "Proxy t" using t by (auto simp: triage_withPayload_def Let_def split: option.splits)
    ultimately show ?thesis using 1 Some by (simp add: triage_fcu_def triage_outcome_def)
  next
    case 2
    then have len: "fcu_Params fcu \<noteq> []" using ParamsCount_le [of fcu] by auto
    then have get: "slice_get (fcu_Params fcu) 0 = Ret (hd (fcu_Params fcu))"
      by (simp add: slice_get_def hd_conv_nth)
    show ?thesis
    proof (cases "Unmarshal_raw decode_state zero_state (hd (fcu_Params fcu))")
      case None
      with 2 Some assms have "dedup_hashes p body = None" by (simp add: dedup_hashes_def fcu_hashes_def)
      with None 2 Some get show ?thesis by (simp add: triage_fcu_def triage_outcome_def)
    next
      case fs: (Some fs)
      obtain h s f where h: "GetHashes fs = (h, s, f)" by (cases "GetHashes fs")
      with fs 2 Some assms have "dedup_hashes p body = Some (h, s, f)"
        by (simp add: dedup_hashes_def fcu_hashes_def)
      with h fs 2 Some get assms show ?thesis
        by (auto simp: triage_fcu_def triage_outcome_def alreadySeen_def Let_def)
    qed
  next
    case 3
    then have "dedup_hashes p body = None"
      using assms Some by (auto simp: dedup_hashes_def fcu_hashes_def)
    then show ?thesis using 3 Some
      by (cases "ParamsCount fcu = 1") (simp_all add: triage_fcu_def triage_outcome_def Let_def)
  qed
qed

lemma HasPrefix_disjoint:
  "HasPrefix m (c # a) \<Longrightarrow> HasPrefix m (d # b) \<Longrightarrow> c \<noteq> d \<Longrightarrow> False"
  by (auto simp: HasPrefix_iff)

lemma Authrpc_triage_outcome:
  "\<exists>out. Authrpc_triage now auth body p = Ret out \<and> triage_outcome now p body out"
proof (cases "Unmarshal body")
  case None
  then show ?thesis
    by (simp add: Authrpc_triage_def triage_outcome_def dedup_hashes_def fcu_hashes_def)
next
  case (Some call)
  let ?m = "GetMethod call"
  show ?thesis
  proof (cases "HasPrefix ?m ''engine_forkchoiceUpdated''")
    case True
    then have other: "\<not> HasPrefix ?m ''engine_getPayload''" "\<not> HasPrefix ?m ''engine_newPayload''"
        "\<not> HasPrefix ?m ''miner_setMaxDASize''"
      by (auto simp: HasPrefix_iff)
    obtain t res ms p' where out: "triage_fcu now body call p = Ret (t, res, ms, p')"
        "triage_outcome now p body (t, res, ms, p')"
      using triage_fcu_outcome [OF Some True, of now p] by (metis prod_cases4)
    then show ?thesis using Some True other by (simp add: Authrpc_triage_def triage_outcome_def)
  next
    case False
    then have "dedup_hashes p body = None" using Some by (simp add: dedup_hashes_def fcu_hashes_def)
    then show ?thesis using False Some by (auto simp: Authrpc_triage_def triage_outcome_def Let_def)
  qed
qed

text \<open>
  C22: Triage of any body at any time returns (no index is out of range), and the request is
  answered by the proxy itself exactly when deduplication is on and the body is a fork choice
  update without payload whose hashes are among those seen; such a request is not mirrored, and
  its answer carries the call's id and head. Every other request is proxied with a fresh
  response, and a fork choice looked up and not found is recorded with the present time.
\<close>

theorem Authrpc_triage_decides:
  "\<exists>t res ms p'. Authrpc_triage now auth body p = Ret (t, res, ms, p') \<and>
     (case dedup_hashes p body of
        None \<Rightarrow> Proxy t \<and> res = AcquireResponse \<and> p' = p
      | Some (h, s, f) \<Rightarrow>
          if seenHeads p (seen_key h s f) \<noteq> None then
            \<not> Proxy t \<and> \<not> Mirror t \<and> p' = p \<and>
            (\<exists>call. Unmarshal body = Some call \<and> res = interceptEngineForkchoiceUpdatedV3 call h)
          else Proxy t \<and> Mirror t \<and> res = AcquireResponse \<and>
            p' = p\<lparr>seenHeads := (seenHeads p)(seen_key h s f \<mapsto> now)\<rparr>)"
proof -
  obtain t res ms p' where "Authrpc_triage now auth body p = Ret (t, res, ms, p')"
      "triage_outcome now p body (t, res, ms, p')"
    using Authrpc_triage_outcome [of now auth body p] by (metis prod_cases4)
  then show ?thesis by (auto simp: triage_outcome_def)
qed

section \<open>The set of seen fork choices over time\<close>

datatype auth_event = Triage int string string | Tick int

fun auth_step :: "auth_event \<Rightarrow> Authrpc \<Rightarrow> Authrpc go" where
  "auth_step (Triage now auth body) p = go_map (\<lambda>(t, res, ms, p'). p') (Authrpc_triage now auth body p)"
| "auth_step (Tick now) p = Ret (prune now p)"

fun auth_run :: "auth_event list \<Rightarrow> Authrpc \<Rightarrow> Authrpc go" where
  "auth_run [] p = Ret p"
| "auth_run (e # es) p = go_bind (auth_step e p) (auth_run es)"

lemma auth_run_append: "auth_run (es @ es') p = go_bind (auth_run es p) (auth_run es')"
proof (induction es arbitrary: p)
  case (Cons e es)
  then have "auth_run (es @ es') = (\<lambda>p. go_bind (auth_run es p) (auth_run es'))" by (rule ext)
  then show ?case by (simp add: go_bind_assoc)
qed simp

lemma auth_step_Triage:
  "\<exists>p'. auth_step (Triage now auth body) p = Ret p' \<and> deduplicateFCUs p' = deduplicateFCUs p \<and>
     seenHeads p' = (case dedup_hashes p body of None \<Rightarrow> seenHeads p
       | Some (h, s, f) \<Rightarrow> if seenHeads p (seen_key h s f) \<noteq> None then seenHeads p
                           else (seenHeads p)(seen_key h s f \<mapsto> now))"
  using Authrpc_triage_outcome [of now auth body p]
  by (auto simp: triage_outcome_def split: option.splits prod.splits if_splits)

lemma prune_seen:
  "seenHeads (prune now p) key = Some ts \<longleftrightarrow> seenHeads p key = Some ts \<and> now - ts \<le> 30 * second"
  by (auto simp: prune_def split: option.splits)

lemma auth_step_dedup: "auth_step e p = Ret p' \<Longrightarrow> deduplicateFCUs p' = deduplicateFCUs p"
proof (cases e)
  case (Triage now auth body)
  then show "auth_step e p = Ret p' \<Longrightarrow> deduplicateFCUs p' = deduplicateFCUs p"
    using auth_step_Triage [of now auth body p] by auto
qed (auto simp: prune_def)

lemma auth_run_dedup: "auth_run es p = Ret p' \<Longrightarrow> deduplicateFCUs p' = deduplicateFCUs p"
  by (induction es arbitrary: p) (auto simp: go_bind_Ret_iff dest: auth_step_dedup)

lemma auth_run_total: "\<exists>p'. auth_run es p = Ret p'"
proof (induction es arbitrary: p)
  case (Cons e es)
  have "\<exists>p1. auth_step e p = Ret p1" using auth_step_Triage by (cases e) fastforce+
  with Cons show ?case by fastforce
qed simp

text \<open>Event \<open>i\<close> of a history sighted the key, and every later tick was within 30 s of it.\<close>

definition sighting :: "auth_event list \<Rightarrow> nat \<Rightarrow> string \<Rightarrow> int \<Rightarrow> bool" where
  "sighting es i key ts \<longleftrightarrow> i < length es \<and>
     (\<exists>auth body h s f. es ! i = Triage ts auth body \<and> fcu_hashes body = Some (h, s, f) \<and> key = seen_key h s f) \<and>
     (\<forall>j now. i < j \<and> j < length es \<and> es ! j = Tick now \<longrightarrow> now - ts \<le> 30 * second)"

lemma sighting_snoc:
  assumes "sighting es i key ts" "\<And>now. e = Tick now \<Longrightarrow> now - ts \<le> 30 * second"
  shows "sighting (es @ [e]) i key ts"
  using assms by (auto simp: sighting_def nth_append less_Suc_eq)

lemma seen_was_sighted:
  "auth_run es (NewAuthrpc dedup mg) = Ret p \<Longrightarrow> seenHeads p key = Some ts \<Longrightarrow> \<exists>i. sighting es i key ts"
proof (induction es arbitrary: p key ts rule: rev_induct)
  case Nil
  then show ?case by (auto simp: NewAuthrpc_def)
next
  case (snoc e es)
  obtain p0 where p0: "auth_run es (NewAuthrpc dedup mg) = Ret p0" using auth_run_total by blast
  with snoc.prems(1) have step: "auth_step e p0 = Ret p" by (simp add: auth_run_append go_bind_Ret_iff)
  show ?case
  proof (cases e)
    case (Tick now)
    with step snoc.prems(2) have "seenHeads p0 key = Some ts" "now - ts \<le> 30 * second"
      by (auto simp: prune_seen)
    with snoc.IH [OF p0] Tick show ?thesis by (blast intro: sighting_snoc)
  next
    case (Triage now auth body)
    show ?thesis
    proof (cases "seenHeads p0 key")
      case None
      with step snoc.prems(2) auth_step_Triage [of now auth body p0] Triage
      obtain h s f where "dedup_hashes p0 body = Some (h, s, f)" "key = seen_key h s f" "ts = now"
        by (auto split: option.splits if_splits)
      then have "sighting (es @ [e]) (length es) key ts"
        using Triage by (auto simp: sighting_def dedup_hashes_def split: if_splits)
      then show ?thesis by blast
    next
      case (Some ts')
      with step snoc.prems(2) auth_step_Triage [of now auth body p0] Triage have "ts' = ts"
        by (auto split: option.splits if_splits)
      with Some snoc.IH [OF p0] Triage show ?thesis by (blast intro: sighting_snoc)
    qed
  qed
qed

text \<open>Three hashes without a slash are determined by their key.\<close>

lemma seen_key_inject:
  assumes "seen_key h s f = seen_key h' s' f'" "CHR ''/'' \<notin> set h \<union> set s \<union> set f"
  shows "h' = h \<and> s' = s \<and> f' = f"
proof -
  have "count_list (seen_key h s f) CHR ''/'' = 2"
    using assms(2) by (simp add: seen_key_def count_list_0_iff)
  moreover have "count_list (seen_key h' s' f') CHR ''/''
      = 2 + count_list h' CHR ''/'' + count_list s' CHR ''/'' + count_list f' CHR ''/''"
    by (simp add: seen_key_def)
  ultimately have free': "CHR ''/'' \<notin> set h' \<union> set s' \<union> set f'"
    using assms(1) by (simp add: count_list_0_iff)
  have split: "split_on CHR ''/'' (seen_key a b c) = [a, b, c]" if "CHR ''/'' \<notin> set a \<union> set b \<union> set c" for a b c
    using that by (simp add: seen_key_def split_on_parts)
  have "[h, s, f] = [h', s', f']"
    using split [OF assms(2)] split [OF free'] unfolding assms(1) by (rule trans [OF sym])
  then show ?thesis by simp
qed

text \<open>
  C6: A call is suppressed only as a repetition: if, after any history of requests and ticks, a
  request is not proxied, then some earlier request was a fork choice update without payload
  with the same key (with the same three hashes, if those have no slash in them), and no
  tick since came more than 30 seconds after it.
\<close>

theorem suppressed_only_if_repeated:
  assumes "auth_run es (NewAuthrpc dedup mg) = Ret p"
    and "Authrpc_triage now auth body p = Ret (t, res, ms, p')" and "\<not> Proxy t"
  shows "\<exists>h s f i ts auth0 body0. fcu_hashes body = Some (h, s, f) \<and> i < length es \<and>
    es ! i = Triage ts auth0 body0 \<and>
    (\<exists>h0 s0 f0. fcu_hashes body0 = Some (h0, s0, f0) \<and> seen_key h0 s0 f0 = seen_key h s f \<and>
       (CHR ''/'' \<notin> set h \<union> set s \<union> set f \<longrightarrow> (h0, s0, f0) = (h, s, f))) \<and>
    (\<forall>j tick. i < j \<and> j < length es \<and> es ! j = Tick tick \<longrightarrow> tick - ts \<le> 30 * second)"
proof -
  obtain h s f ts where seen: "fcu_hashes body = Some (h, s, f)" "seenHeads p (seen_key h s f) = Some ts"
    using Authrpc_triage_outcome [of now auth body p] assms(2,3)
    by (auto simp: triage_outcome_def dedup_hashes_def split: option.splits if_splits)
  obtain i where i: "sighting es i (seen_key h s f) ts"
    using seen_was_sighted [OF assms(1) seen(2)] by blast
  obtain auth0 body0 h0 s0 f0 where s0: "es ! i = Triage ts auth0 body0" "fcu_hashes body0 = Some (h0, s0, f0)"
      "seen_key h s f = seen_key h0 s0 f0"
    using i unfolding sighting_def by blast
  moreover have "CHR ''/'' \<notin> set h \<union> set s \<union> set f \<longrightarrow> (h0, s0, f0) = (h, s, f)"
    using seen_key_inject [OF s0(3)] by auto
  moreover have "i < length es"
      "\<forall>j tick. i < j \<and> j < length es \<and> es ! j = Tick tick \<longrightarrow> tick - ts \<le> 30 * second"
    using i unfolding sighting_def by blast+
  ultimately show ?thesis using seen(1) by metis
qed

definition demo_fcu :: "string \<Rightarrow> json" where
  "demo_fcu head = JObj [(''id'', JNum ''1''), (''method'', JStr ''engine_forkchoiceUpdatedV3''),
     (''params'', JArr [JObj [(''headBlockHash'', JStr head), (''safeBlockHash'', JStr ''0xb''),
       (''finalizedBlockHash'', JStr ''0xc'')], JNull])]"

lemma match_fcu_fields:
  "match_field [''params''] ''id'' = None" "match_field [''params''] ''method'' = None"
  "match_field [''params''] ''params'' = Some ''params''"
proof -
  have "length (fold_name ''id'') = 2" "length (fold_name ''params'') = 6"
    by (simp_all add: length_fold_name)
  moreover have "fold_name ''method'' \<noteq> fold_name ''params''"
    by (simp add: fold_name_ascii byte_def upper_def)
  ultimately show "match_field [''params''] ''id'' = None" "match_field [''params''] ''method'' = None"
    by (auto simp: match_field_def)
qed (simp add: match_field_def)

lemma demo_fcu_hashes:
  assumes "plain head"
  shows "fcu_hashes (json_print (demo_fcu head)) = Some (head, ''0xb'', ''0xc'')"
proof -
  have parse: "json_parse (json_print (demo_fcu head)) = Some (demo_fcu head)"
    by (rule json_parse_print)
      (simp add: demo_fcu_def assms plain_char_def maxNestingDepth_def int_literal_def int_digits_def is_digit_def)
  have "Unmarshal_raw decode_state zero_state (Some (JObj [(''headBlockHash'', JStr head),
      (''safeBlockHash'', JStr ''0xb''), (''finalizedBlockHash'', JStr ''0xc'')]))
    = Some \<lparr>HeadBlockHash = head, SafeBlockHash = ''0xb'', FinalizedBlockHash = ''0xc''\<rparr>"
    by (simp add: Unmarshal_raw_def decode_state_def match_field_def zero_state_def)
  moreover have "ParseUint64 ''1'' = Some 1" by (simp add: ParseUint64_def is_digit_def dec_value_def)
  then have "\<exists>c. Unmarshal (json_print (demo_fcu head)) = Some c \<and> GetMethod c = ''engine_forkchoiceUpdatedV3''"
    unfolding Unmarshal_def Unmarshal_bytes_def parse
    by (simp add: Unmarshal_raw_def demo_fcu_def decode_callUint64_def decode_raw_def)
  moreover have "Unmarshal_bytes decode_fcu \<lparr>fcu_Params = []\<rparr> (json_print (demo_fcu head))
    = Some \<lparr>fcu_Params = [Some (JObj [(''headBlockHash'', JStr head),
      (''safeBlockHash'', JStr ''0xb''), (''finalizedBlockHash'', JStr ''0xc'')]), Some JNull]\<rparr>"
    unfolding Unmarshal_bytes_def parse
    by (simp add: Unmarshal_raw_def demo_fcu_def decode_fcu_def decode_raw_def match_fcu_fields)
  ultimately show ?thesis
    by (auto simp: fcu_hashes_def ParamsCount_def HasPrefix_def GetHashes_def)
qed

theorem suppressed_only_if_repeated_witness:
  "\<exists>p t res ms p' i ts auth0 body0. auth_run [Triage 5 [] (json_print (demo_fcu ''0xa''))] (NewAuthrpc True False) = Ret p \<and>
     Authrpc_triage 7 [] (json_print (demo_fcu ''0xa'')) p = Ret (t, res, ms, p') \<and> \<not> Proxy t \<and>
     [Triage 5 [] (json_print (demo_fcu ''0xa''))] ! i = Triage ts auth0 body0 \<and> i < 1"
proof -
  let ?b = "json_print (demo_fcu ''0xa'')"
  have h: "fcu_hashes ?b = Some (''0xa'', ''0xb'', ''0xc'')"
    by (rule demo_fcu_hashes) (simp add: plain_char_def)
  obtain p where p: "auth_run [Triage 5 [] ?b] (NewAuthrpc True False) = Ret p" using auth_run_total by blast
  then have "seenHeads p (seen_key ''0xa'' ''0xb'' ''0xc'') \<noteq> None" "deduplicateFCUs p"
    using auth_step_Triage [of 5 "[]" ?b "NewAuthrpc True False"] auth_run_dedup [OF p] h
    by (auto simp: NewAuthrpc_def dedup_hashes_def)
  with h Authrpc_triage_outcome [of 7 "[]" ?b p]
  obtain t res ms p' where t: "Authrpc_triage 7 [] ?b p = Ret (t, res, ms, p')" "\<not> Proxy t"
    by (auto simp: triage_outcome_def dedup_hashes_def)
  from suppressed_only_if_repeated [OF p t] p t show ?thesis by auto
qed

text \<open>A recorded fork choice stays recorded until a tick.\<close>

lemma seen_without_ticks:
  "auth_run es p = Ret p' \<Longrightarrow> (\<And>now. Tick now \<notin> set es) \<Longrightarrow> seenHeads p key \<noteq> None \<Longrightarrow> seenHeads p' key \<noteq> None"
proof (induction es arbitrary: p)
  case (Cons e es)
  obtain now auth body where e: "e = Triage now auth body" using Cons.prems(2) by (cases e) auto
  obtain p1 where p1: "auth_step e p = Ret p1" "auth_run es p1 = Ret p'"
    using Cons.prems(1) by (auto simp: go_bind_Ret_iff)
  then have "seenHeads p1 key \<noteq> None"
    using Cons.prems(3) e auth_step_Triage [of now auth body p] by (auto split: option.splits if_splits)
  with Cons p1 show ?case by auto
qed simp

text \<open>
  C23: A repetition is suppressed: with deduplication on, once a fork choice update without
  payload has been triaged, and until the next tick, every further one with the same hashes is
  neither proxied nor mirrored but answered by the proxy.
\<close>

theorem repetition_is_suppressed:
  assumes "auth_run (es @ Triage ts auth0 body0 # es') (NewAuthrpc True mg) = Ret p"
    and "\<And>tick. Tick tick \<notin> set es'"
    and "fcu_hashes body0 = Some (h, s, f)" "fcu_hashes body = Some (h, s, f)"
  shows "\<exists>t ms call. Authrpc_triage now auth body p = Ret (t, interceptEngineForkchoiceUpdatedV3 call h, ms, p) \<and>
    Unmarshal body = Some call \<and> \<not> Proxy t \<and> \<not> Mirror t"
proof -
  obtain p1 where p1: "auth_run es (NewAuthrpc True mg) = Ret p1" using auth_run_total by blast
  with assms(1) obtain p2 where p2: "auth_step (Triage ts auth0 body0) p1 = Ret p2" "auth_run es' p2 = Ret p"
    by (auto simp: auth_run_append go_bind_Ret_iff simp del: auth_step.simps)
  have "deduplicateFCUs p1" using auth_run_dedup [OF p1] by (simp add: NewAuthrpc_def)
  then have "seenHeads p2 (seen_key h s f) \<noteq> None"
    using p2(1) auth_step_Triage [of ts auth0 body0 p1] assms(3)
    by (auto simp: dedup_hashes_def split: if_splits)
  then have "seenHeads p (seen_key h s f) \<noteq> None"
    by (rule seen_without_ticks [OF p2(2) assms(2)])
  moreover have "deduplicateFCUs p" using auth_run_dedup [OF assms(1)] by (simp add: NewAuthrpc_def)
  ultimately show ?thesis
    using Authrpc_triage_outcome [of now auth body p] assms(4)
    by (fastforce simp: triage_outcome_def dedup_hashes_def)
qed

theorem repetition_is_suppressed_witness:
  "\<exists>p t ms call. auth_run ([Tick 0] @ Triage 5 [] (json_print (demo_fcu ''0xa'')) # [])
       (NewAuthrpc True False) = Ret p \<and>
     Authrpc_triage 7 [] (json_print (demo_fcu ''0xa'')) p
       = Ret (t, interceptEngineForkchoiceUpdatedV3 call ''0xa'', ms, p) \<and> \<not> Proxy t"
proof -
  let ?b = "json_print (demo_fcu ''0xa'')"
  have h: "fcu_hashes ?b = Some (''0xa'', ''0xb'', ''0xc'')"
    by (rule demo_fcu_hashes) (simp add: plain_char_def)
  obtain p where p: "auth_run ([Tick 0] @ Triage 5 [] ?b # []) (NewAuthrpc True False) = Ret p"
    using auth_run_total by blast
  from repetition_is_suppressed [OF p _ h h, of 7 "[]"] p show ?thesis by auto
qed

text \<open>
  The answer to a suppressed call is well-formed JSON that says what it should: the call's
  id, the status VALID and the head of the fork choice, for any uint64 id or plain string id
  and any plain head.
\<close>

theorem intercepted_answer:
  assumes "id_ok call" "plain hash"
  shows "json_parse (Body (interceptEngineForkchoiceUpdatedV3 call hash))
    = Some (JObj [(''jsonrpc'', JStr ''2.0''), (''id'', id_json call), (''result'', JObj [(''payloadStatus'',
        JObj [(''status'', JStr ''VALID''), (''latestValidHash'', JStr hash)])])])"
proof -
  let ?v = "JObj [(''payloadStatus'', JObj [(''status'', JStr ''VALID''), (''latestValidHash'', JStr hash)])]"
  have "json_ok 1 ?v" using assms(2) by (simp add: plain_char_def maxNestingDepth_def)
  from json_parse_jrpc_body [OF assms(1) this, of "''result''"] show ?thesis
    by (simp add: interceptEngineForkchoiceUpdatedV3_def quoted_def plain_char_def)
qed

theorem intercepted_answer_witness:
  "json_parse (Body (interceptEngineForkchoiceUpdatedV3
       (CallUint64 \<lparr>u_ID = 3, u_Method = ''engine_forkchoiceUpdatedV3'', u_Params = None\<rparr>) ''0xa''))
    = Some (JObj [(''jsonrpc'', JStr ''2.0''), (''id'', JNum (dec 3)), (''result'', JObj [(''payloadStatus'',
        JObj [(''status'', JStr ''VALID''), (''latestValidHash'', JStr ''0xa'')])])])"
  using intercepted_answer [of "CallUint64 \<lparr>u_ID = 3, u_Method = ''engine_forkchoiceUpdatedV3'', u_Params = None\<rparr>" "''0xa''"]
  by (simp add: plain_char_def)

end
