(* ===== verification/Connections.thy ===== *)
theory Connections
  imports Healthcheck "HOL-Library.AList"
begin

text \<open>
  The client connections of \<open>proxy/http.go\<close>: the two maps from remote address to connection,
  the callback of the server on a connection's change of state, draining, and what the
  unhealthy callback does. A connection is a number; \<open>conn.Close\<close> is recorded in the state.
  The mutex makes every operation atomic, so executions are sequences of them.
\<close>

section \<open>The code\<close>

record HTTP_conns =
  connections :: "(string \<times> nat) list"
  drainingConnections :: "(string \<times> nat) list"
  closedByProxy :: "nat list"

definition no_conns :: HTTP_conns where
  "no_conns = \<lparr>connections = [], drainingConnections = [], closedByProxy = []\<rparr>"

datatype ConnState = StateNew | StateActive | StateIdle | StateHijacked | StateClosed

definition upstreamConnectionChanged :: "string \<Rightarrow> nat \<Rightarrow> ConnState \<Rightarrow> HTTP_conns \<Rightarrow> HTTP_conns" where
  "upstreamConnectionChanged addr conn state p =
     (case state of
        StateNew \<Rightarrow> p\<lparr>connections := AList.update addr conn (connections p)\<rparr>
      | StateActive \<Rightarrow> p
      | StateIdle \<Rightarrow>
          (case map_of (drainingConnections p) addr of
             None \<Rightarrow> p
           | Some _ \<Rightarrow> p\<lparr>drainingConnections := AList.delete addr (drainingConnections p),
                         closedByProxy := closedByProxy p @ [conn]\<rparr>)
      | StateHijacked \<Rightarrow> p\<lparr>connections := AList.delete addr (connections p),
                           drainingConnections := AList.delete addr (drainingConnections p)\<rparr>
      | StateClosed \<Rightarrow> p\<lparr>connections := AList.delete addr (connections p),
                         drainingConnections := AList.delete addr (drainingConnections p)\<rparr>)"

text \<open>The loop of \<open>ResetConnections\<close>; an address already draining is logged and overwritten.\<close>

definition ResetConnections :: "HTTP_conns \<Rightarrow> HTTP_conns" where
  "ResetConnections p = fold (\<lambda>(addr, conn) p.
      p\<lparr>drainingConnections := AList.update addr conn (drainingConnections p),
        connections := AList.delete addr (connections p)\<rparr>) (connections p) p"

definition connectionsCount :: "HTTP_conns \<Rightarrow> int" where
  "connectionsCount p = int (length (connections p))"

definition backendUnhealthy :: "HTTP_conns \<Rightarrow> HTTP_conns" where
  "backendUnhealthy p = (if connectionsCount p > 0 then ResetConnections p else p)"

text \<open>The test at the end of \<open>receive\<close>, by the remote IP: whether the response closes the connection.\<close>

definition marked_draining :: "string \<Rightarrow> HTTP_conns \<Rightarrow> bool" where
  "marked_draining ip p = (map_of (drainingConnections p) ip \<noteq> None)"

text \<open>The gauge \<open>FrontendConnectionsDrainingCount\<close> of \<open>Observe\<close>.\<close>

definition drainingCount :: "HTTP_conns \<Rightarrow> int" where
  "drainingCount p = int (length (drainingConnections p))"

section \<open>Resetting\<close>

lemma ResetConnections_eq:
  "connections (ResetConnections p) = []"
  "map_of (drainingConnections (ResetConnections p)) = map_of (drainingConnections p) ++ map_of (rev (connections p))"
  "closedByProxy (ResetConnections p) = closedByProxy p"
proof -
  let ?f = "\<lambda>(addr, conn) p :: HTTP_conns.
      p\<lparr>drainingConnections := AList.update addr conn (drainingConnections p),
        connections := AList.delete addr (connections p)\<rparr>"
  have dels: "connections (fold ?f cs p) = fold (\<lambda>(a, c). AList.delete a) cs (connections p)" for cs p
    by (induction cs arbitrary: p) (auto simp: case_prod_unfold)
  have "fold (\<lambda>(a, c). AList.delete a) cs xs = filter (\<lambda>(a, c). a \<notin> fst ` set cs) xs" for cs xs :: "(string \<times> nat) list"
    by (induction cs arbitrary: xs) (auto simp: AList.delete_eq case_prod_unfold intro: filter_cong)
  then show "connections (ResetConnections p) = []"
    by (auto simp: ResetConnections_def dels filter_empty_conv intro: rev_image_eqI)
  show "map_of (drainingConnections (ResetConnections p)) = map_of (drainingConnections p) ++ map_of (rev (connections p))"
  proof -
    have "map_of (drainingConnections (fold ?f cs p)) = map_of (drainingConnections p) ++ map_of (rev cs)" for cs p
      by (induction cs arbitrary: p) (auto simp: case_prod_unfold update_conv' map_add_upd_left fun_eq_iff map_add_def split: option.splits)
    then show ?thesis by (simp add: ResetConnections_def)
  qed
  have "closedByProxy (fold ?f cs p) = closedByProxy p" for cs p
    by (induction cs arbitrary: p) (auto simp: case_prod_unfold)
  then show "closedByProxy (ResetConnections p) = closedByProxy p" by (simp add: ResetConnections_def)
qed

lemma ResetConnections_distinct:
  "distinct (map fst (drainingConnections p)) \<Longrightarrow> distinct (map fst (drainingConnections (ResetConnections p)))"
proof -
  have "distinct (map fst (drainingConnections p)) \<Longrightarrow>
    distinct (map fst (drainingConnections (fold (\<lambda>(addr, conn) p :: HTTP_conns.
      p\<lparr>drainingConnections := AList.update addr conn (drainingConnections p),
        connections := AList.delete addr (connections p)\<rparr>) cs p)))" for cs p
    by (induction cs arbitrary: p) (auto simp: distinct_update)
  then show "distinct (map fst (drainingConnections p)) \<Longrightarrow> distinct (map fst (drainingConnections (ResetConnections p)))"
    by (simp add: ResetConnections_def)
qed

lemma backendUnhealthy_Reset: "backendUnhealthy p = ResetConnections p"
  by (auto simp: backendUnhealthy_def connectionsCount_def ResetConnections_def)

text \<open>The unhealthy callback of the HTTP proxy meets its contract.\<close>

interpretation http_handler: unhealthy_handler backendUnhealthy
    "\<lambda>p. fst ` set (connections p)" "\<lambda>p. fst ` set (drainingConnections p)"
proof
  fix p
  show "fst ` set (connections (backendUnhealthy p)) = {}"
    by (simp add: backendUnhealthy_Reset ResetConnections_eq)
  have "dom (map_of (drainingConnections (backendUnhealthy p)))
      = dom (map_of (drainingConnections p)) \<union> dom (map_of (rev (connections p)))"
    by (auto simp: backendUnhealthy_Reset ResetConnections_eq)
  then show "fst ` set (drainingConnections (backendUnhealthy p))
      = fst ` set (drainingConnections p) \<union> fst ` set (connections p)"
    by (simp add: dom_map_of_conv_image_fst)
qed

section \<open>Executions, and the life of one connection\<close>

text \<open>
  The environment: which addresses have an open socket, with the number of its connection. The
  server reports a connection as new, then any changes, and last as hijacked or closed; a reset
  (by the health checker or the server) may come at any time.
\<close>

datatype conn_event = Conn string ConnState | Unhealthy | Reset

record world =
  opened :: "string \<rightharpoonup> nat"
  fresh :: nat
  proxy_conns :: HTTP_conns

definition world0 :: world where
  "world0 = \<lparr>opened = (\<lambda>a. None), fresh = 0, proxy_conns = no_conns\<rparr>"

inductive conn_step :: "world \<Rightarrow> conn_event \<Rightarrow> world \<Rightarrow> bool" where
  new: "opened w a = None \<Longrightarrow>
    conn_step w (Conn a StateNew) (w\<lparr>opened := (opened w)(a \<mapsto> fresh w), fresh := Suc (fresh w),
      proxy_conns := upstreamConnectionChanged a (fresh w) StateNew (proxy_conns w)\<rparr>)"
| change: "opened w a = Some c \<Longrightarrow> s = StateActive \<or> s = StateIdle \<Longrightarrow>
    conn_step w (Conn a s) (w\<lparr>proxy_conns := upstreamConnectionChanged a c s (proxy_conns w)\<rparr>)"
| gone: "opened w a = Some c \<Longrightarrow> s = StateHijacked \<or> s = StateClosed \<Longrightarrow>
    conn_step w (Conn a s) (w\<lparr>opened := (opened w)(a := None),
      proxy_conns := upstreamConnectionChanged a c s (proxy_conns w)\<rparr>)"
| unhealthy: "conn_step w Unhealthy (w\<lparr>proxy_conns := backendUnhealthy (proxy_conns w)\<rparr>)"
| reset: "conn_step w Reset (w\<lparr>proxy_conns := ResetConnections (proxy_conns w)\<rparr>)"

inductive_cases conn_stepE: "conn_step w e w'"

inductive conn_reach :: "conn_event list \<Rightarrow> world \<Rightarrow> bool" where
  start: "conn_reach [] world0"
| more: "conn_reach es w \<Longrightarrow> conn_step w e w' \<Longrightarrow> conn_reach (es @ [e]) w'"

text \<open>The abstract life of one connection, on the events of its address and the resets.\<close>

datatype conn_status = Absent | InUse | Draining | ToldToClose

fun status_step :: "string \<Rightarrow> conn_event \<Rightarrow> conn_status \<Rightarrow> conn_status" where
  "status_step a (Conn b s) st =
     (if b \<noteq> a then st
      else case s of
        StateNew \<Rightarrow> InUse
      | StateActive \<Rightarrow> st
      | StateIdle \<Rightarrow> if st = Draining then ToldToClose else st
      | StateHijacked \<Rightarrow> Absent
      | StateClosed \<Rightarrow> Absent)"
| "status_step a e st = (if st = InUse then Draining else st)"

definition conn_status :: "conn_event list \<Rightarrow> string \<Rightarrow> conn_status" where
  "conn_status es a = fold (status_step a) es Absent"

lemma conn_status_snoc [simp]: "conn_status (es @ [e]) a = status_step a e (conn_status es a)"
  by (simp add: conn_status_def)

definition tracked :: "conn_event list \<Rightarrow> world \<Rightarrow> string \<Rightarrow> bool" where
  "tracked es w a \<longleftrightarrow>
     map_of (connections (proxy_conns w)) a = (if conn_status es a = InUse then opened w a else None) \<and>
     map_of (drainingConnections (proxy_conns w)) a = (if conn_status es a = Draining then opened w a else None) \<and>
     (conn_status es a = Absent \<longleftrightarrow> opened w a = None) \<and>
     (conn_status es a = ToldToClose \<longrightarrow> (\<exists>c. opened w a = Some c \<and> c \<in> set (closedByProxy (proxy_conns w))))"

lemma distinct_rev_map_of: "distinct (map fst xs) \<Longrightarrow> map_of (rev xs) = map_of xs"
  by (subst map_of_inject_set) (simp_all add: rev_map [symmetric])

lemma conn_reach_tracked:
  "conn_reach es w \<Longrightarrow> (\<forall>a. tracked es w a) \<and> distinct (map fst (connections (proxy_conns w)))
     \<and> distinct (map fst (drainingConnections (proxy_conns w)))"
proof (induction rule: conn_reach.induct)
  case start
  show ?case by (simp add: tracked_def world0_def no_conns_def conn_status_def)
next
  case (more es w e w')
  then have tr: "tracked es w a" for a by blast
  have d: "distinct (map fst (connections (proxy_conns w)))" "distinct (map fst (drainingConnections (proxy_conns w)))"
    using more by blast+
  have resets: "tracked (es @ [e]) (w\<lparr>proxy_conns := ResetConnections (proxy_conns w)\<rparr>) a"
    if "e = Unhealthy \<or> e = Reset" for a
    using tr [of a] that
    by (auto simp: tracked_def ResetConnections_eq distinct_rev_map_of d map_add_def split: option.splits)
  from more.hyps(2) show ?case
  proof (cases rule: conn_step.cases)
    case (new b)
    have "tracked (es @ [e]) w' a" for a
      using tr [of a] new by (auto simp: tracked_def upstreamConnectionChanged_def update_conv')
    with new d show ?thesis by (auto simp: upstreamConnectionChanged_def distinct_update)
  next
    case (change b c s)
    have "tracked (es @ [e]) w' a" for a
    proof (cases "a = b \<and> s = StateIdle \<and> conn_status es b = Draining")
      case True
      then have "map_of (drainingConnections (proxy_conns w)) b = Some c"
        using tr [of b] change(3) by (simp add: tracked_def)
      with True tr [of b] change show ?thesis
        by (simp add: tracked_def upstreamConnectionChanged_def delete_conv')
    next
      case False
      then have "status_step a e (conn_status es a) = conn_status es a" using change by auto
      moreover have "map_of (drainingConnections (proxy_conns w')) a = map_of (drainingConnections (proxy_conns w)) a"
        using False change tr [of b]
        by (auto simp: upstreamConnectionChanged_def delete_conv' tracked_def split: option.splits)
      moreover have "connections (proxy_conns w') = connections (proxy_conns w)"
        "set (closedByProxy (proxy_conns w)) \<subseteq> set (closedByProxy (proxy_conns w'))"
        using change by (auto simp: upstreamConnectionChanged_def split: option.splits)
      ultimately show ?thesis using tr [of a] change(2) by (auto simp: tracked_def)
    qed
    moreover have "distinct (map fst (connections (proxy_conns w')))" "distinct (map fst (drainingConnections (proxy_conns w')))"
      using change d by (auto simp: upstreamConnectionChanged_def distinct_delete split: option.splits)
    ultimately show ?thesis by blast
  next
    case (gone b c s)
    have st: "status_step a e x = (if a = b then Absent else x)" for a x
      using gone by auto
    have p': "proxy_conns w' = (proxy_conns w)\<lparr>connections := AList.delete b (connections (proxy_conns w)),
        drainingConnections := AList.delete b (drainingConnections (proxy_conns w))\<rparr>" "opened w' = (opened w)(b := None)"
      using gone by (auto simp: upstreamConnectionChanged_def)
    have "tracked (es @ [e]) w' a" for a
      using tr [of a] by (cases "a = b"; cases "conn_status es a") (simp_all add: tracked_def p' st delete_conv')
    moreover have "distinct (map fst (connections (proxy_conns w')))" "distinct (map fst (drainingConnections (proxy_conns w')))"
      using d by (simp_all add: p' distinct_delete)
    ultimately show ?thesis by blast
  next
    case unhealthy
    with resets d show ?thesis
      by (simp add: backendUnhealthy_Reset ResetConnections_eq ResetConnections_distinct)
  next
    case reset
    with resets d show ?thesis by (simp add: ResetConnections_eq ResetConnections_distinct)
  qed
qed

lemma not_draining:
  assumes "conn_reach es w" "conn_status es a \<noteq> Draining"
  shows "map_of (drainingConnections (proxy_conns w)) a = None"
  using conn_reach_tracked [OF assms(1)] assms(2) by (auto simp: tracked_def)

text \<open>
  C11: The two maps implement the life cycle of every single connection, whatever the others do:
  after any sequence of connection events and resets, an address is in \<open>connections\<close> exactly if
  its connection was opened and no reset came since, in \<open>drainingConnections\<close> exactly if a reset
  came and it was not idle since, each with the connection that is open there; a connection that
  was idle while draining has been told to close; and an address without an open connection is
  in neither map, so that nothing leaks.
\<close>

theorem connections_refine_lives:
  assumes "conn_reach es w"
  shows "map_of (connections (proxy_conns w)) a = (if conn_status es a = InUse then opened w a else None) \<and>
    map_of (drainingConnections (proxy_conns w)) a = (if conn_status es a = Draining then opened w a else None) \<and>
    (conn_status es a = Absent) = (opened w a = None) \<and>
    (if conn_status es a = ToldToClose
     then \<exists>c. opened w a = Some c \<and> c \<in> set (closedByProxy (proxy_conns w)) else True)"
  using conn_reach_tracked [OF assms] by (auto simp: tracked_def)

lemma demo_trace:
  "\<exists>w. conn_reach [Conn ''h:1'' StateNew, Unhealthy, Conn ''h:1'' StateIdle] w"
proof -
  obtain w1 where w1: "conn_reach ([] @ [Conn ''h:1'' StateNew]) w1" "opened w1 ''h:1'' = Some 0"
    using conn_reach.more [OF conn_reach.start conn_step.new, of "''h:1''"] by (auto simp: world0_def)
  let ?w2 = "w1\<lparr>proxy_conns := backendUnhealthy (proxy_conns w1)\<rparr>"
  have "conn_reach (([] @ [Conn ''h:1'' StateNew]) @ [Unhealthy]) ?w2"
    by (rule conn_reach.more [OF w1(1) conn_step.unhealthy])
  from conn_reach.more [OF this conn_step.change, of "''h:1''" 0 StateIdle] w1(2) show ?thesis by auto
qed

theorem connections_refine_lives_witness:
  "\<exists>w c. conn_reach [Conn ''h:1'' StateNew, Unhealthy, Conn ''h:1'' StateIdle] w \<and>
     map_of (drainingConnections (proxy_conns w)) ''h:1'' = None \<and>
     opened w ''h:1'' = Some c \<and> c \<in> set (closedByProxy (proxy_conns w))"
proof -
  obtain w where w: "conn_reach [Conn ''h:1'' StateNew, Unhealthy, Conn ''h:1'' StateIdle] w"
    using demo_trace by blast
  have "conn_status [Conn ''h:1'' StateNew, Unhealthy, Conn ''h:1'' StateIdle] ''h:1'' = ToldToClose"
    by (simp add: conn_status_def)
  with connections_refine_lives [OF w, of "''h:1''"] w show ?thesis by auto
qed

section \<open>The draining mark on a response\<close>

text \<open>A remote address as \<open>net.Addr.String\<close> writes it, and an IP as \<open>net.IP.String\<close> does.\<close>

definition JoinHostPort :: "string \<Rightarrow> string \<Rightarrow> string" where
  "JoinHostPort host port = (if CHR '':'' \<in> set host then ''['' @ host @ '']:'' @ port else host @ '':'' @ port)"

definition ip_text :: "string \<Rightarrow> bool" where
  \<comment> \<open>IPv4: no colon; IPv6: at least two colons and no bracket\<close>
  "ip_text ip \<longleftrightarrow> CHR ''['' \<notin> set ip \<and> (CHR '':'' \<notin> set ip \<or> 2 \<le> count_list ip CHR '':'')"

lemma ip_not_hostport:
  assumes "ip_text ip" "ip_text host" "CHR '':'' \<notin> set port"
  shows "ip \<noteq> JoinHostPort host port"
proof
  assume eq: "ip = JoinHostPort host port"
  show False
  proof (cases "CHR '':'' \<in> set host")
    case True
    with eq assms(1) show False by (auto simp: JoinHostPort_def ip_text_def)
  next
    case False
    with eq assms(3) have "count_list ip CHR '':'' = 1" by (simp add: JoinHostPort_def count_list_0_iff)
    with assms(1) show False by (auto simp: ip_text_def simp: count_list_0_iff)
  qed
qed

text \<open>
  C38: The mark that is to close a draining connection with its response is never set: the map
  is keyed by \<open>ip:port\<close>, the test looks the bare IP up. However connections are opened, reset
  and used, no request from any IP finds itself draining.
\<close>

theorem marked_draining_never:
  assumes "conn_reach es w" and "ip_text ip"
    and "\<And>a s. Conn a s \<in> set es \<Longrightarrow> \<exists>host port. a = JoinHostPort host port \<and> ip_text host \<and> CHR '':'' \<notin> set port"
  shows "\<not> marked_draining ip (proxy_conns w)"
proof -
  have "conn_status es ip = Absent"
  proof -
    have "Conn ip s \<notin> set es" for s using assms(2,3) ip_not_hostport by blast
    then show ?thesis
    proof (induction es rule: rev_induct)
      case (snoc e es)
      then show ?case by (cases e) auto
    qed (simp add: conn_status_def)
  qed
  then show ?thesis
    using not_draining [OF assms(1), of ip] by (simp add: marked_draining_def)
qed

theorem marked_draining_never_witness:
  "\<exists>w. conn_reach [Conn ''h:1'' StateNew, Unhealthy, Conn ''h:1'' StateIdle] w \<and>
     \<not> marked_draining ''h'' (proxy_conns w)"
proof -
  obtain w where w: "conn_reach [Conn ''h:1'' StateNew, Unhealthy, Conn ''h:1'' StateIdle] w"
    using demo_trace by blast
  have "\<not> marked_draining ''h'' (proxy_conns w)"
  proof (rule marked_draining_never [OF w])
    show "\<exists>host port. a = JoinHostPort host port \<and> ip_text host \<and> CHR '':'' \<notin> set port"
      if "Conn a s \<in> set [Conn ''h:1'' StateNew, Unhealthy, Conn ''h:1'' StateIdle]" for a s
      using that by (intro exI [of _ "''h''"] exI [of _ "''1''"]) (auto simp: JoinHostPort_def ip_text_def)
  qed (simp add: ip_text_def)
  with w show ?thesis by blast
qed

end
