(* ===== verification/Dispatch.thy ===== *)
theory Dispatch
  imports Interfaces
begin

text \<open>
  The job queues of \<open>proxy/http.go\<close>: two bounded channels, for prioritised jobs and the rest,
  and the goroutine that takes jobs from them one at a time, with or without the priority
  select. The proxy and every mirrored peer have such a pair. Request handlers send: to the
  proxy's queues they block until there is room, to a peer's they drop the job when there is
  none. A Go \<open>select\<close> with several ready cases chooses any of them.
\<close>

section \<open>Channels\<close>

record 'a channel =
  ch_cap :: nat
  ch_buf :: "'a list"

definition make_chan :: "nat \<Rightarrow> 'a channel" where
  "make_chan n = \<lparr>ch_cap = n, ch_buf = []\<rparr>"

definition chan_send :: "'a \<Rightarrow> 'a channel \<Rightarrow> 'a channel option" where
  \<comment> \<open>\<open>None\<close>: a send would block\<close>
  "chan_send v c = (if length (ch_buf c) < ch_cap c then Some (c\<lparr>ch_buf := ch_buf c @ [v]\<rparr>) else None)"

definition chan_recv :: "'a channel \<Rightarrow> ('a \<times> 'a channel) option" where
  "chan_recv c = (case ch_buf c of [] \<Rightarrow> None | v # vs \<Rightarrow> Some (v, c\<lparr>ch_buf := vs\<rparr>))"

interpretation ch: bounded_queue chan_send chan_recv ch_buf ch_cap
  by unfold_locales (auto simp: chan_send_def chan_recv_def split: list.splits)

section \<open>The job loop\<close>

text \<open>
  \<open>Polling\<close>: at the head of the loop; \<open>Blocked\<close>: past the \<open>default\<close> of the first select, in the
  second one; \<open>Running\<close>: executing a job.
\<close>

datatype 'a worker = Polling | Blocked | Running 'a

record 'a dispatch =
  queueHi :: "'a channel"
  queueLo :: "'a channel"
  worker :: "'a worker"
  sentHi :: "'a list"
  sentLo :: "'a list"
  startedHi :: "'a list"
  startedLo :: "'a list"
  dropped :: nat

definition new_dispatch :: "'a dispatch" where
  "new_dispatch = \<lparr>queueHi = make_chan 512, queueLo = make_chan 512, worker = Polling,
     sentHi = [], sentLo = [], startedHi = [], startedLo = [], dropped = 0\<rparr>"

text \<open>The last four fields but one are a history; \<open>lossy\<close> tells the peers' queues from the proxy's.\<close>

inductive dispatch_step :: "bool \<Rightarrow> bool \<Rightarrow> 'a dispatch \<Rightarrow> 'a dispatch \<Rightarrow> bool"
  for usePriorityQueue :: bool and lossy :: bool where
  send_hi: "chan_send j (queueHi d) = Some q \<Longrightarrow>
    dispatch_step usePriorityQueue lossy d (d\<lparr>queueHi := q, sentHi := sentHi d @ [j]\<rparr>)"
| send_lo: "chan_send j (queueLo d) = Some q \<Longrightarrow>
    dispatch_step usePriorityQueue lossy d (d\<lparr>queueLo := q, sentLo := sentLo d @ [j]\<rparr>)"
| drop_hi: "lossy \<Longrightarrow> chan_send j (queueHi d) = None \<Longrightarrow>
    dispatch_step usePriorityQueue lossy d (d\<lparr>dropped := dropped d + 1\<rparr>)"
| drop_lo: "lossy \<Longrightarrow> chan_send j (queueLo d) = None \<Longrightarrow>
    dispatch_step usePriorityQueue lossy d (d\<lparr>dropped := dropped d + 1\<rparr>)"
| poll_hi: "usePriorityQueue \<Longrightarrow> worker d = Polling \<Longrightarrow> chan_recv (queueHi d) = Some (j, q) \<Longrightarrow>
    dispatch_step usePriorityQueue lossy d (d\<lparr>queueHi := q, worker := Running j, startedHi := startedHi d @ [j]\<rparr>)"
| poll_default: "usePriorityQueue \<Longrightarrow> worker d = Polling \<Longrightarrow> chan_recv (queueHi d) = None \<Longrightarrow>
    dispatch_step usePriorityQueue lossy d (d\<lparr>worker := Blocked\<rparr>)"
| select_hi: "worker d = (if usePriorityQueue then Blocked else Polling) \<Longrightarrow> chan_recv (queueHi d) = Some (j, q) \<Longrightarrow>
    dispatch_step usePriorityQueue lossy d (d\<lparr>queueHi := q, worker := Running j, startedHi := startedHi d @ [j]\<rparr>)"
| select_lo: "worker d = (if usePriorityQueue then Blocked else Polling) \<Longrightarrow> chan_recv (queueLo d) = Some (j, q) \<Longrightarrow>
    dispatch_step usePriorityQueue lossy d (d\<lparr>queueLo := q, worker := Running j, startedLo := startedLo d @ [j]\<rparr>)"
| finish: "worker d = Running j \<Longrightarrow>
    dispatch_step usePriorityQueue lossy d (d\<lparr>worker := Polling\<rparr>)"

inductive_cases dispatch_stepE: "dispatch_step prio lossy d d'"

inductive dispatch_run :: "bool \<Rightarrow> bool \<Rightarrow> 'a dispatch \<Rightarrow> 'a dispatch \<Rightarrow> bool" for prio :: bool and lossy :: bool where
  stop: "dispatch_run prio lossy d d"
| go: "dispatch_run prio lossy d d1 \<Longrightarrow> dispatch_step prio lossy d1 d2 \<Longrightarrow> dispatch_run prio lossy d d2"

section \<open>Conservation\<close>

definition dispatch_inv :: "'a dispatch \<Rightarrow> bool" where
  "dispatch_inv d \<longleftrightarrow> ch.conserves (sentHi d) (startedHi d) (queueHi d) \<and>
     ch.conserves (sentLo d) (startedLo d) (queueLo d) \<and> ch_cap (queueHi d) = 512 \<and> ch_cap (queueLo d) = 512"

lemma dispatch_inv_new: "dispatch_inv new_dispatch"
  by (simp add: dispatch_inv_def new_dispatch_def make_chan_def ch.conserves_def)

lemma dispatch_inv_step [go_intros]:
  "dispatch_step prio lossy d d' \<Longrightarrow> dispatch_inv d \<Longrightarrow> dispatch_inv d'"
  by (induction rule: dispatch_step.induct)
    (auto simp: dispatch_inv_def intro: ch.conserves_send ch.conserves_recv
      dest: ch.try_send_SomeD ch.recv_SomeD)

lemma dispatch_inv_run:
  "dispatch_run prio lossy d d' \<Longrightarrow> dispatch_inv d \<Longrightarrow> dispatch_inv d'"
  by (induction rule: dispatch_run.induct) (auto intro: go_intros)

text \<open>
  C5: Along every execution, for the proxy's queues and a peer's, with and without the priority
  select: in each class the jobs sent are the jobs started followed by those waiting, in the
  order sent, so that no job is lost, doubled or overtaken within its class; neither queue ever
  holds more than 512; and only a peer's queue ever drops.
\<close>

theorem dispatch_conserves:
  assumes "dispatch_run prio lossy new_dispatch d"
  shows "sentHi d = startedHi d @ ch_buf (queueHi d) \<and> sentLo d = startedLo d @ ch_buf (queueLo d) \<and>
    length (ch_buf (queueHi d)) \<le> 512 \<and> length (ch_buf (queueLo d)) \<le> 512 \<and>
    (lossy \<or> dropped d = 0)"
proof -
  have "lossy \<or> dropped d = 0"
    using assms
  proof (induction "new_dispatch :: 'a dispatch" d rule: dispatch_run.induct)
    case stop
    show ?case by (simp add: new_dispatch_def)
  next
    case (go d1 d2)
    from go(3) go(2) show ?case by (induction rule: dispatch_step.induct) auto
  qed
  with dispatch_inv_run [OF assms dispatch_inv_new] show ?thesis
    by (simp add: dispatch_inv_def ch.conserves_def)
qed

section \<open>Priority\<close>

lemma run_sent_grows:
  "dispatch_run prio lossy d d' \<Longrightarrow> length (sentHi d) \<le> length (sentHi d')"
proof (induction rule: dispatch_run.induct)
  case (go d d1 d2)
  from go(2) have "length (sentHi d1) \<le> length (sentHi d2)" by (induction rule: dispatch_step.induct) auto
  with go show ?case by simp
qed simp

lemma step_started_grows:
  "dispatch_step prio lossy d d' \<Longrightarrow> length (startedHi d) \<le> length (startedHi d')"
  by (induction rule: dispatch_step.induct) auto

text \<open>
  C7: With the priority select, a waiting prioritised job is overtaken by at most one other:
  from any reachable state on, for as long as some prioritised job of that state has not
  started, at most one job of the low queue starts (one the loop had already committed to wait
  for before the prioritised one came).
\<close>

theorem priority_overtaken_once:
  assumes "dispatch_run True lossy new_dispatch d" "dispatch_run True lossy d d'"
    and "length (startedHi d') < length (sentHi d)"
  shows "length (startedLo d') \<le> length (startedLo d) + 1"
proof -
  have inv: "dispatch_inv d" by (rule dispatch_inv_run [OF assms(1) dispatch_inv_new])
  have "length (startedLo d') \<le> length (startedLo d) + (if worker d' = Blocked then 0 else 1)"
    using assms(2,3) inv
  proof (induction rule: dispatch_run.induct)
    case (go d d1 d2)
    have IH: "length (startedLo d1) \<le> length (startedLo d) + (if worker d1 = Blocked then 0 else 1)"
      using go step_started_grows [OF go(2)] by (auto split: if_splits)
    have "ch_buf (queueHi d1) \<noteq> []"
    proof -
      have "dispatch_inv d1" by (rule dispatch_inv_run [OF go(1) go(5)])
      moreover have "length (startedHi d1) < length (sentHi d1)"
        using go(4) step_started_grows [OF go(2)] run_sent_grows [OF go(1)] by simp
      ultimately show ?thesis by (auto simp: dispatch_inv_def ch.conserves_def)
    qed
    with go(2) IH show ?case
      by (cases rule: dispatch_step.cases) (auto simp: ch.recv_None_iff split: if_splits)
  qed simp
  then show ?thesis by (auto split: if_splits)
qed

lemma run_one: "dispatch_step prio lossy d d' \<Longrightarrow> dispatch_run prio lossy d d'"
  by (rule dispatch_run.go [OF dispatch_run.stop])

lemma run_trans:
  "dispatch_run prio lossy d1 d2 \<Longrightarrow> dispatch_run prio lossy d0 d1 \<Longrightarrow> dispatch_run prio lossy d0 d2"
  by (induction rule: dispatch_run.induct) (auto intro: dispatch_run.go)

text \<open>An execution in which the loop waits, a low and then a high job arrive, and the low one starts.\<close>

definition demo_waiting :: "nat dispatch" where
  "demo_waiting = new_dispatch\<lparr>worker := Blocked, queueLo := \<lparr>ch_cap = 512, ch_buf = [7]\<rparr>, sentLo := [7],
     queueHi := \<lparr>ch_cap = 512, ch_buf = [1]\<rparr>, sentHi := [1]\<rparr>"

definition demo_overtaken :: "nat dispatch" where
  "demo_overtaken = demo_waiting\<lparr>queueLo := \<lparr>ch_cap = 512, ch_buf = []\<rparr>, worker := Running 7, startedLo := [7]\<rparr>"

lemma demo_runs:
  "dispatch_run True False new_dispatch demo_waiting" "dispatch_run True False demo_waiting demo_overtaken"
proof -
  let ?d1 = "(new_dispatch :: nat dispatch)\<lparr>worker := Blocked\<rparr>"
  have s1: "dispatch_step True False new_dispatch ?d1"
    by (rule dispatch_step.poll_default) (simp_all add: new_dispatch_def make_chan_def chan_recv_def)
  have s2: "dispatch_step True False ?d1 (?d1\<lparr>queueLo := \<lparr>ch_cap = 512, ch_buf = [7]\<rparr>, sentLo := sentLo ?d1 @ [7]\<rparr>)"
    by (rule dispatch_step.send_lo) (simp add: new_dispatch_def make_chan_def chan_send_def)
  let ?d2 = "?d1\<lparr>queueLo := \<lparr>ch_cap = 512, ch_buf = [7]\<rparr>, sentLo := [7]\<rparr>"
  have s3: "dispatch_step True False ?d2 (?d2\<lparr>queueHi := \<lparr>ch_cap = 512, ch_buf = [1]\<rparr>, sentHi := sentHi ?d2 @ [1]\<rparr>)"
    by (rule dispatch_step.send_hi) (simp add: new_dispatch_def make_chan_def chan_send_def)
  show "dispatch_run True False new_dispatch demo_waiting"
    using dispatch_run.go [OF dispatch_run.go [OF run_one [OF s1]], of ?d2] s2 s3
    by (simp add: demo_waiting_def new_dispatch_def)
  have "dispatch_step True False demo_waiting (demo_waiting\<lparr>queueLo := \<lparr>ch_cap = 512, ch_buf = []\<rparr>,
      worker := Running 7, startedLo := startedLo demo_waiting @ [7]\<rparr>)"
    by (rule dispatch_step.select_lo) (simp_all add: demo_waiting_def chan_recv_def)
  then show "dispatch_run True False demo_waiting demo_overtaken"
    by (intro run_one) (simp add: demo_overtaken_def demo_waiting_def new_dispatch_def)
qed

theorem dispatch_conserves_witness:
  "dispatch_run True False new_dispatch demo_waiting \<and>
   sentHi demo_waiting = startedHi demo_waiting @ ch_buf (queueHi demo_waiting)"
  using dispatch_conserves [OF demo_runs(1)] demo_runs(1) by blast

theorem priority_overtaken_once_witness:
  "startedHi demo_overtaken = [] \<and> length (startedLo demo_overtaken) \<le> length (startedLo demo_waiting) + 1"
  using priority_overtaken_once [OF demo_runs] by (simp add: demo_overtaken_def demo_waiting_def new_dispatch_def)

section \<open>Progress\<close>

definition waiting :: "'a dispatch \<Rightarrow> nat" where
  "waiting d = length (ch_buf (queueHi d)) + length (ch_buf (queueLo d))"

definition loop_inv :: "bool \<Rightarrow> 'a dispatch \<Rightarrow> bool" where
  "loop_inv prio d \<longleftrightarrow> dispatch_inv d \<and> (prio \<or> worker d \<noteq> Blocked)"

lemma loop_inv_step: "dispatch_step prio lossy d d' \<Longrightarrow> loop_inv prio d \<Longrightarrow> loop_inv prio d'"
proof -
  assume s: "dispatch_step prio lossy d d'" and i: "loop_inv prio d"
  from s i have "prio \<or> worker d' \<noteq> Blocked"
    by (induction rule: dispatch_step.induct) (auto simp: loop_inv_def)
  with s i show ?thesis by (auto simp: loop_inv_def intro: go_intros)
qed

lemma loop_inv_run: "dispatch_run prio lossy d d' \<Longrightarrow> loop_inv prio d \<Longrightarrow> loop_inv prio d'"
  by (induction rule: dispatch_run.induct) (auto intro: loop_inv_step)

lemma loop_inv_new: "loop_inv prio new_dispatch"
  by (simp add: loop_inv_def dispatch_inv_new) (simp add: new_dispatch_def)

text \<open>The loop comes back to a select; there it takes a waiting job.\<close>

lemma loop_to_select:
  "\<exists>w. (w = Polling \<or> w = Blocked \<and> worker d = Blocked) \<and> dispatch_run prio lossy d (d\<lparr>worker := w\<rparr>)"
proof (cases "worker d")
  case Polling
  then have "d\<lparr>worker := Polling\<rparr> = d" by (cases d) simp
  then have "dispatch_run prio lossy d (d\<lparr>worker := Polling\<rparr>)" by (simp only: dispatch_run.stop)
  then show ?thesis by blast
next
  case Blocked
  then have "d\<lparr>worker := Blocked\<rparr> = d" by (cases d) simp
  then have "dispatch_run prio lossy d (d\<lparr>worker := Blocked\<rparr>)" by (simp only: dispatch_run.stop)
  with Blocked show ?thesis by blast
next
  case (Running j)
  then have "dispatch_run prio lossy d (d\<lparr>worker := Polling\<rparr>)"
    by (intro run_one dispatch_step.finish)
  then show ?thesis by blast
qed

lemma loop_starts_one:
  assumes "loop_inv prio d" "waiting d \<noteq> 0"
  shows "\<exists>d'. dispatch_run prio lossy d d' \<and> waiting d' < waiting d \<and> sentHi d' = sentHi d \<and>
    sentLo d' = sentLo d \<and> dropped d' = dropped d"
proof -
  obtain w where w: "w = Polling \<or> w = Blocked \<and> worker d = Blocked" "dispatch_run prio lossy d (d\<lparr>worker := w\<rparr>)"
    using loop_to_select by blast
  let ?d1 = "d\<lparr>worker := w\<rparr>"
  show ?thesis
  proof (cases "ch_buf (queueHi d)")
    case (Cons j js)
    then have r: "chan_recv (queueHi ?d1) = Some (j, queueHi d\<lparr>ch_buf := js\<rparr>)" by (simp add: chan_recv_def)
    let ?d2 = "?d1\<lparr>queueHi := queueHi d\<lparr>ch_buf := js\<rparr>, worker := Running j, startedHi := startedHi ?d1 @ [j]\<rparr>"
    have "dispatch_step prio lossy ?d1 ?d2"
    proof (cases "prio \<and> w = Polling")
      case True
      then show ?thesis by (intro dispatch_step.poll_hi r) simp_all
    next
      case False
      with w(1) assms(1) have "worker ?d1 = (if prio then Blocked else Polling)" by (auto simp: loop_inv_def)
      then show ?thesis by (rule dispatch_step.select_hi [OF _ r])
    qed
    from dispatch_run.go [OF w(2) this] Cons show ?thesis by (intro exI [of _ ?d2]) (simp add: waiting_def)
  next
    case Nil
    with assms(2) obtain j js where lo: "ch_buf (queueLo d) = j # js"
      by (cases "ch_buf (queueLo d)") (auto simp: waiting_def)
    let ?w = "if prio then Blocked else Polling"
    have run: "dispatch_run prio lossy d (d\<lparr>worker := ?w\<rparr>)"
    proof (cases "prio \<and> w = Polling")
      case True
      then have "dispatch_step prio lossy ?d1 (?d1\<lparr>worker := Blocked\<rparr>)"
        using Nil by (intro dispatch_step.poll_default) (simp_all add: chan_recv_def)
      from dispatch_run.go [OF w(2) this] True show ?thesis by simp
    next
      case False
      with w(1) assms(1) have "w = ?w" by (auto simp: loop_inv_def)
      with w(2) show ?thesis by simp
    qed
    let ?d2 = "d\<lparr>worker := ?w\<rparr>"
    have "dispatch_step prio lossy ?d2 (?d2\<lparr>queueLo := queueLo d\<lparr>ch_buf := js\<rparr>, worker := Running j,
        startedLo := startedLo ?d2 @ [j]\<rparr>)"
      using lo by (intro dispatch_step.select_lo) (simp_all add: chan_recv_def)
    from dispatch_run.go [OF run this] Nil lo show ?thesis
      by (intro exI [of _ "?d2\<lparr>queueLo := queueLo d\<lparr>ch_buf := js\<rparr>, worker := Running j,
        startedLo := startedLo ?d2 @ [j]\<rparr>"]) (simp add: waiting_def)
  qed
qed

lemma loop_starts_all:
  "loop_inv prio d \<Longrightarrow> \<exists>d'. dispatch_run prio lossy d d' \<and> waiting d' = 0 \<and> sentHi d' = sentHi d \<and>
     sentLo d' = sentLo d \<and> dropped d' = dropped d"
proof (induction "waiting d" arbitrary: d rule: less_induct)
  case less
  show ?case
  proof (cases "waiting d = 0")
    case True
    then show ?thesis by (intro exI [of _ d]) (simp add: dispatch_run.stop)
  next
    case False
    obtain d1 where d1: "dispatch_run prio lossy d d1" "waiting d1 < waiting d" "sentHi d1 = sentHi d"
        "sentLo d1 = sentLo d" "dropped d1 = dropped d"
      using loop_starts_one [OF less.prems False] by blast
    from less.hyps [OF d1(2) loop_inv_run [OF d1(1) less.prems]] d1 show ?thesis
      by (metis run_trans)
  qed
qed

text \<open>
  The loop never gets stuck: from every reachable state, with the loop waiting, polling or
  busy, the loop can go on (with no new job sent and nothing dropped) until every job sent so
  far has been started.
\<close>

theorem dispatch_progress:
  assumes "dispatch_run prio lossy new_dispatch d"
  shows "\<exists>d'. dispatch_run prio lossy d d' \<and> startedHi d' = sentHi d \<and> startedLo d' = sentLo d \<and>
    sentHi d' = sentHi d \<and> sentLo d' = sentLo d \<and> dropped d' = dropped d"
proof -
  have inv: "loop_inv prio d" by (rule loop_inv_run [OF assms loop_inv_new])
  obtain d' where d': "dispatch_run prio lossy d d'" "waiting d' = 0" "sentHi d' = sentHi d"
      "sentLo d' = sentLo d" "dropped d' = dropped d"
    using loop_starts_all [OF inv] by blast
  have "loop_inv prio d'" by (rule loop_inv_run [OF d'(1) inv])
  with d' show ?thesis
    by (intro exI [of _ d']) (auto simp: loop_inv_def dispatch_inv_def ch.conserves_def waiting_def)
qed

theorem dispatch_progress_witness:
  "\<exists>d'. dispatch_run True False demo_waiting d' \<and> startedHi d' = [1] \<and> startedLo d' = [7]"
  using dispatch_progress [OF demo_runs(1)] by (auto simp: demo_waiting_def)

end
