(* ===== verification/Utils.thy ===== *)
theory Utils
  imports Go_Prelude
begin

text \<open>
  The package \<open>utils\<close>. An IP is what \<open>net.IP\<close> offers the code: its text (\<open>String\<close>) and whether
  it is a loopback address. An error is any value; joining keeps the list. The interfaces of the
  host are an input.
\<close>

section \<open>The code\<close>

record ip =
  ip_String :: string
  ip_IsLoopback :: bool

text \<open>A set of texts, as the map the code fills, and its lookups.\<close>

definition IPsMatch :: "ip list \<Rightarrow> ip list \<Rightarrow> bool" where
  "IPsMatch l r =
     (if length l \<noteq> length r then False
      else let ips = fold (\<lambda>ip m. m(ip_String ip \<mapsto> ())) l (\<lambda>_. None)
           in list_all (\<lambda>ip. ips (ip_String ip) \<noteq> None) r)"

definition IPsOverlap :: "ip list \<Rightarrow> ip list \<Rightarrow> bool" where
  "IPsOverlap l r =
     (if length l = 0 \<or> length r = 0 then False
      else let ips = fold (\<lambda>ip m. m(ip_String ip \<mapsto> ())) l (\<lambda>_. None)
           in list_ex (\<lambda>ip. ips (ip_String ip) \<noteq> None) r)"

fun IsLoopback :: "ip list \<Rightarrow> bool" where
  "IsLoopback [] = True"
| "IsLoopback (ip # ips) = (if \<not> ip_IsLoopback ip then False else IsLoopback ips)"

text \<open>The dynamic types of an interface's address the code tells apart, and the rest.\<close>

datatype addr = IPNet ip | IPAddr ip | TCPAddr ip | UDPAddr ip | OtherAddr

record 'e interface =
  FlagUp :: bool
  Addrs :: "'e + addr list"

fun addr_ips :: "addr list \<Rightarrow> ip list" where
  "addr_ips [] = []"
| "addr_ips (a # as) =
     (case a of
        IPNet i \<Rightarrow> if \<not> ip_IsLoopback i then i # addr_ips as else addr_ips as
      | IPAddr i \<Rightarrow> if \<not> ip_IsLoopback i then i # addr_ips as else addr_ips as
      | TCPAddr i \<Rightarrow> if \<not> ip_IsLoopback i then i # addr_ips as else addr_ips as
      | UDPAddr i \<Rightarrow> if \<not> ip_IsLoopback i then i # addr_ips as else addr_ips as
      | OtherAddr \<Rightarrow> addr_ips as)"

fun interface_ips :: "'e interface list \<Rightarrow> ip list \<Rightarrow> 'e + ip list" where
  "interface_ips [] res = Inr res"
| "interface_ips (ifs # rest) res =
     (if \<not> FlagUp ifs then interface_ips rest res
      else case Addrs ifs of
        Inl e \<Rightarrow> Inl e
      | Inr addrs \<Rightarrow> interface_ips rest (res @ addr_ips addrs))"

definition LocalIPs :: "'e + 'e interface list \<Rightarrow> 'e + ip list" where
  "LocalIPs interfaces = (case interfaces of Inl e \<Rightarrow> Inl e | Inr ifs \<Rightarrow> interface_ips ifs [])"

datatype 'e flat = NoError | OneError 'e | Joined "'e list"

definition FlattenErrors :: "'e list \<Rightarrow> 'e flat" where
  "FlattenErrors errs = (case errs of [] \<Rightarrow> NoError | [e] \<Rightarrow> OneError e | _ \<Rightarrow> Joined errs)"

definition Deadline :: "int \<Rightarrow> int \<Rightarrow> int option" where
  \<comment> \<open>\<open>None\<close> is the zero time: no deadline\<close>
  "Deadline now timeout = (if timeout = 0 then None else Some (now + timeout))"

section \<open>What they compute\<close>

lemma fold_keys: "fold (\<lambda>ip m. m(ip_String ip \<mapsto> ())) l m k \<noteq> None \<longleftrightarrow> k \<in> ip_String ` set l \<or> m k \<noteq> None"
  by (induction l arbitrary: m) auto

lemma IPsMatch_iff:
  "IPsMatch l r \<longleftrightarrow> length l = length r \<and> ip_String ` set r \<subseteq> ip_String ` set l"
  unfolding IPsMatch_def Let_def fold_keys by (auto simp: list_all_iff)

text \<open>
  On lists without repeated addresses \<open>IPsMatch\<close> is what its name says, equality of the two
  sets of addresses, and so symmetric.
\<close>

theorem IPsMatch_same_addresses:
  assumes "distinct (map ip_String l)" "distinct (map ip_String r)"
  shows "IPsMatch l r = (ip_String ` set l = ip_String ` set r)"
proof -
  have "card (ip_String ` set l) = length l" "card (ip_String ` set r) = length r"
    using distinct_card [OF assms(1)] distinct_card [OF assms(2)] by simp_all
  then show ?thesis unfolding IPsMatch_iff by (auto dest: card_subset_eq [rotated])
qed

theorem IPsMatch_same_addresses_witness:
  "IPsMatch [\<lparr>ip_String = ''a'', ip_IsLoopback = False\<rparr>, \<lparr>ip_String = ''b'', ip_IsLoopback = False\<rparr>]
     [\<lparr>ip_String = ''b'', ip_IsLoopback = False\<rparr>, \<lparr>ip_String = ''a'', ip_IsLoopback = False\<rparr>]"
  by (subst IPsMatch_same_addresses) auto

text \<open>
  With repetitions it is not: a list can match another that does not match it, and hold an
  address the other lacks.
\<close>

theorem IPsMatch_asymmetric:
  "\<exists>l r. IPsMatch l r \<and> \<not> IPsMatch r l \<and> \<not> ip_String ` set l \<subseteq> ip_String ` set r"
proof -
  let ?i = "\<lambda>t. \<lparr>ip_String = t, ip_IsLoopback = False\<rparr>"
  have "IPsMatch [?i ''a'', ?i ''b''] [?i ''a'', ?i ''a'']" "\<not> IPsMatch [?i ''a'', ?i ''a''] [?i ''a'', ?i ''b'']"
    by (simp_all add: IPsMatch_iff)
  moreover have "\<not> ip_String ` set [?i ''a'', ?i ''b''] \<subseteq> ip_String ` set [?i ''a'', ?i ''a'']" by simp
  ultimately show ?thesis by blast
qed

lemma meets_image: "(\<exists>i\<in>R. f i \<in> A) \<longleftrightarrow> A \<inter> f ` R \<noteq> {}"
  by blast

lemma IPsOverlap_iff: "IPsOverlap l r \<longleftrightarrow> ip_String ` set l \<inter> ip_String ` set r \<noteq> {}"
proof (cases "l = [] \<or> r = []")
  case True
  then show ?thesis by (auto simp: IPsOverlap_def)
next
  case False
  then have "IPsOverlap l r \<longleftrightarrow> (\<exists>i\<in>set r. ip_String i \<in> ip_String ` set l)"
    unfolding IPsOverlap_def Let_def fold_keys list_ex_iff by simp
  also have "\<dots> \<longleftrightarrow> ip_String ` set l \<inter> ip_String ` set r \<noteq> {}" by (rule meets_image)
  finally show ?thesis .
qed

lemma IsLoopback_iff: "IsLoopback ips \<longleftrightarrow> (\<forall>i\<in>set ips. ip_IsLoopback i)"
  by (induction ips) auto

lemma addr_ips_no_loopback: "i \<in> set (addr_ips as) \<Longrightarrow> \<not> ip_IsLoopback i"
  by (induction as) (auto split: addr.splits if_splits)

lemma interface_ips_no_loopback:
  "interface_ips ifs res = Inr ips \<Longrightarrow> (\<forall>i\<in>set res. \<not> ip_IsLoopback i) \<Longrightarrow> (\<forall>i\<in>set ips. \<not> ip_IsLoopback i)"
  by (induction ifs res rule: interface_ips.induct) (auto split: if_splits sum.splits dest: addr_ips_no_loopback)

lemma LocalIPs_no_loopback: "LocalIPs interfaces = Inr ips \<Longrightarrow> i \<in> set ips \<Longrightarrow> \<not> ip_IsLoopback i"
  using interface_ips_no_loopback [of _ "[]"] by (auto simp: LocalIPs_def split: sum.splits)

end
