(* ===== verification/Config.thy ===== *)
theory Config
  imports Complex_Main Utils
begin

text \<open>
  The package \<open>config\<close>: the configuration of the proxies and its validation. Durations are
  nanoseconds; a probability is a \<open>rat\<close> (a float64 without NaN and infinities). What the
  operating system, the resolver and the parsers of other packages answer is the record
  \<open>host_env\<close>; their errors are of any type \<open>'e\<close>. \<open>Errorf s t args\<close> is the error the code builds
  with \<open>fmt.Errorf\<close> from the format \<open>%w\<close> followed by \<open>t\<close>, the sentinel \<open>s\<close> and \<open>args\<close>.
\<close>

section \<open>The configuration\<close>

abbreviation Second :: int where "Second \<equiv> 1000000000"
abbreviation Minute :: int where "Minute \<equiv> 60 * Second"
abbreviation Hour :: int where "Hour \<equiv> 60 * Minute"

record chaos_config =
  Enabled :: bool
  MinInjectedLatency :: int
  MaxInjectedLatency :: int
  InjectedHttpErrorProbability :: rat
  InjectedJrpcErrorProbability :: rat
  InjectedInvalidJrpcResponseProbability :: rat

record ws_chaos_config =
  WsEnabled :: bool
  WsMinInjectedLatency :: int
  WsMaxInjectedLatency :: int
  DroppedMessageProbability :: rat
  InjectedInvalidFlashblockPayloadProbability :: rat
  InjectedMalformedJsonMessageProbability :: rat

record healthcheck_config =
  Interval :: int
  ThresholdHealthy :: int
  ThresholdUnhealthy :: int
  URL :: string

record HttpProxy =
  BackendTimeout :: int
  BackendURL :: string
  Chaos :: chaos_config
  ClientIdleConnectionTimeout :: int
  ProxyEnabled :: bool
  ExtraMirroredJrpcMethods :: "string list"
  HealthcheckCfg :: healthcheck_config
  ListenAddress :: string
  LogMethods :: "string list"
  LogRequests :: bool
  LogRequestsMaxSize :: int
  LogResponses :: bool
  LogResponsesMaxSize :: int
  MaxBackendConnectionsPerHost :: int
  MaxBackendConnectionWaitTimeout :: int
  MaxClientConnectionsPerIP :: int
  MaxRequestSizeMb :: int
  MaxResponseSizeMb :: int
  PeerTLSInsecureSkipVerify :: bool
  PeerURLs :: "string list"
  RemoveBackendFromPeers :: bool
  TLSCertificate :: string
  TLSKey :: string
  UsePriorityQueue :: bool

record WebsocketProxy =
  WsBackendURL :: string
  BackwardTimeout :: int
  WsChaos :: ws_chaos_config
  ControlTimeout :: int
  WsProxyEnabled :: bool
  ForwardTimeout :: int
  WsHealthcheckCfg :: healthcheck_config
  WsListenAddress :: string
  LogMessages :: bool
  LogMessagesMaxSize :: int
  ReadBufferSize :: int
  WsTLSCertificate :: string
  WsTLSKey :: string
  WriteBufferSize :: int

record Authrpc_config =
  AuthrpcProxy :: HttpProxy
  DeduplicateFCUs :: bool
  MirrorGetPayload :: bool

record Log_config =
  Level :: string
  Mode :: string

record Config =
  cfgAuthrpc :: Authrpc_config
  cfgFlashblocks :: WebsocketProxy
  cfgRpc :: HttpProxy
  cfgLog :: Log_config
  MetricsListenAddress :: string
  PprofListenAddress :: string
  Version :: string

section \<open>Errors and the environment\<close>

datatype sentinel =
    errHttpProxyFailedToGetLocalIPs | errHttpProxyInvalidBackendTimeout | errHttpProxyInvalidBackendURL
  | errHttpProxyInvalidClientIdleConnectionTimeout | errHttpProxyInvalidListenAddress
  | errHttpProxyInvalidMaxBackendConnectionsPerHost | errHttpProxyInvalidMaxBackendConnectionWaitTimeout
  | errHttpProxyInvalidMaxClientConnectionsPerIP | errHttpProxyInvalidMaxRequestSize
  | errHttpProxyInvalidMaxResponseSize | errHttpProxyInvalidPeerURL | errHttpProxyInvalidTLSConfig
  | errWebsocketProxyInvalidBackendURL | errWebsocketProxyInvalidListenAddress
  | errWebsocketProxyInvalidReadBufferSize | errWebsocketProxyInvalidTLSConfig
  | errWebsocketProxyInvalidWriteBufferSize
  | errHealthcheckInvalidInterval | errHealthcheckInvalidThresholdHealthy
  | errHealthcheckInvalidThresholdUnhealthy | errHealthcheckInvalidURL
  | errChaosInvalidDroppedMessageProbability | errChaosInvalidInjectedHttpErrorProbability
  | errChaosInvalidInjectedInvalidFlashblockProbability | errChaosInvalidInjectedInvalidJrpcResponseProbability
  | errChaosInvalidInjectedJrpcErrorProbability | errChaosInvalidInjectedMalformedJsonMessageProbability
  | errChaosInvalidMaxInjectedLatency | errChaosInvalidMinInjectedLatency
  | errLogInvalidLevel | errLogInvalidMode | errMetricsInvalidListenAddress | errPprofInvalidListenAddress
  | errConfigNoEnabledProxy

datatype 'e arg = Duration int | IntArg int | FloatArg rat | TextArg string | ErrArg 'e

datatype 'e goerr = Errorf sentinel string "'e arg list" | JoinErr "'e goerr list"

definition flat_error :: "'e goerr list \<Rightarrow> 'e goerr option" where
  "flat_error errs = (case FlattenErrors errs of NoError \<Rightarrow> None | OneError e \<Rightarrow> Some e | Joined es \<Rightarrow> Some (JoinErr es))"

definition errs_of :: "'e goerr option \<Rightarrow> 'e goerr list" where
  "errs_of e = (case e of None \<Rightarrow> [] | Some x \<Rightarrow> [x])"

definition error_if :: "bool \<Rightarrow> 'e goerr \<Rightarrow> 'e goerr list" where
  "error_if c e = (if c then [e] else [])"

record url =
  url_Host :: string

record 'e host_env =
  url_Parse :: "string \<Rightarrow> 'e + url"
  LookupIP :: "string \<Rightarrow> 'e + ip list"
  ResolveTCPAddr :: "string \<Rightarrow> 'e option"
  Interfaces :: "'e + 'e interface list"
  ReadFile :: "string \<Rightarrow> 'e + string"
  StdDecode :: "string \<Rightarrow> string option"
  X509KeyPair :: "string \<Rightarrow> string \<Rightarrow> 'e option"
  ParseAtomicLevel :: "string \<Rightarrow> 'e option"

text \<open>\<open>net/url\<close>: the host name and the port in a URL's host.\<close>

definition validOptionalPort :: "string \<Rightarrow> bool" where
  "validOptionalPort port = (port = [] \<or> hd port = CHR '':'' \<and> list_all is_digit (tl port))"

definition splitHostPort :: "string \<Rightarrow> string \<times> string" where
  "splitHostPort hostPort =
     (let after = rev (takeWhile (\<lambda>c. c \<noteq> CHR '':'') (rev hostPort));
          colon = CHR '':'' \<in> set hostPort \<and> validOptionalPort (CHR '':'' # after);
          host = (if colon then take (length hostPort - length after - 1) hostPort else hostPort);
          port = (if colon then after else [])
      in (if host \<noteq> [] \<and> hd host = CHR ''['' \<and> 2 \<le> length host \<and> last host = CHR '']''
          then butlast (tl host) else host, port))"

definition Hostname :: "url \<Rightarrow> string" where
  "Hostname u = fst (splitHostPort (url_Host u))"

definition Port :: "url \<Rightarrow> string" where
  "Port u = snd (splitHostPort (url_Host u))"

section \<open>Chaos and healthcheck\<close>

definition latency_errors :: "sentinel \<Rightarrow> int \<Rightarrow> int \<Rightarrow> 'e goerr list" where
  \<comment> \<open>\<open>shown\<close> is the latency the message prints: always the maximal one\<close>
  "latency_errors s latency shown =
     error_if (latency < 0) (Errorf s '': can not be negative: %s'' [Duration shown]) @
     error_if (latency > Minute) (Errorf s '': can not be more than 1 minute: %s'' [Duration shown])"

definition probability_errors :: "sentinel \<Rightarrow> rat \<Rightarrow> 'e goerr list" where
  "probability_errors s q = error_if (q < 0 \<or> q > 100) (Errorf s '': %f'' [FloatArg q])"

definition ChaosHttp_Validate :: "chaos_config \<Rightarrow> 'e goerr option \<times> chaos_config" where
  "ChaosHttp_Validate cfg =
     (let errs = latency_errors errChaosInvalidMinInjectedLatency (MinInjectedLatency cfg) (MaxInjectedLatency cfg);
          cfg1 = (if MaxInjectedLatency cfg = 0 then cfg\<lparr>MaxInjectedLatency := MinInjectedLatency cfg\<rparr> else cfg)
      in (flat_error (errs
            @ latency_errors errChaosInvalidMaxInjectedLatency (MaxInjectedLatency cfg1) (MaxInjectedLatency cfg1)
            @ probability_errors errChaosInvalidInjectedHttpErrorProbability (InjectedHttpErrorProbability cfg1)
            @ probability_errors errChaosInvalidInjectedJrpcErrorProbability (InjectedJrpcErrorProbability cfg1)
            @ probability_errors errChaosInvalidInjectedInvalidJrpcResponseProbability (InjectedInvalidJrpcResponseProbability cfg1)),
          cfg1))"

definition ChaosWebsocket_Validate :: "ws_chaos_config \<Rightarrow> 'e goerr option \<times> ws_chaos_config" where
  "ChaosWebsocket_Validate cfg =
     (let errs = latency_errors errChaosInvalidMinInjectedLatency (WsMinInjectedLatency cfg) (WsMaxInjectedLatency cfg);
          cfg1 = (if WsMaxInjectedLatency cfg = 0 then cfg\<lparr>WsMaxInjectedLatency := WsMinInjectedLatency cfg\<rparr> else cfg)
      in (flat_error (errs
            @ latency_errors errChaosInvalidMaxInjectedLatency (WsMaxInjectedLatency cfg1) (WsMaxInjectedLatency cfg1)
            @ probability_errors errChaosInvalidDroppedMessageProbability (DroppedMessageProbability cfg1)
            @ probability_errors errChaosInvalidInjectedInvalidFlashblockProbability (InjectedInvalidFlashblockPayloadProbability cfg1)
            @ probability_errors errChaosInvalidInjectedMalformedJsonMessageProbability (InjectedMalformedJsonMessageProbability cfg1)),
          cfg1))"

definition Healthcheck_Validate :: "'e host_env \<Rightarrow> healthcheck_config \<Rightarrow> 'e goerr option" where
  "Healthcheck_Validate env cfg =
     flat_error
      (error_if (Interval cfg < Second)
         (Errorf errHealthcheckInvalidInterval '': too low, must be >=1s: %s'' [Duration (Interval cfg)]) @
       error_if (Interval cfg > Minute)
         (Errorf errHealthcheckInvalidInterval '': too low, must be <=1m: %s'' [Duration (Interval cfg)]) @
       error_if (ThresholdHealthy cfg < 1)
         (Errorf errHealthcheckInvalidThresholdHealthy '': too low, must be >=1: %d'' [IntArg (ThresholdHealthy cfg)]) @
       error_if (ThresholdHealthy cfg > 10)
         (Errorf errHealthcheckInvalidThresholdHealthy '': too low, must be <=10: %d'' [IntArg (ThresholdHealthy cfg)]) @
       error_if (ThresholdUnhealthy cfg < 1)
         (Errorf errHealthcheckInvalidThresholdUnhealthy '': too low, must be >=1: %d'' [IntArg (ThresholdUnhealthy cfg)]) @
       error_if (ThresholdUnhealthy cfg > 10)
         (Errorf errHealthcheckInvalidThresholdUnhealthy '': too low, must be <=10: %d'' [IntArg (ThresholdUnhealthy cfg)]) @
       (if URL cfg \<noteq> [] then
          (case url_Parse env (URL cfg) of
             Inl e \<Rightarrow> [Errorf errHealthcheckInvalidURL '': %w'' [ErrArg e]]
           | Inr u \<Rightarrow> [])
        else []))"

section \<open>The HTTP proxy\<close>

definition LoadTLSCertificate :: "'e host_env \<Rightarrow> string \<Rightarrow> string \<Rightarrow> 'e option" where
  \<comment> \<open>the error, if any; each file may be wrapped in base64\<close>
  "LoadTLSCertificate env crt_file key_file =
     (case ReadFile env crt_file of
        Inl e \<Rightarrow> Some e
      | Inr crt \<Rightarrow>
          (case ReadFile env key_file of
             Inl e \<Rightarrow> Some e
           | Inr key \<Rightarrow>
               X509KeyPair env (case StdDecode env crt of Some d \<Rightarrow> d | None \<Rightarrow> crt)
                 (case StdDecode env key of Some d \<Rightarrow> d | None \<Rightarrow> key)))"

definition tls_errors :: "'e host_env \<Rightarrow> sentinel \<Rightarrow> string \<Rightarrow> string \<Rightarrow> 'e goerr list" where
  "tls_errors env s crt key =
     (if crt \<noteq> [] \<or> key \<noteq> [] then
        (if crt = [] then [Errorf s '': tls certificate must also be configured'' []]
         else if key = [] then [Errorf s '': tls key must also be configured'' []]
         else case LoadTLSCertificate env crt key of
           Some e \<Rightarrow> [Errorf s '': %w'' [ErrArg e]]
         | None \<Rightarrow> [])
      else [])"

text \<open>Whether the peer at URL \<open>u\<close> with addresses \<open>pIPs\<close> is dropped as being the backend.\<close>

definition is_backend :: "url \<Rightarrow> ip list \<Rightarrow> ip list \<Rightarrow> url \<Rightarrow> ip list \<Rightarrow> bool" where
  "is_backend b bIPs lIPs u pIPs =
     (if url_Host u = url_Host b then True
      else if Port u = Port b \<and> IPsMatch pIPs bIPs then True
      else if Port u = Port b \<and> IsLoopback bIPs \<and> IsLoopback pIPs then True
      else if Port u = Port b \<and> IsLoopback bIPs \<and> IPsOverlap pIPs lIPs then True
      else False)"

text \<open>
  The loop over the peers, which filters the slice in place: \<open>i\<close> is the loop's position among
  the \<open>n\<close> peers, \<open>idx\<close> the next slot to fill.
\<close>

function peers_loop :: "'e host_env \<Rightarrow> bool \<Rightarrow> url \<Rightarrow> ip list \<Rightarrow> ip list \<Rightarrow> nat \<Rightarrow> nat \<Rightarrow> nat \<Rightarrow> string list \<Rightarrow> 'e goerr list \<Rightarrow>
    nat \<times> string list \<times> 'e goerr list" where
  "peers_loop env remove b bIPs lIPs n i idx peers errs =
     (if i < n then
        (let p = peers ! i
         in case url_Parse env p of
              Inl e \<Rightarrow> peers_loop env remove b bIPs lIPs n (i + 1) idx peers
                         (errs @ [Errorf errHttpProxyInvalidPeerURL '': %s: %w'' [TextArg p, ErrArg e]])
            | Inr u \<Rightarrow>
                (case LookupIP env (Hostname u) of
                   Inl e \<Rightarrow> peers_loop env remove b bIPs lIPs n (i + 1) idx peers errs
                 | Inr pIPs \<Rightarrow>
                     if remove \<and> is_backend b bIPs lIPs u pIPs
                     then peers_loop env remove b bIPs lIPs n (i + 1) idx peers errs
                     else peers_loop env remove b bIPs lIPs n (i + 1) (idx + 1) (peers[idx := p]) errs))
      else (idx, peers, errs))"
  by pat_completeness auto
termination by (relation "measure (\<lambda>(env, remove, b, bIPs, lIPs, n, i, idx, peers, errs). n - i)") auto

declare peers_loop.simps [simp del]

definition local_ips :: "'e host_env \<Rightarrow> 'r HttpProxy_scheme \<Rightarrow> 'e + ip list" where
  "local_ips env cfg = (if RemoveBackendFromPeers cfg then LocalIPs (Interfaces env) else Inr [])"

text \<open>The block on the backend's and the peers' URLs. A failed \<open>url.Parse\<close> leaves a nil URL, whose \<open>Hostname\<close> panics.\<close>

definition validate_urls :: "'e host_env \<Rightarrow> HttpProxy \<Rightarrow> ('e goerr list \<times> HttpProxy) go" where
  "validate_urls env cfg =
     (case url_Parse env (BackendURL cfg) of
        Inl e \<Rightarrow> Panic
      | Inr b \<Rightarrow>
          (let errs0 = (case local_ips env cfg of
                 Inl e \<Rightarrow> [Errorf errHttpProxyFailedToGetLocalIPs '': %s: %w'' [TextArg (ListenAddress cfg), ErrArg e]]
               | Inr ips \<Rightarrow> []);
               lIPs = (case local_ips env cfg of Inl e \<Rightarrow> [] | Inr ips \<Rightarrow> ips);
               errs1 = (case LookupIP env (Hostname b) of
                 Inl e \<Rightarrow> [Errorf errHttpProxyInvalidBackendURL '': %s: %w:'' [TextArg (BackendURL cfg), ErrArg e]]
               | Inr ips \<Rightarrow> []);
               bIPs = (case LookupIP env (Hostname b) of Inl e \<Rightarrow> [] | Inr ips \<Rightarrow> ips);
               (idx, peers, errs2) = peers_loop env (RemoveBackendFromPeers cfg) b bIPs lIPs
                 (length (PeerURLs cfg)) 0 0 (PeerURLs cfg) []
           in Ret (errs0 @ errs1 @ errs2, cfg\<lparr>PeerURLs := take idx peers\<rparr>)))"

definition listen_errors :: "'e host_env \<Rightarrow> sentinel \<Rightarrow> string \<Rightarrow> 'e goerr list" where
  "listen_errors env s addr =
     (case ResolveTCPAddr env addr of Some e \<Rightarrow> [Errorf s '': %s: %w'' [TextArg addr, ErrArg e]] | None \<Rightarrow> [])"

definition size_errors :: "sentinel \<Rightarrow> int \<Rightarrow> 'e goerr list" where
  "size_errors s n =
     error_if (n < 4) (Errorf s '': too low, must be >=4: %d'' [IntArg n]) @
     error_if (n > 4096) (Errorf s '': too high, must be <=4096: %d'' [IntArg n])"

definition count_errors :: "sentinel \<Rightarrow> int \<Rightarrow> 'e goerr list" where
  "count_errors s n =
     error_if (n < 0) (Errorf s '': can't be negative: %d'' [IntArg n]) @
     error_if (n > 1024) (Errorf s '': too high, must be <=1024: %d'' [IntArg n])"

definition HttpProxy_Validate :: "'e host_env \<Rightarrow> HttpProxy \<Rightarrow> ('e goerr option \<times> HttpProxy) go" where
  "HttpProxy_Validate env cfg =
     go_map (\<lambda>(url_errs, cfg1).
       (flat_error
         (error_if (BackendTimeout cfg \<le> 0)
            (Errorf errHttpProxyInvalidBackendTimeout '': can't be negative: %s'' [Duration (BackendTimeout cfg)]) @
          error_if (BackendTimeout cfg > 30 * Second)
            (Errorf errHttpProxyInvalidBackendTimeout '': too high, must be <=30s: %s'' [Duration (BackendTimeout cfg)]) @
          url_errs @
          error_if (ClientIdleConnectionTimeout cfg \<le> 0)
            (Errorf errHttpProxyInvalidClientIdleConnectionTimeout '': can't be negative: %s'' [Duration (ClientIdleConnectionTimeout cfg)]) @
          error_if (ClientIdleConnectionTimeout cfg > 60 * Hour)
            (Errorf errHttpProxyInvalidClientIdleConnectionTimeout '': too high, must be <=60m: %s'' [Duration (ClientIdleConnectionTimeout cfg)]) @
          listen_errors env errHttpProxyInvalidListenAddress (ListenAddress cfg) @
          count_errors errHttpProxyInvalidMaxBackendConnectionsPerHost (MaxBackendConnectionsPerHost cfg) @
          error_if (MaxBackendConnectionWaitTimeout cfg < 0)
            (Errorf errHttpProxyInvalidMaxBackendConnectionWaitTimeout '': can't be negative: %s'' [Duration (MaxBackendConnectionWaitTimeout cfg)]) @
          error_if (MaxBackendConnectionWaitTimeout cfg > Minute)
            (Errorf errHttpProxyInvalidMaxBackendConnectionWaitTimeout '': too high, must be <=1m: %s'' [Duration (MaxBackendConnectionWaitTimeout cfg)]) @
          count_errors errHttpProxyInvalidMaxClientConnectionsPerIP (MaxClientConnectionsPerIP cfg) @
          size_errors errHttpProxyInvalidMaxRequestSize (MaxRequestSizeMb cfg) @
          size_errors errHttpProxyInvalidMaxResponseSize (MaxResponseSizeMb cfg) @
          tls_errors env errHttpProxyInvalidTLSConfig (TLSCertificate cfg) (TLSKey cfg)),
        cfg1))
     (validate_urls env cfg)"

section \<open>The other parts\<close>

definition WebsocketProxy_Validate :: "'e host_env \<Rightarrow> WebsocketProxy \<Rightarrow> 'e goerr option" where
  "WebsocketProxy_Validate env cfg =
     flat_error
      ((case url_Parse env (WsBackendURL cfg) of
          Inl e \<Rightarrow> [Errorf errWebsocketProxyInvalidBackendURL '': %s: %w:'' [TextArg (WsBackendURL cfg), ErrArg e]]
        | Inr u \<Rightarrow> []) @
       listen_errors env errWebsocketProxyInvalidListenAddress (WsListenAddress cfg) @
       size_errors errWebsocketProxyInvalidReadBufferSize (ReadBufferSize cfg) @
       tls_errors env errWebsocketProxyInvalidTLSConfig (WsTLSCertificate cfg) (WsTLSKey cfg) @
       size_errors errWebsocketProxyInvalidWriteBufferSize (WriteBufferSize cfg))"

definition Log_Validate :: "'e host_env \<Rightarrow> Log_config \<Rightarrow> 'e goerr option" where
  "Log_Validate env cfg =
     (if Mode cfg \<noteq> ''dev'' \<and> Mode cfg \<noteq> ''prod'' then Some (Errorf errLogInvalidMode '': %s'' [TextArg (Mode cfg)])
      else case ParseAtomicLevel env (Level cfg) of
        Some e \<Rightarrow> Some (Errorf errLogInvalidLevel '': %s: %w'' [TextArg (Level cfg), ErrArg e])
      | None \<Rightarrow> None)"

definition Metrics_Validate :: "'e host_env \<Rightarrow> string \<Rightarrow> 'e goerr option" where
  "Metrics_Validate env addr =
     (case ResolveTCPAddr env addr of
        Some e \<Rightarrow> Some (Errorf errMetricsInvalidListenAddress '': %s: %w'' [TextArg addr, ErrArg e])
      | None \<Rightarrow> None)"

definition Pprof_Pprof :: "'e host_env \<Rightarrow> string \<Rightarrow> 'e goerr option" where
  \<comment> \<open>a method named \<open>Pprof\<close>: the type is not a \<open>validatee\<close>\<close>
  "Pprof_Pprof env addr =
     (if addr \<noteq> [] then
        (case ResolveTCPAddr env addr of
           Some e \<Rightarrow> Some (Errorf errPprofInvalidListenAddress '': %s: %w'' [TextArg addr, ErrArg e])
         | None \<Rightarrow> None)
      else None)"

section \<open>The whole configuration\<close>

text \<open>
  \<open>validate\<close> walks the fields by reflection: a field with a \<open>Validate\<close> method is validated, and
  then its fields are walked. \<open>Authrpc\<close>, \<open>Flashblocks\<close> and \<open>Rpc\<close> inherit the method of the proxy
  they embed, which therefore runs twice: for the outer struct and for the embedded field.
\<close>

definition validate_proxy :: "'e host_env \<Rightarrow> HttpProxy \<Rightarrow> 'e goerr option \<times> HttpProxy" where
  \<comment> \<open>\<open>validate\<close> on an \<open>HttpProxy\<close>: its fields \<open>Chaos\<close> and \<open>Healthcheck\<close>\<close>
  "validate_proxy env p =
     (case ChaosHttp_Validate (Chaos p) of (e1, ch) \<Rightarrow>
        (flat_error (errs_of e1 @ errs_of (Healthcheck_Validate env (HealthcheckCfg p))), p\<lparr>Chaos := ch\<rparr>))"

definition validate_outer :: "'e host_env \<Rightarrow> HttpProxy \<Rightarrow> ('e goerr option \<times> HttpProxy) go" where
  \<comment> \<open>\<open>validate\<close> on the struct that embeds the proxy\<close>
  "validate_outer env p =
     go_map (\<lambda>(e1, p1). case validate_proxy env p1 of (e2, p2) \<Rightarrow> (flat_error (errs_of e1 @ errs_of e2), p2))
       (HttpProxy_Validate env p)"

definition validate_http_field :: "'e host_env \<Rightarrow> HttpProxy \<Rightarrow> ('e goerr list \<times> HttpProxy) go" where
  "validate_http_field env p =
     go_bind (HttpProxy_Validate env p) (\<lambda>(e1, p1).
       go_map (\<lambda>(e2, p2). (errs_of e1 @ errs_of e2, p2)) (validate_outer env p1))"

definition validate_ws_field :: "'e host_env \<Rightarrow> WebsocketProxy \<Rightarrow> 'e goerr list \<times> WebsocketProxy" where
  "validate_ws_field env p =
     (case ChaosWebsocket_Validate (WsChaos p) of (e1, ch) \<Rightarrow>
        (let inner = flat_error (errs_of e1 @ errs_of (Healthcheck_Validate env (WsHealthcheckCfg p)));
             outer = flat_error (errs_of (WebsocketProxy_Validate env p) @ errs_of inner)
         in (errs_of (WebsocketProxy_Validate env p) @ errs_of outer, p\<lparr>WsChaos := ch\<rparr>)))"

definition validate :: "'e host_env \<Rightarrow> Config \<Rightarrow> ('e goerr option \<times> Config) go" where
  "validate env c =
     go_bind (validate_http_field env (AuthrpcProxy (cfgAuthrpc c))) (\<lambda>(e1, a).
     case validate_ws_field env (cfgFlashblocks c) of (e2, f) \<Rightarrow>
     go_bind (validate_http_field env (cfgRpc c)) (\<lambda>(e3, r).
       Ret (flat_error (e1 @ e2 @ e3 @ errs_of (Log_Validate env (cfgLog c))
              @ errs_of (Metrics_Validate env (MetricsListenAddress c))),
            c\<lparr>cfgAuthrpc := (cfgAuthrpc c)\<lparr>AuthrpcProxy := a\<rparr>, cfgFlashblocks := f, cfgRpc := r\<rparr>)))"

definition Config_Validate :: "'e host_env \<Rightarrow> Config \<Rightarrow> ('e goerr option \<times> Config) go" where
  "Config_Validate env c =
     (if \<not> ProxyEnabled (AuthrpcProxy (cfgAuthrpc c)) \<and> \<not> ProxyEnabled (cfgRpc c) \<and> \<not> WsProxyEnabled (cfgFlashblocks c)
      then Ret (Some (Errorf errConfigNoEnabledProxy [] []), c)
      else validate env c)"

end
