(* ===== verification/Http_Jobs.thy ===== *)
theory Http_Jobs
  imports Triaged Sanitize Dispatch Connections Config Healthcheck
begin

text \<open>
  The request path of \<open>proxy/http.go\<close>: building the proxy and its jobs, chaos injection, the
  execution of proxy and mirror jobs, what is logged, which metric is counted, and the response.
  Inputs of a step are what the environment decides: the outcome of the backend, the random
  draws, elapsed time, and the functions of libraries outside the repository.
\<close>

section \<open>Configuration and state\<close>

text \<open>\<open>httpConfig\<close>: the configuration of a proxy and its name.\<close>

record httpConfig = HttpProxy +
  cfg_name :: string

text \<open>What the proxy sets of its fasthttp server and clients.\<close>

record http_server =
  IdleTimeout :: int
  MaxConnsPerIP :: int
  MaxRequestBodySize :: int
  ServerName :: string
  ServerReadTimeout :: int
  ServerWriteTimeout :: int
  ServesTLS :: bool

record http_client =
  MaxConnsPerHost :: int
  MaxConnWaitTimeout :: int
  MaxIdleConnDuration :: int
  MaxResponseBodySize :: int
  ClientName :: string
  ClientReadTimeout :: int
  ClientWriteTimeout :: int
  InsecureSkipVerify :: bool

record 'u HTTP =
  cfg :: httpConfig
  frontendServer :: http_server
  backendClient :: http_client
  peerClient :: "http_client option"
  backendURI :: 'u
  extraMirroredJrpcMethods :: "string list"
  logMethods :: "string list"
  peerURIs :: "(string \<times> 'u) list"
  hcheck :: "healthcheck option"

text \<open>
  \<open>newHTTP\<close>. \<open>parse\<close> is fasthttp's URI parser, which yields the host too; \<open>tls_ok\<close> says whether
  the certificate loads. A second peer with the same host replaces the first one.
\<close>

definition method_set :: "string list \<Rightarrow> string list" where
  "method_set names = fold (\<lambda>n known. let m = TrimSpace n in if m \<in> set known then known else known @ [m]) names []"

fun parse_peers :: "(string \<Rightarrow> (string \<times> 'u) option) \<Rightarrow> string list \<Rightarrow> (string \<times> 'u) list \<Rightarrow> (string \<times> 'u) list option" where
  "parse_peers parse [] uris = Some uris"
| "parse_peers parse (url # urls) uris =
     (case parse url of
        None \<Rightarrow> None
      | Some (host, uri) \<Rightarrow> parse_peers parse urls (AList.update host uri uris))"

definition new_frontend :: "httpConfig \<Rightarrow> http_server" where
  "new_frontend c = \<lparr>IdleTimeout = ClientIdleConnectionTimeout c, MaxConnsPerIP = MaxClientConnectionsPerIP c,
     MaxRequestBodySize = MaxRequestSizeMb c * 1024 * 1024, ServerName = cfg_name c,
     ServerReadTimeout = 5 * Second, ServerWriteTimeout = 5 * Second,
     ServesTLS = (TLSCertificate c \<noteq> [] \<and> TLSKey c \<noteq> [])\<rparr>"

definition new_backend :: "httpConfig \<Rightarrow> http_client" where
  "new_backend c = \<lparr>MaxConnsPerHost = MaxBackendConnectionsPerHost c, MaxConnWaitTimeout = MaxBackendConnectionWaitTimeout c,
     MaxIdleConnDuration = 30 * Second, MaxResponseBodySize = MaxResponseSizeMb c * 1024 * 1024, ClientName = cfg_name c,
     ClientReadTimeout = BackendTimeout c, ClientWriteTimeout = 5 * Second, InsecureSkipVerify = False\<rparr>"

definition new_peer :: "httpConfig \<Rightarrow> http_client" where
  "new_peer c = \<lparr>MaxConnsPerHost = MaxBackendConnectionsPerHost c, MaxConnWaitTimeout = MaxBackendConnectionWaitTimeout c,
     MaxIdleConnDuration = 30 * Second, MaxResponseBodySize = MaxResponseSizeMb c * 1024 * 1024, ClientName = cfg_name c,
     ClientReadTimeout = 5 * Second, ClientWriteTimeout = 5 * Second, InsecureSkipVerify = PeerTLSInsecureSkipVerify c\<rparr>"

definition newHTTP :: "bool \<Rightarrow> (string \<Rightarrow> (string \<times> 'u) option) \<Rightarrow> httpConfig \<Rightarrow> 'u HTTP option go" where
  "newHTTP tls_ok parse c =
     (if TLSCertificate c \<noteq> [] \<and> TLSKey c \<noteq> [] \<and> \<not> tls_ok then Ret None
      else case parse (BackendURL c) of
        None \<Rightarrow> Ret None
      | Some (host, uri) \<Rightarrow>
          (case parse_peers parse (PeerURLs c) [] of
             None \<Rightarrow> Ret None
           | Some peers \<Rightarrow>
               go_bind
                 (if URL (HealthcheckCfg c) \<noteq> [] then
                    newHealthcheck (\<lambda>u. parse u \<noteq> None) (URL (HealthcheckCfg c)) (Interval (HealthcheckCfg c))
                      (ThresholdHealthy (HealthcheckCfg c)) (ThresholdUnhealthy (HealthcheckCfg c))
                  else Ret None)
                 (\<lambda>h. if URL (HealthcheckCfg c) \<noteq> [] \<and> h = None then Ret None
                      else Ret (Some \<lparr>cfg = c, frontendServer = new_frontend c, backendClient = new_backend c,
                             peerClient = (if PeerURLs c \<noteq> [] then Some (new_peer c) else None), backendURI = uri,
                             extraMirroredJrpcMethods = method_set (ExtraMirroredJrpcMethods c),
                             logMethods = method_set (LogMethods c), peerURIs = peers, hcheck = h\<rparr>))))"

section \<open>Requests and jobs\<close>

record 'u http_request =
  rq_Host :: string
  rq_Scheme :: string
  rq_RemoteIP :: string
  rq_ContentType :: string
  rq_Body :: string
  rq_Headers :: "(string \<times> string) list"
  rq_URI :: "'u option"
  rq_Timeout :: int

datatype proxy_action = BackendDo | FakeResponse | InjectHttpError | InjectJrpcError | InjectInvalidJrpcResponse

record 'u proxy_job =
  pj_req :: "'u http_request"
  pj_res :: Response
  pj_triage :: Request
  pj_proxy :: proxy_action

record 'u mirror_job =
  mj_host :: string
  mj_req :: "'u http_request"
  mj_res :: Response
  jrpcMethodForMetrics :: string

text \<open>The copy of a client's request that goes to the backend or a peer.\<close>

definition forwarded :: "'u HTTP \<Rightarrow> 'u \<Rightarrow> 'u http_request \<Rightarrow> 'u http_request" where
  "forwarded p uri ctx = ctx\<lparr>rq_Timeout := BackendTimeout (cfg p), rq_URI := Some uri,
     rq_Headers := rq_Headers ctx @ [(''x-forwarded-for'', rq_RemoteIP ctx),
       (''x-forwarded-host'', rq_Host ctx), (''x-forwarded-proto'', rq_Scheme ctx)]\<rparr>"

text \<open>
  Chaos: three draws of \<open>rand.Float64\<close>, in \<open>[0, 1)\<close>, each against its probability in percent
  (as exact rationals; the rounding of the division by 100 is not modelled).
\<close>

definition chaos_action :: "chaos_config \<Rightarrow> rat \<times> rat \<times> rat \<Rightarrow> proxy_action option" where
  "chaos_action ch draws =
     (case draws of (d1, d2, d3) \<Rightarrow>
        if \<not> Enabled ch then None
        else if d1 < InjectedHttpErrorProbability ch / 100 then Some InjectHttpError
        else if d2 < InjectedJrpcErrorProbability ch / 100 then Some InjectJrpcError
        else if d3 < InjectedInvalidJrpcResponseProbability ch / 100 then Some InjectInvalidJrpcResponse
        else None)"

definition newProxyJob :: "'u HTTP \<Rightarrow> rat \<times> rat \<times> rat \<Rightarrow> Request \<times> Response \<Rightarrow> 'u http_request \<Rightarrow> 'u proxy_job" where
  "newProxyJob p draws triaged ctx =
     (let (t, res) = triaged;
          t1 = t\<lparr>Mirror := (Mirror t \<or> JrpcMethod t \<in> set (extraMirroredJrpcMethods p))\<rparr>;
          chaos = chaos_action (Chaos (cfg p)) draws;
          t2 = (if chaos \<noteq> None then t1\<lparr>Proxy := False, Mirror := False\<rparr> else t1)
      in \<lparr>pj_req = forwarded p (backendURI p) ctx, pj_res = res, pj_triage = t2,
          pj_proxy = (case chaos of Some a \<Rightarrow> a | None \<Rightarrow> if Proxy t2 then BackendDo else FakeResponse)\<rparr>)"

definition newMirrorJob :: "'u HTTP \<Rightarrow> 'u http_request \<Rightarrow> 'u proxy_job \<Rightarrow> string \<times> 'u \<Rightarrow> 'u mirror_job" where
  "newMirrorJob p ctx pjob peer =
     \<lparr>mj_host = fst peer, mj_req = forwarded p (snd peer) ctx, mj_res = AcquireResponse,
      jrpcMethodForMetrics = JrpcMethod (pj_triage pjob)\<rparr>"

section \<open>Executing a proxy job\<close>

definition injectHttpError :: "Response \<Rightarrow> Response" where
  "injectHttpError res = res\<lparr>StatusCode := 500, Body := ''chaos-injected error''\<rparr>"

definition injectJrpcError :: "Request \<Rightarrow> Response \<Rightarrow> Response" where
  "injectJrpcError call res = res\<lparr>StatusCode := 200, Headers := Headers res @ [json_content],
     Body := jrpc_body (JrpcID call) (unquoted_error ''-32042'' ''chaos-injected error'')\<rparr>"

definition injectInvalidJrpcResponse :: "Response \<Rightarrow> Response" where
  "injectInvalidJrpcResponse res = res\<lparr>StatusCode := 200, Headers := Headers res @ [json_content],
     Body := ''chaos-injected invalid jrpc response''\<rparr>"

text \<open>What \<open>fasthttp.Client.Do\<close> does: an error, and the response as it leaves it.\<close>

type_synonym 'u backend = "'u http_request \<Rightarrow> Response \<Rightarrow> string option \<times> Response"

definition run_action :: "'u backend \<Rightarrow> 'u proxy_job \<Rightarrow> string option \<times> Response" where
  "run_action backend job =
     (case pj_proxy job of
        BackendDo \<Rightarrow> backend (pj_req job) (pj_res job)
      | FakeResponse \<Rightarrow> (None, pj_res job)
      | InjectHttpError \<Rightarrow> (None, injectHttpError (pj_res job))
      | InjectJrpcError \<Rightarrow> (None, injectJrpcError (pj_triage job) (pj_res job))
      | InjectInvalidJrpcResponse \<Rightarrow> (None, injectInvalidJrpcResponse (pj_res job)))"

text \<open>\<open>strconv.Quote\<close> on ASCII; \<open>quote_rest\<close> quotes what starts with a byte from 128 on.\<close>

definition hex_digit :: "nat \<Rightarrow> char" where
  "hex_digit d = (if d < 10 then byte (48 + d) else byte (87 + d))"

definition quote_char :: "char \<Rightarrow> string" where
  "quote_char c =
     (if c = CHR 0x22 \<or> c = CHR 0x5C then [CHR 0x5C, c]
      else if c = CHR 0x07 then [CHR 0x5C, CHR ''a''] else if c = CHR 0x08 then [CHR 0x5C, CHR ''b'']
      else if c = CHR 0x0C then [CHR 0x5C, CHR ''f''] else if c = CHR 0x0A then [CHR 0x5C, CHR ''n'']
      else if c = CHR 0x0D then [CHR 0x5C, CHR ''r''] else if c = CHR 0x09 then [CHR 0x5C, CHR ''t'']
      else if c = CHR 0x0B then [CHR 0x5C, CHR ''v'']
      else if (of_char c :: nat) < 32 \<or> c = CHR 0x7F
        then [CHR 0x5C, CHR ''x'', hex_digit (of_char c div 16), hex_digit (of_char c mod 16)]
      else [c])"

fun quote_ascii :: "(string \<Rightarrow> string) \<Rightarrow> string \<Rightarrow> string" where
  "quote_ascii quote_rest [] = []"
| "quote_ascii quote_rest (c # s) =
     (if (of_char c :: nat) < 128 then quote_char c @ quote_ascii quote_rest s else quote_rest (c # s))"

definition Quote :: "(string \<Rightarrow> string) \<Rightarrow> string \<Rightarrow> string" where
  "Quote quote_rest s = [CHR 0x22] @ quote_ascii quote_rest s @ [CHR 0x22]"

text \<open>The response when the backend failed.\<close>

definition error_response :: "(string \<Rightarrow> string) \<Rightarrow> 'u proxy_job \<Rightarrow> string \<Rightarrow> Response \<Rightarrow> Response" where
  "error_response quote_rest job err res =
     (if rq_ContentType (pj_req job) = ''application/json'' then
        res\<lparr>StatusCode := 202,
            Body := jrpc_body (JrpcID (pj_triage job))
              (''\"error\":{\"code\":-32042,\"message\":'' @ Quote quote_rest err @ ''}'')\<rparr>
      else res\<lparr>Body := err, StatusCode := 502\<rparr>)"

text \<open>
  The injected latency: a draw from \<open>[0, max]\<close> (\<open>rand.Int64N\<close> panics unless its argument is
  positive; the sum wraps at 64 bits), at least \<open>min\<close>, less the time already spent.
\<close>

definition injected_sleep :: "chaos_config \<Rightarrow> int \<Rightarrow> int \<Rightarrow> int go" where
  "injected_sleep ch draw elapsed =
     (if Enabled ch \<and> (MinInjectedLatency ch > 0 \<or> MaxInjectedLatency ch > 0) then
        (let n = wrap64 (MaxInjectedLatency ch + 1)
         in if n \<le> 0 then Panic
            else Ret (max 0 (max (draw mod n) (MinInjectedLatency ch) - elapsed)))
      else Ret 0)"

section \<open>Logging\<close>

datatype log_field =
    JsonRequest json
  | HttpRequest string
  | JsonResponse json
  | HttpResponse string
  | HexResponse string
  | ErrorUnmarshal
  | ErrorGunzip string
  | ErrorBackend string
  | ErrorMirror string
  | HttpStatus int

definition shouldLogMethod :: "'u HTTP \<Rightarrow> string \<Rightarrow> bool" where
  "shouldLogMethod p m = (if logMethods p = [] then True else m \<in> set (logMethods p))"

definition log_request :: "'tx eth_lib \<Rightarrow> 'u HTTP \<Rightarrow> string \<Rightarrow> string \<Rightarrow> log_field list go" where
  "log_request eth p m body =
     (if LogRequests (cfg p) \<and> int (length body) \<le> LogRequestsMaxSize (cfg p) \<and> shouldLogMethod p m then
        (case Unmarshal_any body of
           Some j \<Rightarrow> go_map (\<lambda>s. [JsonRequest s]) (Sanitize eth j)
         | None \<Rightarrow> Ret [ErrorUnmarshal, HttpRequest body])
      else Ret [])"

definition content_encoding :: "Response \<Rightarrow> string" where
  "content_encoding res = (case map_of (Headers res) ''content-encoding'' of Some e \<Rightarrow> e | None \<Rightarrow> [])"

definition log_body :: "'tx eth_lib \<Rightarrow> bool \<Rightarrow> string \<Rightarrow> log_field list go" where
  "log_body eth with_error body =
     (case Unmarshal_any body of
        Some j \<Rightarrow> go_map (\<lambda>s. [JsonResponse s]) (Sanitize eth j)
      | None \<Rightarrow> Ret ((if with_error then [ErrorUnmarshal] else []) @ [HttpResponse body]))"

text \<open>The proxy job goes on with what \<open>BodyGunzip\<close> returned beside its error, unless that is nil.\<close>

definition log_response :: "'tx eth_lib \<Rightarrow> (string \<Rightarrow> string option \<times> string option) \<Rightarrow> 'u HTTP \<Rightarrow> string \<Rightarrow> Response \<Rightarrow> log_field list go" where
  "log_response eth gunzip p m res =
     (if LogResponses (cfg p) \<and> int (length (Body res)) \<le> LogResponsesMaxSize (cfg p) \<and> shouldLogMethod p m then
        (if content_encoding res = ''gzip'' then
           (case gunzip (Body res) of (body, err) \<Rightarrow>
              go_map (\<lambda>fs. (case err of None \<Rightarrow> [] | Some e \<Rightarrow> [ErrorGunzip e, HexResponse (Body res)]) @ fs)
                (case body of None \<Rightarrow> Ret [] | Some b \<Rightarrow> log_body eth True b))
         else log_body eth True (Body res))
      else Ret [])"

datatype job_metric = ProxyFailure string | ProxySuccess string | ProxyFake string
  | MirrorSuccess string string | MirrorFailure string string | MirrorDrop string string

record exec_result =
  ex_res :: Response
  ex_sleep :: int
  ex_log :: "log_field list"
  ex_metric :: job_metric

record 'tx env =
  env_eth :: "'tx eth_lib"
  env_quote_rest :: "string \<Rightarrow> string"
  env_gunzip :: "string \<Rightarrow> string option \<times> string option"

definition execProxyJob :: "'tx env \<Rightarrow> 'u HTTP \<Rightarrow> 'u backend \<Rightarrow> int \<Rightarrow> int \<Rightarrow> 'u proxy_job \<Rightarrow> exec_result go" where
  "execProxyJob e p backend draw elapsed job =
     (case run_action backend job of (err, res) \<Rightarrow>
        let res1 = (case err of None \<Rightarrow> res | Some m \<Rightarrow> error_response (env_quote_rest e) job m res);
            t = pj_triage job
        in go_bind (injected_sleep (Chaos (cfg p)) draw elapsed) (\<lambda>sleep.
           go_bind (log_request (env_eth e) p (JrpcMethod t) (rq_Body (pj_req job))) (\<lambda>fs.
           go_bind (log_response (env_eth e) (env_gunzip e) p (JrpcMethod t) res1) (\<lambda>gs.
             Ret \<lparr>ex_res = res1, ex_sleep = sleep,
                  ex_log = (case err of None \<Rightarrow> [] | Some m \<Rightarrow> [ErrorBackend m]) @ fs @ gs @ [HttpStatus (StatusCode res1)],
                  ex_metric = (if err \<noteq> None then ProxyFailure (JrpcMethod t)
                               else if Proxy t then ProxySuccess (JrpcMethod t)
                               else ProxyFake (JrpcMethod t))\<rparr>))))"

definition execMirrorJob :: "'tx env \<Rightarrow> 'u HTTP \<Rightarrow> 'u backend \<Rightarrow> 'u mirror_job \<Rightarrow> (log_field list \<times> job_metric) go" where
  "execMirrorJob e p peer job =
     (case peer (mj_req job) (mj_res job) of (err, res) \<Rightarrow>
        let m = jrpcMethodForMetrics job
        in go_bind (log_request (env_eth e) p m (rq_Body (mj_req job))) (\<lambda>fs.
           go_map (\<lambda>gs. (fs @ gs, if err = None then MirrorSuccess (mj_host job) m else MirrorFailure (mj_host job) m))
             (case err of
                Some x \<Rightarrow> Ret [ErrorMirror x]
              | None \<Rightarrow> go_map ((#) (HttpStatus (StatusCode res)))
                  (if LogResponses (cfg p) \<and> int (length (Body res)) \<le> LogResponsesMaxSize (cfg p) \<and> shouldLogMethod p m then
                     (if content_encoding res = ''gzip'' then
                        (case env_gunzip e (Body res) of (body, gerr) \<Rightarrow>
                           (case gerr of
                              None \<Rightarrow> log_body (env_eth e) False (case body of None \<Rightarrow> [] | Some b \<Rightarrow> b)
                            | Some g \<Rightarrow> Ret [ErrorGunzip g, HexResponse (Body res)]))
                      else log_body (env_eth e) False (Body res))
                   else Ret []))))"

section \<open>Receiving a request\<close>

text \<open>
  \<open>receive\<close> up to its wait: the job goes to one of the two proxy queues (\<open>None\<close>: the handler
  blocks, there is no room), and a mirrored request to the queue of every peer, or is dropped
  where that is full. A send to a missing (nil) channel is never ready. Then, after the wait,
  the reply: the job's response, and whether the connection is to be closed after it.
\<close>

record 'u queues =
  queueProxyHi :: "'u proxy_job channel"
  queueProxyLo :: "'u proxy_job channel"
  queueMirrorHi :: "(string \<times> 'u mirror_job channel) list"
  queueMirrorLo :: "(string \<times> 'u mirror_job channel) list"

definition mirror_send :: "string \<Rightarrow> 'u mirror_job \<Rightarrow> (string \<times> 'u mirror_job channel) list \<Rightarrow>
    (string \<times> 'u mirror_job channel) list \<times> job_metric list" where
  "mirror_send host mj qs =
     (case Option.bind (map_of qs host) (chan_send mj) of
        Some c \<Rightarrow> (AList.update host c qs, [])
      | None \<Rightarrow> (qs, [MirrorDrop (mj_host mj) (jrpcMethodForMetrics mj)]))"

fun mirror_all :: "'u HTTP \<Rightarrow> 'u http_request \<Rightarrow> 'u proxy_job \<Rightarrow> (string \<times> 'u) list \<Rightarrow>
    (string \<times> 'u mirror_job channel) list \<Rightarrow> (string \<times> 'u mirror_job channel) list \<times> job_metric list" where
  "mirror_all p ctx pj [] qs = (qs, [])"
| "mirror_all p ctx pj (peer # peers) qs =
     (let (qs1, ms) = mirror_send (fst peer) (newMirrorJob p ctx pj peer) qs;
          (qs2, ms') = mirror_all p ctx pj peers qs1
      in (qs2, ms @ ms'))"

definition receive_schedule :: "'u HTTP \<Rightarrow> 'u http_request \<Rightarrow> 'u proxy_job \<Rightarrow> 'u queues \<Rightarrow> ('u queues \<times> job_metric list) option" where
  "receive_schedule p ctx pj q =
     (let prio = Prioritise (pj_triage pj)
      in case (if prio then map_option (\<lambda>c. q\<lparr>queueProxyHi := c\<rparr>) (chan_send pj (queueProxyHi q))
               else map_option (\<lambda>c. q\<lparr>queueProxyLo := c\<rparr>) (chan_send pj (queueProxyLo q))) of
           None \<Rightarrow> None
         | Some q1 \<Rightarrow>
             if Mirror (pj_triage pj) then
               (if prio then
                  (case mirror_all p ctx pj (peerURIs p) (queueMirrorHi q1) of (qs, ms) \<Rightarrow>
                     Some (q1\<lparr>queueMirrorHi := qs\<rparr>, ms))
                else
                  (case mirror_all p ctx pj (peerURIs p) (queueMirrorLo q1) of (qs, ms) \<Rightarrow>
                     Some (q1\<lparr>queueMirrorLo := qs\<rparr>, ms)))
             else Some (q1, []))"

definition receive_reply :: "'u http_request \<Rightarrow> exec_result \<Rightarrow> HTTP_conns \<Rightarrow> Response \<times> bool" where
  "receive_reply ctx done_job conns = (ex_res done_job, marked_draining (rq_RemoteIP ctx) conns)"

definition new_queues :: "'u HTTP \<Rightarrow> 'u queues" where
  "new_queues p = \<lparr>queueProxyHi = make_chan 512, queueProxyLo = make_chan 512,
     queueMirrorHi = map (\<lambda>(host, uri). (host, make_chan 512)) (peerURIs p),
     queueMirrorLo = map (\<lambda>(host, uri). (host, make_chan 512)) (peerURIs p)\<rparr>"

section \<open>Chaos\<close>

text \<open>
  C19: A request with an injected fault touches nobody else: whatever triage decided, it is not
  mirrored, its outcome does not depend on the backend, it does not count as a failure, and it
  is reported as faked.
\<close>

theorem chaos_isolated:
  assumes "chaos_action (Chaos (cfg p)) draws = Some a"
    and "execProxyJob e p backend d el (newProxyJob p draws triaged ctx) = Ret r"
  shows "\<not> Mirror (pj_triage (newProxyJob p draws triaged ctx)) \<and>
    execProxyJob e p backend' d el (newProxyJob p draws triaged ctx) = Ret r \<and>
    ex_metric r = ProxyFake (JrpcMethod (fst triaged)) \<and>
    receive_schedule p ctx (newProxyJob p draws triaged ctx) q
      = map_option (\<lambda>q. (q, [])) (map_option fst (receive_schedule p ctx (newProxyJob p draws triaged ctx) q))"
proof -
  let ?job = "newProxyJob p draws triaged ctx"
  have a: "a = InjectHttpError \<or> a = InjectJrpcError \<or> a = InjectInvalidJrpcResponse"
    using assms(1) by (auto simp: chaos_action_def split: prod.splits if_splits)
  have job: "pj_proxy ?job = a" "\<not> Mirror (pj_triage ?job)" "\<not> Proxy (pj_triage ?job)"
      "JrpcMethod (pj_triage ?job) = JrpcMethod (fst triaged)"
    using assms(1) by (auto simp: newProxyJob_def Let_def split: prod.splits)
  have "run_action backend' ?job = run_action backend ?job" "fst (run_action backend ?job) = None"
    using a by (auto simp: run_action_def job)
  then have "execProxyJob e p backend' d el ?job = Ret r" "ex_metric r = ProxyFake (JrpcMethod (fst triaged))"
    using assms(2) job by (auto simp: execProxyJob_def Let_def go_bind_Ret_iff split: prod.splits)
  moreover have "receive_schedule p ctx ?job q = map_option (\<lambda>q. (q, [])) (map_option fst (receive_schedule p ctx ?job q))"
    using job(2) by (auto simp: receive_schedule_def Let_def split: option.splits)
  ultimately show ?thesis using job(2) by blast
qed

lemma set_method_set: "set (method_set names) = TrimSpace ` set names"
proof -
  have "set (fold (\<lambda>n known. let m = TrimSpace n in if m \<in> set known then known else known @ [m]) names acc)
      = set acc \<union> TrimSpace ` set names" for acc
    by (induction names arbitrary: acc) (auto simp: Let_def)
  then show ?thesis by (simp add: method_set_def)
qed

lemma newHTTP_SomeD:
  "newHTTP tls_ok parse c = Ret (Some p) \<Longrightarrow> cfg p = c \<and> set (extraMirroredJrpcMethods p) = TrimSpace ` set (ExtraMirroredJrpcMethods c)
     \<and> set (logMethods p) = TrimSpace ` set (LogMethods c) \<and> parse_peers parse (PeerURLs c) [] = Some (peerURIs p)
     \<and> (\<exists>h. parse (BackendURL c) = Some (h, backendURI p))"
  by (auto simp: newHTTP_def go_bind_Ret_iff set_method_set split: if_splits option.splits)

text \<open>
  Without a fault, a request is sent to the backend exactly if triage said so, and mirrored
  exactly if triage said so or its method is among the extra ones (up to the white space around
  them in the configuration); priority, id and method are triage's.
\<close>

theorem newProxyJob_decides:
  assumes "newHTTP tls_ok parse c = Ret (Some p)" and "chaos_action (Chaos c) draws = None"
  shows "Mirror (pj_triage (newProxyJob p draws (t, res) ctx))
      = (Mirror t \<or> JrpcMethod t \<in> TrimSpace ` set (ExtraMirroredJrpcMethods c)) \<and>
    Proxy (pj_triage (newProxyJob p draws (t, res) ctx)) = Proxy t \<and>
    pj_proxy (newProxyJob p draws (t, res) ctx) = (if Proxy t then BackendDo else FakeResponse) \<and>
    Prioritise (pj_triage (newProxyJob p draws (t, res) ctx)) = Prioritise t \<and>
    JrpcID (pj_triage (newProxyJob p draws (t, res) ctx)) = JrpcID t \<and>
    pj_res (newProxyJob p draws (t, res) ctx) = res \<and>
    rq_Body (pj_req (newProxyJob p draws (t, res) ctx)) = rq_Body ctx"
  using newHTTP_SomeD [OF assms(1)] assms(2) by (simp add: newProxyJob_def Let_def forwarded_def)

definition demo_config :: "chaos_config \<Rightarrow> httpConfig" where
  "demo_config ch = \<lparr>BackendTimeout = Second, BackendURL = ''http://b'', Chaos = ch,
     ClientIdleConnectionTimeout = Second, ProxyEnabled = True, ExtraMirroredJrpcMethods = ['' eth_foo''],
     HealthcheckCfg = \<lparr>Interval = Second, ThresholdHealthy = 2, ThresholdUnhealthy = 2, URL = []\<rparr>,
     ListenAddress = ''0.0.0.0:1'', LogMethods = [], LogRequests = True, LogRequestsMaxSize = 4096,
     LogResponses = False, LogResponsesMaxSize = 0, MaxBackendConnectionsPerHost = 1,
     MaxBackendConnectionWaitTimeout = 0, MaxClientConnectionsPerIP = 0, MaxRequestSizeMb = 15,
     MaxResponseSizeMb = 160, PeerTLSInsecureSkipVerify = False, PeerURLs = [''http://p'', ''http://q''],
     RemoveBackendFromPeers = False, TLSCertificate = [], TLSKey = [], UsePriorityQueue = True, cfg_name = ''rpc''\<rparr>"

definition no_chaos :: chaos_config where
  "no_chaos = \<lparr>Enabled = False, MinInjectedLatency = 0, MaxInjectedLatency = 0, InjectedHttpErrorProbability = 0,
     InjectedJrpcErrorProbability = 0, InjectedInvalidJrpcResponseProbability = 0\<rparr>"

definition demo_parse :: "string \<Rightarrow> (string \<times> string) option" where
  "demo_parse url = (if HasPrefix url ''http://'' then Some (drop 7 url, url) else None)"

definition demo_http :: "chaos_config \<Rightarrow> string HTTP" where
  "demo_http ch = \<lparr>cfg = demo_config ch, frontendServer = new_frontend (demo_config ch), backendClient = new_backend (demo_config ch),
     peerClient = Some (new_peer (demo_config ch)), backendURI = ''http://b'', extraMirroredJrpcMethods = [''eth_foo''],
     logMethods = [], peerURIs = [(''p'', ''http://p''), (''q'', ''http://q'')], hcheck = None\<rparr>"

definition demo_ctx :: "string \<Rightarrow> string http_request" where
  "demo_ctx body = \<lparr>rq_Host = ''h'', rq_Scheme = ''http'', rq_RemoteIP = ''10.0.0.1'',
     rq_ContentType = ''application/json'', rq_Body = body, rq_Headers = [], rq_URI = None, rq_Timeout = 0\<rparr>"

definition demo_env :: "string env" where
  "demo_env = \<lparr>env_eth = demo_eth, env_quote_rest = (\<lambda>s. s), env_gunzip = (\<lambda>b. (None, Some ''gzip''))\<rparr>"

lemma demo_newHTTP: "newHTTP False demo_parse (demo_config ch) = Ret (Some (demo_http ch))"
  by (simp add: newHTTP_def demo_config_def demo_http_def demo_parse_def HasPrefix_def method_set_def
      TrimSpace_def is_space_def Let_def)

theorem chaos_isolated_witness:
  "\<exists>r. execProxyJob demo_env (demo_http (no_chaos\<lparr>Enabled := True, InjectedHttpErrorProbability := 100\<rparr>))
        (\<lambda>_ res. (Some ''never'', res)) 0 0
        (newProxyJob (demo_http (no_chaos\<lparr>Enabled := True, InjectedHttpErrorProbability := 100\<rparr>))
          (1/2, 0, 0) (zero_Request\<lparr>Mirror := True\<rparr>, AcquireResponse) (demo_ctx ''null'')) = Ret r
     \<and> ex_metric r = ProxyFake []"
proof -
  let ?p = "demo_http (no_chaos\<lparr>Enabled := True, InjectedHttpErrorProbability := 100\<rparr>)"
  let ?job = "newProxyJob ?p (1/2, 0, 0) (zero_Request\<lparr>Mirror := True\<rparr>, AcquireResponse) (demo_ctx ''null'')"
  have c: "chaos_action (Chaos (cfg ?p)) (1/2, 0, 0) = Some InjectHttpError"
    by (simp add: chaos_action_def demo_http_def demo_config_def no_chaos_def)
  have "Unmarshal_any ''null'' = Some JNull"
    using json_parse_print [of JNull] by (simp add: Unmarshal_any_def)
  then obtain r where r: "execProxyJob demo_env ?p (\<lambda>_ res. (Some ''never'', res)) 0 0 ?job = Ret r"
    using c by (simp add: execProxyJob_def newProxyJob_def run_action_def Let_def injected_sleep_def
        demo_http_def demo_config_def no_chaos_def log_request_def log_response_def shouldLogMethod_def
        demo_ctx_def forwarded_def)
  from chaos_isolated [OF c r] have "ex_metric r = ProxyFake (JrpcMethod zero_Request)" by simp
  then have "ex_metric r = ProxyFake []" by (simp add: zero_Request_def)
  with r show ?thesis by blast
qed

theorem newProxyJob_decides_witness:
  "newHTTP False demo_parse (demo_config no_chaos) = Ret (Some (demo_http no_chaos)) \<and>
   Mirror (pj_triage (newProxyJob (demo_http no_chaos) (0, 0, 0)
     (zero_Request\<lparr>Proxy := True, JrpcMethod := ''eth_foo''\<rparr>, AcquireResponse) (demo_ctx [])))"
proof -
  have "chaos_action (Chaos (demo_config no_chaos)) (0, 0, 0) = None"
    by (simp add: chaos_action_def demo_config_def no_chaos_def)
  moreover have "''eth_foo'' \<in> TrimSpace ` set (ExtraMirroredJrpcMethods (demo_config no_chaos))"
    by (simp add: demo_config_def TrimSpace_def is_space_def)
  ultimately show ?thesis
    using newProxyJob_decides [OF demo_newHTTP, of no_chaos "(0, 0, 0)"
        "zero_Request\<lparr>Proxy := True, JrpcMethod := ''eth_foo''\<rparr>" AcquireResponse "demo_ctx []"] demo_newHTTP
    by simp
qed

section \<open>Construction\<close>

lemma newHTTP_no_panic: "0 < Interval (HealthcheckCfg c) \<Longrightarrow> newHTTP tls_ok parse c \<noteq> Panic"
  by (auto simp: newHTTP_def newHealthcheck_def go_bind_Panic_iff split: option.splits)

lemma parse_peers_distinct:
  "parse_peers parse urls uris = Some ps \<Longrightarrow> distinct (map fst uris) \<Longrightarrow> distinct (map fst ps)"
  by (induction parse urls uris rule: parse_peers.induct) (auto split: option.splits simp: distinct_update)

lemma newHTTP_peers_distinct: "newHTTP tls_ok parse c = Ret (Some p) \<Longrightarrow> distinct (map fst (peerURIs p))"
  using newHTTP_SomeD parse_peers_distinct by fastforce

section \<open>Mirroring\<close>

lemma mirror_send_other:
  assumes "mirror_send h mj qs = (qs1, ms)"
  shows "x \<noteq> h \<Longrightarrow> map_of qs1 x = map_of qs x" and "set ms \<subseteq> {MirrorDrop (mj_host mj) (jrpcMethodForMetrics mj)}"
  using assms by (auto simp: mirror_send_def update_conv' split: option.splits)

lemma mirror_send_here:
  assumes "mirror_send h mj qs = (qs1, ms)" "map_of qs h = Some c"
  shows "map_of qs1 h = Some (if length (ch_buf c) < ch_cap c then c\<lparr>ch_buf := ch_buf c @ [mj]\<rparr> else c)"
    and "ms = (if length (ch_buf c) < ch_cap c then [] else [MirrorDrop (mj_host mj) (jrpcMethodForMetrics mj)])"
  using assms by (auto simp: mirror_send_def chan_send_def update_conv' split: if_splits)

lemma mirror_all_Cons:
  assumes "mirror_send (fst peer) (newMirrorJob p ctx pj peer) qs = (qs1, ms)"
  shows "fst (mirror_all p ctx pj (peer # peers) qs) = fst (mirror_all p ctx pj peers qs1)"
    and "snd (mirror_all p ctx pj (peer # peers) qs) = ms @ snd (mirror_all p ctx pj peers qs1)"
  using assms by (simp_all add: Let_def split: prod.splits)

declare mirror_all.simps(2) [simp del]

lemma mirror_all_other:
  assumes "host \<notin> fst ` set peers"
  shows "map_of (fst (mirror_all p ctx pj peers qs)) host = map_of qs host \<and>
    MirrorDrop host m \<notin> set (snd (mirror_all p ctx pj peers qs))"
  using assms
proof (induction peers arbitrary: qs)
  case (Cons peer peers)
  obtain qs1 ms where s: "mirror_send (fst peer) (newMirrorJob p ctx pj peer) qs = (qs1, ms)"
    by (cases "mirror_send (fst peer) (newMirrorJob p ctx pj peer) qs")
  have "MirrorDrop host m \<notin> set ms" using Cons.prems mirror_send_other(2) [OF s] by (auto simp: newMirrorJob_def)
  with Cons mirror_send_other(1) [OF s, of host] show ?case by (simp add: mirror_all_Cons [OF s])
qed simp

text \<open>
  A mirrored request reaches every peer: if the peer's queue of the request's priority has
  room, exactly one job with a copy of the request for that peer is appended to it; else its
  queue is left alone and one drop is counted. A slow peer thus costs the others nothing.
\<close>

theorem mirror_all_each_peer:
  assumes "distinct (map fst peers)" "(host, uri) \<in> set peers" "map_of qs host = Some c"
  shows "map_of (fst (mirror_all p ctx pj peers qs)) host =
      Some (if length (ch_buf c) < ch_cap c
            then c\<lparr>ch_buf := ch_buf c @ [newMirrorJob p ctx pj (host, uri)]\<rparr> else c) \<and>
    (MirrorDrop host (JrpcMethod (pj_triage pj)) \<in> set (snd (mirror_all p ctx pj peers qs)))
      = (ch_cap c \<le> length (ch_buf c))"
  using assms
proof (induction peers arbitrary: qs)
  case (Cons peer peers)
  obtain h u where peer: "peer = (h, u)" by (cases peer)
  obtain qs1 ms where s: "mirror_send h (newMirrorJob p ctx pj (h, u)) qs = (qs1, ms)"
    by (cases "mirror_send h (newMirrorJob p ctx pj (h, u)) qs")
  have all: "fst (mirror_all p ctx pj (peer # peers) qs) = fst (mirror_all p ctx pj peers qs1)"
      "snd (mirror_all p ctx pj (peer # peers) qs) = ms @ snd (mirror_all p ctx pj peers qs1)"
    using s peer by (simp_all add: mirror_all_Cons)
  show ?case
  proof (cases "h = host")
    case True
    with Cons.prems peer have u: "u = uri" "host \<notin> fst ` set peers" by (auto simp: rev_image_eqI)
    show ?thesis
      using mirror_send_here [OF s, of c] Cons.prems(3) True
      by (simp add: all mirror_all_other [OF u(2)] u(1) newMirrorJob_def)
  next
    case False
    then have "map_of qs1 host = Some c" "MirrorDrop host (JrpcMethod (pj_triage pj)) \<notin> set ms"
      using mirror_send_other [OF s] Cons.prems(3) by (auto simp: newMirrorJob_def)
    moreover have "(host, uri) \<in> set peers" "distinct (map fst peers)" using Cons.prems False peer by auto
    ultimately show ?thesis using Cons.IH [of qs1] by (simp add: all)
  qed
qed simp

definition demo_mjob :: "string proxy_job" where
  "demo_mjob = newProxyJob (demo_http no_chaos) (0, 0, 0) (zero_Request\<lparr>Mirror := True\<rparr>, AcquireResponse) (demo_ctx [])"

theorem mirror_all_each_peer_witness:
  "map_of (fst (mirror_all (demo_http no_chaos) (demo_ctx []) demo_mjob [(''p'', ''http://p''), (''q'', ''http://q'')]
       [(''p'', make_chan 512), (''q'', make_chan 0)])) ''q'' = Some (make_chan 0) \<and>
   MirrorDrop ''q'' (JrpcMethod (pj_triage demo_mjob)) \<in> set (snd (mirror_all (demo_http no_chaos) (demo_ctx []) demo_mjob
       [(''p'', ''http://p''), (''q'', ''http://q'')] [(''p'', make_chan 512), (''q'', make_chan 0)]))"
  using mirror_all_each_peer [of "[(''p'', ''http://p''), (''q'', ''http://q'')]" "''q''" "''http://q''"
      "[(''p'', make_chan 512), (''q'', make_chan 0)]" "make_chan 0"]
  by (simp add: make_chan_def)

end
