(* ===== verification/Http_Replies.thy ===== *)
theory Http_Replies
  imports Http_Jobs
begin

text \<open>
  What clients and logs get to see of the jobs of theory \<open>Http_Jobs\<close>: the error body for a failed
  backend (when it is JSON, and when not), the latency injected, the sanitized log entries.
\<close>

section \<open>Go quoting as JSON\<close>

text \<open>The ASCII characters Go and JSON quote alike.\<close>

definition json_safe :: "char \<Rightarrow> bool" where
  "json_safe c \<longleftrightarrow> (32 \<le> (of_char c :: nat) \<and> (of_char c :: nat) < 127)
     \<or> c \<in> {CHR 0x08, CHR 0x09, CHR 0x0A, CHR 0x0C, CHR 0x0D}"

lemma unquote_Cons_plain: "c \<noteq> CHR 0x5C \<Longrightarrow> (of_char c :: nat) < 128 \<Longrightarrow> unquote (c # s) = c # unquote s"
  by (subst unquote.simps) (simp add: rune_len_def)

lemma unquote_Cons_escape: "c \<noteq> CHR ''u'' \<Longrightarrow> unquote (CHR 0x5C # c # s) = escape c # unquote s"
  by (subst unquote.simps) simp

lemma unquote_Nil: "unquote [] = []"
  by (subst unquote.simps) simp

lemma quote_char_cases:
  assumes "json_safe c"
  obtains (plain) "quote_char c = [c]" "c \<noteq> CHR 0x22" "c \<noteq> CHR 0x5C" "32 \<le> (of_char c :: nat)" "(of_char c :: nat) < 128"
  | (escaped) x where "quote_char c = [CHR 0x5C, x]" "escape x = c" "x \<noteq> CHR ''u''"
      "x \<in> set ''bfnrt/'' \<or> x = CHR 0x5C \<or> x = CHR 0x22"
proof (cases "c \<in> {CHR 0x22, CHR 0x5C, CHR 0x08, CHR 0x09, CHR 0x0A, CHR 0x0C, CHR 0x0D}")
  case True
  then show thesis
    by (intro escaped [of "if c = CHR 0x08 then CHR ''b'' else if c = CHR 0x09 then CHR ''t''
        else if c = CHR 0x0A then CHR ''n'' else if c = CHR 0x0C then CHR ''f''
        else if c = CHR 0x0D then CHR ''r'' else c"]) (auto simp: quote_char_def escape_def)
next
  case False
  then have "32 \<le> (of_char c :: nat)" "(of_char c :: nat) < 127" using assms by (auto simp: json_safe_def)
  moreover from this have "c \<noteq> CHR 0x07" "c \<noteq> CHR 0x0B" "c \<noteq> CHR 0x7F" by auto
  ultimately show thesis using False by (intro plain) (auto simp: quote_char_def)
qed

lemma json_safe_ascii: "json_safe c \<Longrightarrow> (of_char c :: nat) < 128"
  by (auto simp: json_safe_def)

lemma scan_string_quote:
  "list_all json_safe s \<Longrightarrow> scan_string (quote_ascii f s @ CHR 0x22 # r) = Some (quote_ascii f s, r)"
proof (induction s)
  case (Cons c s)
  then have c: "json_safe c" by simp
  from c show ?case
  proof (cases rule: quote_char_cases)
    case plain
    with Cons show ?thesis by (simp add: json_safe_ascii [OF c])
  next
    case (escaped x)
    with Cons show ?thesis by (auto simp: json_safe_ascii [OF c])
  qed
qed simp

lemma unquote_quote: "list_all json_safe s \<Longrightarrow> unquote (quote_ascii f s) = s"
proof (induction s)
  case (Cons c s)
  then have c: "json_safe c" by simp
  from c show ?case
  proof (cases rule: quote_char_cases)
    case plain
    with Cons show ?thesis by (simp add: json_safe_ascii [OF c] unquote_Cons_plain)
  next
    case (escaped x)
    with Cons show ?thesis by (simp add: json_safe_ascii [OF c] unquote_Cons_escape)
  qed
qed (simp add: unquote_Nil)

lemma spells_Quote: "list_all json_safe s \<Longrightarrow> spells d (Quote f s) (JStr s)"
  using spells_string [of "quote_ascii f s" d] scan_string_quote [of s f]
  by (simp add: Quote_def quoted_def unquote_quote)

section \<open>The answer when the backend fails\<close>

text \<open>
  When the backend fails on a JSON request whose call was parsed, the client gets status 202
  and a JSON-RPC error that carries the call's id, the code -32042 and exactly the error's text,
  for every id that is a uint64 or plain string and every text of printable ASCII, tabs and line
  breaks.
\<close>

theorem backend_error_answer:
  assumes "rq_ContentType (pj_req job) = ''application/json''" "JrpcID (pj_triage job) = GetID c" "id_ok c"
    and "list_all json_safe err"
  shows "StatusCode (error_response f job err res) = 202 \<and>
    json_parse (Body (error_response f job err res)) = Some (JObj [(''jsonrpc'', JStr ''2.0''), (''id'', id_json c),
      (''error'', JObj [(''code'', JNum ''-32042''), (''message'', JStr err)])])"
proof -
  have code: "int_literal ''-32042''"
    by (simp add: int_literal_def int_digits_def is_digit_def)
  have "spells 1 (''{'' @ commas (map member [(''code'', ''-32042'', JNum ''-32042''),
      (''message'', Quote f err, JStr err)]) @ ''}'')
    (JObj (map (\<lambda>(k, t, j). (k, j)) [(''code'', ''-32042'', JNum ''-32042''), (''message'', Quote f err, JStr err)]))"
    using spells_print [of 2 "JNum ''-32042''"] code spells_Quote [OF assms(4), of 2 f]
    by (intro spells_object) (simp_all add: plain_char_def maxNestingDepth_def numeral_2_eq_2)
  then have e: "spells 1 (''{\"code\":-32042,\"message\":'' @ Quote f err @ ''}'')
      (JObj [(''code'', JNum ''-32042''), (''message'', JStr err)])"
    by (simp add: quoted_def)
  have "spells 0 (''{'' @ commas (map member [(''jsonrpc'', json_print (JStr ''2.0''), JStr ''2.0''),
      (''id'', json_print (id_json c), id_json c),
      (''error'', ''{\"code\":-32042,\"message\":'' @ Quote f err @ ''}'', JObj [(''code'', JNum ''-32042''), (''message'', JStr err)])]) @ ''}'')
    (JObj (map (\<lambda>(k, t, j). (k, j)) [(''jsonrpc'', json_print (JStr ''2.0''), JStr ''2.0''),
      (''id'', json_print (id_json c), id_json c),
      (''error'', ''{\"code\":-32042,\"message\":'' @ Quote f err @ ''}'', JObj [(''code'', JNum ''-32042''), (''message'', JStr err)])]))"
    using e spells_print [of 1 "id_json c"] spells_print [of 1 "JStr ''2.0''"] assms(3)
    by (intro spells_object) (simp_all add: plain_char_def maxNestingDepth_def)
  from spells_parse [OF this] assms(1,2) show ?thesis
    by (simp add: error_response_def jrpc_body_def GetID_json quoted_def)
qed

text \<open>
  A request that triage could not parse has no id to answer with: if the backend fails on
  it, the body sent is not JSON (its \<open>id\<close> has no value).
\<close>

theorem backend_error_unparsed:
  assumes "rq_ContentType (pj_req job) = ''application/json''" "JrpcID (pj_triage job) = []"
  shows "json_parse (Body (error_response f job err res)) = None"
proof -
  let ?rest = "''\"error\":{\"code\":-32042,\"message\":'' @ Quote f err @ ''}''"
  have "pval 1 1 ('','' @ ?rest @ ''}'') = SyntaxError"
    by (simp add: scan_head_def scan_number_def scan_int_def scan_digits_def is_digit_def)
  then have "pobj 2 1 (quoted ''id'' @ '':'' @ '','' @ ?rest @ ''}'') = SyntaxError"
    using pobj_error_value [of 1 1 "'','' @ ?rest @ ''}''" "''id''"] by (simp add: plain_char_def numeral_2_eq_2)
  then obtain m where "pobj m 1 (quoted ''jsonrpc'' @ '':'' @ json_print (JStr ''2.0'') @ '','' @
      quoted ''id'' @ '':'' @ '','' @ ?rest @ ''}'') = SyntaxError"
    using pobj_error_after [of 2 1 _ "''jsonrpc''" "JStr ''2.0''"] by (auto simp: plain_char_def)
  from json_parse_error [OF pval_error_object [of m 0]] this show ?thesis
    using assms by (simp add: error_response_def jrpc_body_def quoted_def maxNestingDepth_def)
qed

definition demo_job :: "string \<Rightarrow> string proxy_job" where
  "demo_job rid = \<lparr>pj_req = demo_ctx [], pj_res = AcquireResponse,
     pj_triage = zero_Request\<lparr>Proxy := True, JrpcID := rid\<rparr>, pj_proxy = BackendDo\<rparr>"

theorem backend_error_answer_witness:
  "json_parse (Body (error_response (\<lambda>s. s) (demo_job ''7'') ''dial \"b\"'' AcquireResponse))
    = Some (JObj [(''jsonrpc'', JStr ''2.0''), (''id'', JNum ''7''),
      (''error'', JObj [(''code'', JNum ''-32042''), (''message'', JStr ''dial \"b\"'')])])"
proof -
  let ?c = "CallUint64 \<lparr>u_ID = 7, u_Method = [], u_Params = None\<rparr>"
  have seven: "dec 7 = ''7''" by code_simp
  have "rq_ContentType (pj_req (demo_job ''7'')) = ''application/json''" "JrpcID (pj_triage (demo_job ''7'')) = GetID ?c"
    "id_ok ?c" "list_all json_safe ''dial \"b\"''"
    by (simp_all add: demo_job_def demo_ctx_def seven json_safe_def)
  from backend_error_answer [OF this, of "\<lambda>s. s" AcquireResponse] show ?thesis by (simp add: seven)
qed

theorem backend_error_unparsed_witness:
  "json_parse (Body (error_response (\<lambda>s. s) (demo_job []) ''timeout'' AcquireResponse)) = None"
  by (rule backend_error_unparsed) (simp_all add: demo_job_def demo_ctx_def)

section \<open>The injected latency\<close>

text \<open>
  With any chaos latencies the validation accepts (both from 0 up to a minute, in either
  order), the injected latency never panics; it keeps a request at least \<open>min\<close> after receipt, and
  sleeps no longer than until the greater of \<open>min\<close> and \<open>max\<close> after receipt; without chaos there is
  no sleep.
\<close>

theorem injected_sleep_bounds:
  assumes "0 \<le> MinInjectedLatency ch" "0 \<le> MaxInjectedLatency ch"
    and "MaxInjectedLatency ch \<le> 60 * 10 ^ 9" "0 \<le> elapsed"
  shows "\<exists>s. injected_sleep ch draw elapsed = Ret s \<and> 0 \<le> s \<and>
    elapsed + s \<le> max elapsed (max (MinInjectedLatency ch) (MaxInjectedLatency ch)) \<and>
    (if Enabled ch then MinInjectedLatency ch \<le> elapsed + s else s = 0)"
proof -
  have w: "wrap64 (MaxInjectedLatency ch + 1) = MaxInjectedLatency ch + 1"
    using assms by (intro wrap64_id) simp_all
  have "0 \<le> draw mod (MaxInjectedLatency ch + 1)" "draw mod (MaxInjectedLatency ch + 1) \<le> MaxInjectedLatency ch"
    using assms pos_mod_bound [of "MaxInjectedLatency ch + 1" draw] by simp_all
  with w assms show ?thesis by (auto simp: injected_sleep_def Let_def)
qed

theorem injected_sleep_bounds_witness:
  "\<exists>s. injected_sleep (no_chaos\<lparr>Enabled := True, MinInjectedLatency := 5, MaxInjectedLatency := 10\<rparr>) 23 2 = Ret s
     \<and> 3 \<le> s \<and> s \<le> 8"
  using injected_sleep_bounds [of "no_chaos\<lparr>Enabled := True, MinInjectedLatency := 5, MaxInjectedLatency := 10\<rparr>" 2 23]
  by (auto simp: no_chaos_def)

section \<open>What is logged of a request\<close>

text \<open>
  C20: What the log of a proxy job holds of the request's body, as long as decoding a transaction
  does not panic: nothing if logging of requests is off, the body is over the size limit or the
  method is not to be logged; otherwise either the parsed body with every raw transaction replaced,
  and nothing else changed; or, only when the body cannot be decoded (it is not JSON, or a number in
  it is too large), the body as it is.
\<close>

definition may_log_request :: "'u HTTP \<Rightarrow> 'u proxy_job \<Rightarrow> bool" where
  "may_log_request p job \<longleftrightarrow> LogRequests (cfg p) \<and> int (length (rq_Body (pj_req job))) \<le> LogRequestsMaxSize (cfg p) \<and>
     shouldLogMethod p (JrpcMethod (pj_triage job))"

theorem logged_request_sanitized:
  assumes "execProxyJob e p backend draw elapsed job = Ret r" "no_panic (env_eth e)"
  shows "(\<forall>j. JsonRequest j \<in> set (ex_log r) \<longrightarrow> may_log_request p job \<and>
      (\<exists>msg. json_parse (rq_Body (pj_req job)) = Some msg \<and> any_ok msg \<and>
         j = rewrite (tx_slot (to_any msg)) (tx_summary (env_eth e)) (to_any msg))) \<and>
    (\<forall>b. HttpRequest b \<in> set (ex_log r) \<longrightarrow> may_log_request p job \<and> b = rq_Body (pj_req job) \<and>
      (json_parse b = None \<or> (\<exists>msg. json_parse b = Some msg \<and> \<not> any_ok msg)))"
proof -
  have san: "Sanitize (env_eth e) (to_any msg) = Ret (rewrite (tx_slot (to_any msg)) (tx_summary (env_eth e)) (to_any msg))" for msg
    by (rule Sanitize_by_rewriting [OF assms(2) json_distinct_to_any])
  obtain err res where ra: "run_action backend job = (err, res)" by (cases "run_action backend job")
  let ?res = "case err of None \<Rightarrow> res | Some m \<Rightarrow> error_response (env_quote_rest e) job m res"
  obtain fs gs where fs: "log_request (env_eth e) p (JrpcMethod (pj_triage job)) (rq_Body (pj_req job)) = Ret fs"
      and gs: "log_response (env_eth e) (env_gunzip e) p (JrpcMethod (pj_triage job)) ?res = Ret gs"
      and log: "ex_log r = (case err of None \<Rightarrow> [] | Some m \<Rightarrow> [ErrorBackend m]) @ fs @ gs @ [HttpStatus (StatusCode ?res)]"
    using assms(1) by (auto simp: execProxyJob_def ra Let_def go_bind_Ret_iff)
  have "JsonRequest j \<notin> set gs" "HttpRequest b \<notin> set gs" for j b
    using gs by (auto simp: log_response_def log_body_def go_map_Ret_iff split: if_splits prod.splits option.splits)
  with log have in_fs: "JsonRequest j \<in> set (ex_log r) \<Longrightarrow> JsonRequest j \<in> set fs"
      "HttpRequest b \<in> set (ex_log r) \<Longrightarrow> HttpRequest b \<in> set fs" for j b
    by (auto split: option.splits)
  have "may_log_request p job \<and> (\<exists>msg. json_parse (rq_Body (pj_req job)) = Some msg \<and> any_ok msg \<and>
      j = rewrite (tx_slot (to_any msg)) (tx_summary (env_eth e)) (to_any msg))" if "JsonRequest j \<in> set fs" for j
    using fs that
    by (auto simp: log_request_def may_log_request_def Unmarshal_any_def go_map_Ret_iff san split: if_splits option.splits)
  moreover have "may_log_request p job \<and> b = rq_Body (pj_req job) \<and>
      (json_parse b = None \<or> (\<exists>msg. json_parse b = Some msg \<and> \<not> any_ok msg))" if "HttpRequest b \<in> set fs" for b
    using fs that
    by (auto simp: log_request_def may_log_request_def Unmarshal_any_def go_map_Ret_iff split: if_splits option.splits)
  ultimately show ?thesis using in_fs by blast
qed

theorem logged_request_sanitized_witness:
  "\<exists>r. execProxyJob demo_env (demo_http no_chaos) (\<lambda>_ res. (None, res)) 0 0
      (newProxyJob (demo_http no_chaos) (0, 0, 0) (zero_Request, AcquireResponse)
        (demo_ctx (json_print (JObj [(''method'', JStr ''eth_sendRawTransaction''), (''params'', JArr [JStr ''0x12''])])))) = Ret r
    \<and> JsonRequest (JObj [(''method'', JStr ''eth_sendRawTransaction''), (''params'', JArr [JStr ''#12''])]) \<in> set (ex_log r)"
proof -
  let ?msg = "JObj [(''method'', JStr ''eth_sendRawTransaction''), (''params'', JArr [JStr ''0x12''])]"
  let ?p = "demo_http no_chaos"
  let ?job = "newProxyJob ?p (0, 0, 0) (zero_Request, AcquireResponse) (demo_ctx (json_print ?msg))"
  have parse: "json_parse (json_print ?msg) = Some ?msg"
    by (rule json_parse_print) (simp add: plain_char_def maxNestingDepth_def)
  have short: "int (length (json_print ?msg)) \<le> 4096" by (simp add: quoted_def)
  have any: "to_any ?msg = ?msg" "any_ok ?msg" by simp_all
  have "json_distinct ?msg" by simp
  note s = Sanitize_by_rewriting [OF no_panic_demo this]
  have job: "rq_Body (pj_req ?job) = json_print ?msg" "run_action b ?job = (None, AcquireResponse)" for b
    by (simp_all add: newProxyJob_def chaos_action_def demo_http_def demo_config_def no_chaos_def Let_def
        forwarded_def demo_ctx_def run_action_def del: json_print.simps)
  have req: "log_request demo_eth ?p m (json_print ?msg) = Ret [JsonRequest (rewrite (tx_slot ?msg) (tx_summary demo_eth) ?msg)]" for m
    unfolding log_request_def Unmarshal_any_def parse option.case any(1)
    using short by (simp add: demo_http_def demo_config_def shouldLogMethod_def s any(2) del: json_print.simps Sanitize.simps)
  obtain r where r: "execProxyJob demo_env ?p (\<lambda>_ res. (None, res)) 0 0 ?job = Ret r"
      "JsonRequest (rewrite (tx_slot ?msg) (tx_summary demo_eth) ?msg) \<in> set (ex_log r)"
    unfolding execProxyJob_def job prod.case Let_def
    by (simp add: demo_env_def req injected_sleep_def log_response_def del: json_print.simps)
      (simp add: demo_http_def demo_config_def no_chaos_def)
  have "rewrite (tx_slot ?msg) (tx_summary demo_eth) ?msg
      = JObj [(''method'', JStr ''eth_sendRawTransaction''), (''params'', JArr [JStr ''#12''])]"
    by code_simp
  moreover have "no_panic (env_eth demo_env)" using no_panic_demo by (simp add: demo_env_def)
  note logged_request_sanitized [OF r(1) this]
  ultimately show ?thesis using r by (simp only:) blast
qed

end
