(* ===== verification/Candlestick.thy ===== *)
theory Candlestick
  imports Go_Prelude
begin

text \<open>
  \<open>metrics/candlestick.go\<close>: a gauge that shows, for the values recorded since the last
  observation, their mean (as the close), the highest and lowest, and their number, with the
  previous close as the open. All fields are \<open>int64\<close>; the lock makes both operations atomic.
\<close>

section \<open>The code\<close>

record Int64Candlestick =
  cs_open :: int
  cs_close :: int
  cs_high :: int
  cs_low :: int
  cs_volume :: int

definition NewInt64Candlestick :: Int64Candlestick where
  "NewInt64Candlestick = \<lparr>cs_open = 0, cs_close = 0, cs_high = 0, cs_low = 0, cs_volume = 0\<rparr>"

definition Record :: "int \<Rightarrow> Int64Candlestick \<Rightarrow> Int64Candlestick" where
  "Record v c =
     (let c1 = c\<lparr>cs_close := wrap64 (cs_close c + v)\<rparr>;
          c2 = (if cs_volume c1 = 0 \<or> v > cs_high c1 then c1\<lparr>cs_high := v\<rparr> else c1);
          c3 = (if cs_volume c2 = 0 \<or> v < cs_low c2 then c2\<lparr>cs_low := v\<rparr> else c2)
      in c3\<lparr>cs_volume := wrap64 (cs_volume c3 + 1)\<rparr>)"

datatype candle_point = Open int | Close int | High int | Low int | Volume int

definition observe :: "Int64Candlestick \<Rightarrow> candle_point list \<times> Int64Candlestick" where
  "observe c =
     (if cs_volume c = 0 then ([], c)
      else let c1 = c\<lparr>cs_close := wrap64 (quot (cs_close c) (cs_volume c))\<rparr>
           in ([Open (cs_open c1), Close (cs_close c1), High (cs_high c1), Low (cs_low c1), Volume (cs_volume c1)],
               c1\<lparr>cs_open := cs_close c1, cs_close := 0, cs_high := 0, cs_low := 0, cs_volume := 0\<rparr>))"

section \<open>What is recorded\<close>

text \<open>An idle candlestick, and one after some values that fit.\<close>

definition idle :: "int \<Rightarrow> Int64Candlestick" where
  "idle o1 = \<lparr>cs_open = o1, cs_close = 0, cs_high = 0, cs_low = 0, cs_volume = 0\<rparr>"

definition fits :: "int list \<Rightarrow> bool" where
  "fits vs \<longleftrightarrow> sum_list (map abs vs) < 2 ^ 63 \<and> int (length vs) < 2 ^ 63"

lemma abs_sum_list_le: "abs (sum_list vs) \<le> sum_list (map abs (vs :: int list))"
  by (induction vs) auto

lemma fits_snoc: "fits (vs @ [v]) \<Longrightarrow> fits vs"
  by (auto simp: fits_def)

lemma max_min_if:
  "(max v m :: int) = (if v > m then v else m)" "(min v m :: int) = (if v < m then v else m)"
  by (simp_all add: max_def min_def)

lemma Record_fields:
  "Record v \<lparr>cs_open = o1, cs_close = s, cs_high = h, cs_low = l, cs_volume = n\<rparr> =
     \<lparr>cs_open = o1, cs_close = wrap64 (s + v), cs_high = (if n = 0 \<or> v > h then v else h),
      cs_low = (if n = 0 \<or> v < l then v else l), cs_volume = wrap64 (n + 1)\<rparr>"
  by (simp add: Record_def Let_def)

lemma Max_Min_snoc:
  fixes vs :: "int list"
  assumes "vs \<noteq> []"
  shows "(if v > Max (set vs) then v else Max (set vs)) = Max (set (vs @ [v]))"
    and "(if v < Min (set vs) then v else Min (set vs)) = Min (set (vs @ [v]))"
  unfolding max_min_if [symmetric] using assms by simp_all

lemma fold_Record:
  "fits vs \<Longrightarrow> vs \<noteq> [] \<Longrightarrow> fold Record vs (idle o1) =
     \<lparr>cs_open = o1, cs_close = sum_list vs, cs_high = Max (set vs), cs_low = Min (set vs), cs_volume = int (length vs)\<rparr>"
proof (induction vs rule: rev_induct)
  case (snoc v vs)
  have sum: "wrap64 (sum_list vs + v) = sum_list (vs @ [v])"
    using abs_sum_list_le [of "vs @ [v]"] snoc.prems(1) by (subst wrap64_id) (auto simp: fits_def)
  have len: "wrap64 (int (length vs) + 1) = int (length (vs @ [v]))"
    using snoc.prems(1) by (subst wrap64_id) (auto simp: fits_def)
  show ?case
  proof (cases "vs = []")
    case True
    with sum show ?thesis by (simp add: Record_fields idle_def)
  next
    case False
    have "fold Record (vs @ [v]) (idle o1) = Record v \<lparr>cs_open = o1, cs_close = sum_list vs,
        cs_high = Max (set vs), cs_low = Min (set vs), cs_volume = int (length vs)\<rparr>"
      using snoc.IH [OF fits_snoc [OF snoc.prems(1)] False] by simp
    also have "\<dots> = \<lparr>cs_open = o1, cs_close = sum_list (vs @ [v]), cs_high = Max (set (vs @ [v])),
        cs_low = Min (set (vs @ [v])), cs_volume = int (length (vs @ [v]))\<rparr>"
      unfolding Record_fields sum len Max_Min_snoc [OF False, symmetric] using False by (simp only: of_nat_eq_0_iff length_0_conv simp_thms)
    finally show ?thesis .
  qed
qed simp

lemma quot_nonneg: "0 < n \<Longrightarrow> quot a n = (if 0 \<le> a then a div n else - ((- a) div n))"
  by (auto simp: quot_def sgn_if)

lemma sum_list_bounds:
  "vs \<noteq> [] \<Longrightarrow> int (length vs) * Min (set vs) \<le> sum_list vs \<and> sum_list vs \<le> int (length vs) * Max (set vs)"
proof (induction vs)
  case (Cons v vs)
  show ?case
  proof (cases "vs = []")
    case False
    let ?m = "Min (set (v # vs))" and ?M = "Max (set (v # vs))"
    have b: "?m \<le> v" "v \<le> ?M" "?m \<le> Min (set vs)" "Max (set vs) \<le> ?M"
      using False by auto
    have "int (length vs) * ?m \<le> int (length vs) * Min (set vs)" "int (length vs) * Max (set vs) \<le> int (length vs) * ?M"
      using b by (simp_all add: mult_left_mono)
    with Cons.IH [OF False] have "int (length vs) * ?m \<le> sum_list vs" "sum_list vs \<le> int (length vs) * ?M"
      by linarith+
    with b(1,2) have "?m + int (length vs) * ?m \<le> v + sum_list vs" "v + sum_list vs \<le> ?M + int (length vs) * ?M"
      by linarith+
    then show ?thesis by (simp add: distrib_right)
  qed simp
qed simp

lemma quot_between:
  assumes "0 < n" "n * lo \<le> a" "a \<le> n * hi"
  shows "lo \<le> quot a n" "quot a n \<le> hi"
proof -
  define q where "q = quot a n"
  have "n * lo < n * (q + 1) \<and> n * (q - 1) < n * hi"
  proof (cases "0 \<le> a")
    case True
    then have "q = a div n" using quot_nonneg [OF assms(1), of a] by (simp add: q_def)
    then have "n * q + a mod n = a" by simp
    with pos_mod_bound [OF assms(1), of a] pos_mod_sign [OF assms(1), of a]
    have "n * q \<le> a \<and> a < n * q + n" by linarith
    with assms show ?thesis by (simp add: distrib_left right_diff_distrib)
  next
    case False
    then have q: "q = - ((- a) div n)" using quot_nonneg [OF assms(1), of a] by (simp add: q_def)
    have "n * ((- a) div n) + (- a) mod n = - a" by simp
    with pos_mod_bound [OF assms(1), of "- a"] pos_mod_sign [OF assms(1), of "- a"]
    have "n * ((- a) div n) \<le> - a \<and> - a < n * ((- a) div n) + n" by linarith
    then have "a \<le> n * q" "n * q - n < a" by (simp_all add: q)
    with assms show ?thesis by (simp add: distrib_left right_diff_distrib)
  qed
  then have "lo < q + 1" "q - 1 < hi" using assms(1) by (simp_all only: mult_less_cancel_left_pos)
  then show "lo \<le> quot a n" "quot a n \<le> hi" by (simp_all add: q_def)
qed

text \<open>
  C39: After at least one value was recorded since the last observation, and while their
  absolute values sum to less than \<open>2 ^ 63\<close>, an observation reports the previous close as the
  open, the mean of the values (truncated toward zero) as the close, their maximum, minimum
  and number; the close lies between the two; and the candlestick is idle again with the close
  as the next open.
\<close>

theorem candlestick_reports:
  assumes "vs \<noteq> []" "fits vs"
  shows "observe (fold Record vs (idle o1)) =
      ([Open o1, Close (quot (sum_list vs) (int (length vs))), High (Max (set vs)), Low (Min (set vs)),
        Volume (int (length vs))], idle (quot (sum_list vs) (int (length vs)))) \<and>
    Min (set vs) \<le> quot (sum_list vs) (int (length vs)) \<and> quot (sum_list vs) (int (length vs)) \<le> Max (set vs)"
proof -
  let ?q = "quot (sum_list vs) (int (length vs))"
  have n: "0 < int (length vs)" using assms(1) by simp
  have mean: "Min (set vs) \<le> ?q" "?q \<le> Max (set vs)"
    using quot_between [OF n] sum_list_bounds [OF assms(1)] by blast+
  have abs: "abs v < 2 ^ 63" if "v \<in> set vs" for v
  proof -
    have "abs v \<le> sum_list (map abs vs)" using that by (intro member_le_sum_list) auto
    then show ?thesis using assms(2) by (simp add: fits_def)
  qed
  have "abs (Min (set vs)) < 2 ^ 63" "abs (Max (set vs)) < 2 ^ 63"
    using assms(1) by (intro abs; simp)+
  with mean have "wrap64 ?q = ?q" by (intro wrap64_id) linarith+
  with n mean show ?thesis
    unfolding fold_Record [OF assms(2,1)] observe_def by (simp add: idle_def Let_def)
qed

theorem candlestick_reports_witness:
  "fst (observe (fold Record [3, -8, 1] (idle 5))) = [Open 5, Close (-1), High 3, Low (-8), Volume 3]"
proof -
  have "fits [3, -8, 1]" by (simp add: fits_def)
  then show ?thesis using candlestick_reports [of "[3, -8, 1]" 5] by (simp add: quot_def)
qed

text \<open>
  Beyond that bound the sum wraps around: two values of \<open>2 ^ 62\<close> are reported with a
  negative mean, below the lowest value recorded.
\<close>

theorem candlestick_wraps:
  "\<exists>cl lo. fst (observe (fold Record [2 ^ 62, 2 ^ 62] NewInt64Candlestick)) =
      [Open 0, Close cl, High (2 ^ 62), Low lo, Volume 2] \<and> cl < lo"
  by (simp add: observe_def Record_def NewInt64Candlestick_def wrap64_def quot_def Let_def)

end
