(* ===== verification/Config_Checks.thy ===== *)
theory Config_Checks
  imports Config
begin

text \<open>
  What \<open>Config.Validate\<close> accepts, part by part: every check is an interval or the success of a
  parser, and the loop over the peers is a filter that running it again does not change.
\<close>

section \<open>Lists of errors\<close>

named_theorems check_simps \<open>when a check reports nothing\<close>

lemma flat_error_None [check_simps]: "flat_error es = None \<longleftrightarrow> es = []"
  by (simp add: flat_error_def FlattenErrors_def split: list.splits)

lemma errs_of_Nil [check_simps]: "errs_of e = [] \<longleftrightarrow> e = None"
  by (simp add: errs_of_def split: option.splits)

lemma errs_of_None [simp]: "errs_of None = []"
  by (simp add: errs_of_def)

lemma error_if_Nil [check_simps]: "error_if c e = [] \<longleftrightarrow> \<not> c"
  by (simp add: error_if_def)

lemma size_errors_Nil [check_simps]: "size_errors s n = [] \<longleftrightarrow> 4 \<le> n \<and> n \<le> 4096"
  by (auto simp: size_errors_def check_simps)

lemma count_errors_Nil [check_simps]: "count_errors s n = [] \<longleftrightarrow> 0 \<le> n \<and> n \<le> 1024"
  by (auto simp: count_errors_def check_simps)

lemma listen_errors_Nil [check_simps]: "listen_errors env s a = [] \<longleftrightarrow> ResolveTCPAddr env a = None"
  by (simp add: listen_errors_def split: option.splits)

lemma latency_errors_Nil [check_simps]: "latency_errors s l m = [] \<longleftrightarrow> 0 \<le> l \<and> l \<le> Minute"
  by (auto simp: latency_errors_def check_simps)

lemma probability_errors_Nil [check_simps]: "probability_errors s q = [] \<longleftrightarrow> 0 \<le> q \<and> q \<le> 100"
  by (auto simp: probability_errors_def check_simps)

definition tls_ok :: "'e host_env \<Rightarrow> string \<Rightarrow> string \<Rightarrow> bool" where
  "tls_ok env crt key \<longleftrightarrow> crt = [] \<and> key = [] \<or> crt \<noteq> [] \<and> key \<noteq> [] \<and> LoadTLSCertificate env crt key = None"

lemma tls_errors_Nil [check_simps]: "tls_errors env s crt key = [] \<longleftrightarrow> tls_ok env crt key"
  by (auto simp: tls_errors_def tls_ok_def split: option.splits)

section \<open>Chaos and healthcheck\<close>

definition chaos_ok :: "chaos_config \<Rightarrow> bool" where
  "chaos_ok ch \<longleftrightarrow> MinInjectedLatency ch \<in> {0..Minute} \<and> MaxInjectedLatency ch \<in> {0..Minute} \<and>
     InjectedHttpErrorProbability ch \<in> {0..100} \<and> InjectedJrpcErrorProbability ch \<in> {0..100} \<and>
     InjectedInvalidJrpcResponseProbability ch \<in> {0..100}"

definition ws_chaos_ok :: "ws_chaos_config \<Rightarrow> bool" where
  "ws_chaos_ok ch \<longleftrightarrow> WsMinInjectedLatency ch \<in> {0..Minute} \<and> WsMaxInjectedLatency ch \<in> {0..Minute} \<and>
     DroppedMessageProbability ch \<in> {0..100} \<and> InjectedInvalidFlashblockPayloadProbability ch \<in> {0..100} \<and>
     InjectedMalformedJsonMessageProbability ch \<in> {0..100}"

definition healthcheck_ok :: "'e host_env \<Rightarrow> healthcheck_config \<Rightarrow> bool" where
  "healthcheck_ok env hc \<longleftrightarrow> Interval hc \<in> {Second..Minute} \<and> ThresholdHealthy hc \<in> {1..10} \<and>
     ThresholdUnhealthy hc \<in> {1..10} \<and> (URL hc \<noteq> [] \<longrightarrow> (\<exists>u. url_Parse env (URL hc) = Inr u))"

definition settled :: "chaos_config \<Rightarrow> chaos_config" where
  "settled ch = ch\<lparr>MaxInjectedLatency := (if MaxInjectedLatency ch = 0 then MinInjectedLatency ch else MaxInjectedLatency ch)\<rparr>"

lemma ChaosHttp_Validate_ok: "fst (ChaosHttp_Validate ch) = None \<longleftrightarrow> chaos_ok ch"
  by (auto simp: ChaosHttp_Validate_def chaos_ok_def Let_def check_simps)

lemma ChaosHttp_Validate_settled: "snd (ChaosHttp_Validate ch) = settled ch"
  by (simp add: ChaosHttp_Validate_def settled_def Let_def)

lemma ChaosWebsocket_Validate_ok: "fst (ChaosWebsocket_Validate ch) = None \<longleftrightarrow> ws_chaos_ok ch"
  by (auto simp: ChaosWebsocket_Validate_def ws_chaos_ok_def Let_def check_simps)

lemma Healthcheck_Validate_ok: "Healthcheck_Validate env hc = None \<longleftrightarrow> healthcheck_ok env hc"
  by (auto simp: Healthcheck_Validate_def healthcheck_ok_def check_simps split: sum.splits)

section \<open>The peers\<close>

definition kept :: "'e host_env \<Rightarrow> bool \<Rightarrow> url \<Rightarrow> ip list \<Rightarrow> ip list \<Rightarrow> string \<Rightarrow> bool" where
  "kept env remove b bIPs lIPs p \<longleftrightarrow>
     (\<exists>u ips. url_Parse env p = Inr u \<and> LookupIP env (Hostname u) = Inr ips \<and>
        \<not> (remove \<and> is_backend b bIPs lIPs u ips))"

definition peer_errors :: "'e host_env \<Rightarrow> string \<Rightarrow> 'e goerr list" where
  "peer_errors env p =
     (case url_Parse env p of
        Inl e \<Rightarrow> [Errorf errHttpProxyInvalidPeerURL '': %s: %w'' [TextArg p, ErrArg e]] | Inr u \<Rightarrow> [])"

lemma take_update_snoc: "idx < length xs \<Longrightarrow> take (Suc idx) (xs[idx := p]) = take idx xs @ [p]"
  by (simp add: take_Suc_conv_app_nth)

lemma kept_cases:
  "kept env remove b bIPs lIPs p =
     (case url_Parse env p of Inl e \<Rightarrow> False
      | Inr u \<Rightarrow> (case LookupIP env (Hostname u) of Inl e \<Rightarrow> False | Inr ips \<Rightarrow> \<not> (remove \<and> is_backend b bIPs lIPs u ips)))"
  by (auto simp: kept_def split: sum.splits)

lemma peers_loop_filters:
  assumes "i \<le> n" "idx \<le> i" "length peers = n" "length orig = n" "drop i peers = drop i orig"
    and "take idx peers = filter (kept env remove b bIPs lIPs) (take i orig)"
    and "peers_loop env remove b bIPs lIPs n i idx peers errs = (idx', peers', errs')"
  shows "take idx' peers' = filter (kept env remove b bIPs lIPs) orig \<and>
    errs' = errs @ concat (map (peer_errors env) (drop i orig))"
  using assms
proof (induction env remove b bIPs lIPs n i idx peers errs rule: peers_loop.induct)
  case (1 env remove b bIPs lIPs n i idx peers errs)
  show ?case
  proof (cases "i < n")
    case False
    then show ?thesis using "1.prems" by (simp add: peers_loop.simps)
  next
    case True
    define p where "p = orig ! i"
    have p: "peers ! i = p" "drop i orig = p # drop (Suc i) orig" "take (Suc i) orig = take i orig @ [p]"
      using "1.prems"(3-5) True unfolding p_def
      by (metis append_Nil2 hd_drop_conv_nth, simp_all add: Cons_nth_drop_Suc take_Suc_conv_app_nth)
    have tl: "drop (Suc i) peers = drop (Suc i) orig"
      using "1.prems"(5) by (metis drop_Suc tl_drop)
    consider (bad) e where "url_Parse env p = Inl e"
      | (gone) u e where "url_Parse env p = Inr u" "LookupIP env (Hostname u) = Inl e"
      | (found) u ips where "url_Parse env p = Inr u" "LookupIP env (Hostname u) = Inr ips"
      by (meson sum.exhaust)
    then show ?thesis
    proof cases
      case bad
      then show ?thesis
        using "1.IH"(1) [OF True refl, of e] "1.prems" True p tl
        by (subst (asm) peers_loop.simps) (simp add: peer_errors_def kept_cases Let_def)
    next
      case gone
      then show ?thesis
        using "1.IH"(2) [OF True refl, of u e] "1.prems" True p tl
        by (subst (asm) peers_loop.simps) (simp add: peer_errors_def kept_cases Let_def)
    next
      case found
      show ?thesis
      proof (cases "remove \<and> is_backend b bIPs lIPs u ips")
        case drop: True
        then show ?thesis
          using "1.IH"(3) [OF True refl, of u ips] "1.prems" True p tl found
          by (subst (asm) peers_loop.simps) (simp add: peer_errors_def kept_cases Let_def)
      next
        case keep: False
        have k: "kept env remove b bIPs lIPs p" using keep found by (simp add: kept_cases)
        have "take (Suc idx) (peers[idx := p]) = filter (kept env remove b bIPs lIPs) (take (Suc i) orig)"
          using "1.prems" True p k by (simp add: take_update_snoc)
        moreover have "drop (Suc i) (peers[idx := p]) = drop (Suc i) orig"
          using tl "1.prems"(2) by simp
        ultimately show ?thesis
          using "1.IH"(4) [OF True refl, of u ips] "1.prems" True p keep found
          by (subst (asm) peers_loop.simps) (auto simp: peer_errors_def Let_def)
      qed
    qed
  qed
qed

definition backend_ips :: "'e host_env \<Rightarrow> url \<Rightarrow> ip list" where
  "backend_ips env b = (case LookupIP env (Hostname b) of Inl e \<Rightarrow> [] | Inr ips \<Rightarrow> ips)"

definition own_ips :: "'e host_env \<Rightarrow> HttpProxy \<Rightarrow> ip list" where
  "own_ips env p = (case local_ips env p of Inl e \<Rightarrow> [] | Inr ips \<Rightarrow> ips)"

definition keeps :: "'e host_env \<Rightarrow> HttpProxy \<Rightarrow> string \<Rightarrow> bool" where
  "keeps env p q \<longleftrightarrow>
     (\<exists>b. url_Parse env (BackendURL p) = Inr b \<and>
        kept env (RemoveBackendFromPeers p) b (backend_ips env b) (own_ips env p) q)"

definition cleaned :: "'e host_env \<Rightarrow> HttpProxy \<Rightarrow> HttpProxy" where
  "cleaned env p = p\<lparr>PeerURLs := filter (keeps env p) (PeerURLs p)\<rparr>"

definition proxy_ok :: "'e host_env \<Rightarrow> HttpProxy \<Rightarrow> bool" where
  "proxy_ok env p \<longleftrightarrow>
     BackendTimeout p \<in> {0<..30 * Second} \<and>
     (\<exists>b ips. url_Parse env (BackendURL p) = Inr b \<and> LookupIP env (Hostname b) = Inr ips) \<and>
     (RemoveBackendFromPeers p \<longrightarrow> (\<exists>ips. LocalIPs (Interfaces env) = Inr ips)) \<and>
     (\<forall>q\<in>set (PeerURLs p). \<exists>u. url_Parse env q = Inr u) \<and>
     ClientIdleConnectionTimeout p \<in> {0<..60 * Hour} \<and>
     ResolveTCPAddr env (ListenAddress p) = None \<and>
     MaxBackendConnectionsPerHost p \<in> {0..1024} \<and>
     MaxBackendConnectionWaitTimeout p \<in> {0..Minute} \<and>
     MaxClientConnectionsPerIP p \<in> {0..1024} \<and>
     MaxRequestSizeMb p \<in> {4..4096} \<and> MaxResponseSizeMb p \<in> {4..4096} \<and>
     tls_ok env (TLSCertificate p) (TLSKey p)"

lemma peer_errors_Nil: "peer_errors env q = [] \<longleftrightarrow> (\<exists>u. url_Parse env q = Inr u)"
  by (auto simp: peer_errors_def split: sum.splits)

lemma validate_urls_eq:
  assumes "url_Parse env (BackendURL p) = Inr b"
  obtains errs where "validate_urls env p = Ret (errs, cleaned env p)"
    and "errs = [] \<longleftrightarrow> (\<exists>ips. LookupIP env (Hostname b) = Inr ips) \<and>
       (RemoveBackendFromPeers p \<longrightarrow> (\<exists>ips. LocalIPs (Interfaces env) = Inr ips)) \<and>
       (\<forall>q\<in>set (PeerURLs p). \<exists>u. url_Parse env q = Inr u)"
proof -
  let ?n = "length (PeerURLs p)"
  obtain idx peers errs where loop: "peers_loop env (RemoveBackendFromPeers p) b (backend_ips env b) (own_ips env p)
      ?n 0 0 (PeerURLs p) [] = (idx, peers, errs)"
    by (metis prod_cases3)
  have "keeps env p = kept env (RemoveBackendFromPeers p) b (backend_ips env b) (own_ips env p)"
    using assms by (simp add: keeps_def fun_eq_iff)
  with peers_loop_filters [OF _ _ refl refl refl _ loop]
  have f: "take idx peers = filter (keeps env p) (PeerURLs p)" "errs = concat (map (peer_errors env) (PeerURLs p))"
    using assms by (simp_all add: keeps_def)
  show ?thesis
  proof (rule that)
    show "validate_urls env p = Ret ((case local_ips env p of
              Inl e \<Rightarrow> [Errorf errHttpProxyFailedToGetLocalIPs '': %s: %w'' [TextArg (ListenAddress p), ErrArg e]]
            | Inr ips \<Rightarrow> [])
          @ (case LookupIP env (Hostname b) of
              Inl e \<Rightarrow> [Errorf errHttpProxyInvalidBackendURL '': %s: %w:'' [TextArg (BackendURL p), ErrArg e]]
            | Inr ips \<Rightarrow> []) @ errs, cleaned env p)"
      using loop unfolding backend_ips_def own_ips_def
      by (simp add: validate_urls_def assms Let_def cleaned_def f(1))
  qed (auto simp: f(2) local_ips_def peer_errors_Nil split: sum.splits)
qed

lemma HttpProxy_Validate_panics: "url_Parse env (BackendURL p) = Inl e \<Longrightarrow> HttpProxy_Validate env p = Panic"
  by (simp add: HttpProxy_Validate_def validate_urls_def)

lemma HttpProxy_Validate_ok:
  assumes "url_Parse env (BackendURL p) = Inr b"
  obtains e where "HttpProxy_Validate env p = Ret (e, cleaned env p)" "e = None \<longleftrightarrow> proxy_ok env p"
proof -
  obtain errs where v: "validate_urls env p = Ret (errs, cleaned env p)"
    and e: "errs = [] \<longleftrightarrow> (\<exists>ips. LookupIP env (Hostname b) = Inr ips) \<and>
       (RemoveBackendFromPeers p \<longrightarrow> (\<exists>ips. LocalIPs (Interfaces env) = Inr ips)) \<and>
       (\<forall>q\<in>set (PeerURLs p). \<exists>u. url_Parse env q = Inr u)"
    using validate_urls_eq [OF assms] by metis
  show ?thesis
    by (rule that, simp add: HttpProxy_Validate_def v, auto simp: check_simps proxy_ok_def e assms)
qed

lemma cleaned_fields [simp]:
  "BackendURL (cleaned env p) = BackendURL p" "ProxyEnabled (cleaned env p) = ProxyEnabled p"
  "Chaos (cleaned env p) = Chaos p" "HealthcheckCfg (cleaned env p) = HealthcheckCfg p"
  "keeps env (cleaned env p) = keeps env p" "keeps env (p\<lparr>Chaos := ch\<rparr>) = keeps env p"
  by (auto simp: cleaned_def keeps_def own_ips_def local_ips_def fun_eq_iff)

lemma cleaned_idem [simp]: "cleaned env (cleaned env p) = cleaned env p"
proof -
  have "cleaned env (cleaned env p) = cleaned env p\<lparr>PeerURLs := filter (keeps env p) (PeerURLs (cleaned env p))\<rparr>"
    by (subst cleaned_def) simp
  then show ?thesis by (simp add: cleaned_def)
qed

lemma proxy_ok_cleaned: "proxy_ok env p \<Longrightarrow> proxy_ok env (cleaned env p)"
  by (simp add: proxy_ok_def cleaned_def)

section \<open>The whole configuration\<close>

definition http_ok :: "'e host_env \<Rightarrow> HttpProxy \<Rightarrow> bool" where
  "http_ok env p \<longleftrightarrow> proxy_ok env p \<and> chaos_ok (Chaos p) \<and> healthcheck_ok env (HealthcheckCfg p)"

definition ws_ok :: "'e host_env \<Rightarrow> WebsocketProxy \<Rightarrow> bool" where
  "ws_ok env p \<longleftrightarrow> (\<exists>u. url_Parse env (WsBackendURL p) = Inr u) \<and> ResolveTCPAddr env (WsListenAddress p) = None \<and>
     ReadBufferSize p \<in> {4..4096} \<and> WriteBufferSize p \<in> {4..4096} \<and>
     tls_ok env (WsTLSCertificate p) (WsTLSKey p) \<and> ws_chaos_ok (WsChaos p) \<and> healthcheck_ok env (WsHealthcheckCfg p)"

definition log_ok :: "'e host_env \<Rightarrow> Log_config \<Rightarrow> bool" where
  "log_ok env l \<longleftrightarrow> Mode l \<in> {''dev'', ''prod''} \<and> ParseAtomicLevel env (Level l) = None"

definition normal :: "'e host_env \<Rightarrow> HttpProxy \<Rightarrow> HttpProxy" where
  "normal env p = (cleaned env p)\<lparr>Chaos := settled (Chaos p)\<rparr>"

definition any_enabled :: "Config \<Rightarrow> bool" where
  "any_enabled c \<longleftrightarrow> ProxyEnabled (AuthrpcProxy (cfgAuthrpc c)) \<or> ProxyEnabled (cfgRpc c) \<or> WsProxyEnabled (cfgFlashblocks c)"

lemma WebsocketProxy_Validate_ok:
  "WebsocketProxy_Validate env p = None \<longleftrightarrow> (\<exists>u. url_Parse env (WsBackendURL p) = Inr u) \<and>
     ResolveTCPAddr env (WsListenAddress p) = None \<and> ReadBufferSize p \<in> {4..4096} \<and>
     WriteBufferSize p \<in> {4..4096} \<and> tls_ok env (WsTLSCertificate p) (WsTLSKey p)"
  by (auto simp: WebsocketProxy_Validate_def check_simps split: sum.splits)

lemma validate_http_field_ok:
  fixes env :: "'e host_env"
  assumes "url_Parse env (BackendURL p) = Inr b"
  obtains errs where "validate_http_field env p = Ret (errs, normal env p)" "errs = [] \<longleftrightarrow> http_ok env p"
proof -
  obtain e1 where e1: "HttpProxy_Validate env p = Ret (e1, cleaned env p)" "e1 = None \<longleftrightarrow> proxy_ok env p"
    using HttpProxy_Validate_ok [OF assms] by metis
  obtain e2 where e2: "HttpProxy_Validate env (cleaned env p) = Ret (e2, cleaned env p)"
      "e2 = None \<longleftrightarrow> proxy_ok env (cleaned env p)"
    using HttpProxy_Validate_ok [of env "cleaned env p" b] assms by auto
  obtain e3 :: "'e goerr option" where e3: "ChaosHttp_Validate (Chaos p) = (e3, settled (Chaos p))" "e3 = None \<longleftrightarrow> chaos_ok (Chaos p)"
    using ChaosHttp_Validate_ok ChaosHttp_Validate_settled by (metis prod.collapse)
  show ?thesis
    by (rule that, simp add: validate_http_field_def validate_outer_def validate_proxy_def e1(1) e2(1) e3(1) normal_def)
      (auto simp: check_simps http_ok_def e1(2) e2(2) e3(2) Healthcheck_Validate_ok proxy_ok_cleaned)
qed

lemma validate_http_field_panics: "url_Parse env (BackendURL p) = Inl e \<Longrightarrow> validate_http_field env p = Panic"
  by (simp add: validate_http_field_def HttpProxy_Validate_panics)

lemma validate_ws_field_ok:
  fixes env :: "'e host_env"
  shows "fst (validate_ws_field env p) = [] \<longleftrightarrow> ws_ok env p"
proof -
  obtain e :: "'e goerr option" and ch where e: "ChaosWebsocket_Validate (WsChaos p) = (e, ch)"
    by (metis prod.collapse)
  then have "e = None \<longleftrightarrow> ws_chaos_ok (WsChaos p)"
    using ChaosWebsocket_Validate_ok [of "WsChaos p", where 'a = 'e] by simp
  then show ?thesis
    by (simp add: validate_ws_field_def e Let_def check_simps)
      (auto simp: ws_ok_def WebsocketProxy_Validate_ok Healthcheck_Validate_ok)
qed

lemma Log_Validate_ok: "Log_Validate env l = None \<longleftrightarrow> log_ok env l"
  by (auto simp: Log_Validate_def log_ok_def split: option.splits)

lemma Metrics_Validate_ok: "Metrics_Validate env a = None \<longleftrightarrow> ResolveTCPAddr env a = None"
  by (auto simp: Metrics_Validate_def split: option.splits)

lemma validate_result:
  assumes "url_Parse env (BackendURL (AuthrpcProxy (cfgAuthrpc c))) = Inr b1"
    and "url_Parse env (BackendURL (cfgRpc c)) = Inr b2"
  obtains e where "validate env c = Ret (e,
      c\<lparr>cfgAuthrpc := (cfgAuthrpc c)\<lparr>AuthrpcProxy := normal env (AuthrpcProxy (cfgAuthrpc c))\<rparr>,
        cfgFlashblocks := snd (validate_ws_field env (cfgFlashblocks c)), cfgRpc := normal env (cfgRpc c)\<rparr>)"
    and "e = None \<longleftrightarrow> http_ok env (AuthrpcProxy (cfgAuthrpc c)) \<and> ws_ok env (cfgFlashblocks c) \<and>
      http_ok env (cfgRpc c) \<and> log_ok env (cfgLog c) \<and> ResolveTCPAddr env (MetricsListenAddress c) = None"
proof -
  obtain e1 where e1: "validate_http_field env (AuthrpcProxy (cfgAuthrpc c)) = Ret (e1, normal env (AuthrpcProxy (cfgAuthrpc c)))"
      "e1 = [] \<longleftrightarrow> http_ok env (AuthrpcProxy (cfgAuthrpc c))"
    using validate_http_field_ok [OF assms(1)] by metis
  obtain e3 where e3: "validate_http_field env (cfgRpc c) = Ret (e3, normal env (cfgRpc c))"
      "e3 = [] \<longleftrightarrow> http_ok env (cfgRpc c)"
    using validate_http_field_ok [OF assms(2)] by metis
  obtain e2 f where e2: "validate_ws_field env (cfgFlashblocks c) = (e2, f)" by (cases "validate_ws_field env (cfgFlashblocks c)")
  show ?thesis
    by (rule that, simp add: validate_def e1(1) e2 e3(1))
      (use validate_ws_field_ok [of env "cfgFlashblocks c"] e2 in
        \<open>auto simp: check_simps e1(2) e3(2) Log_Validate_ok Metrics_Validate_ok\<close>)
qed

lemma validate_panics:
  assumes "url_Parse env (BackendURL (AuthrpcProxy (cfgAuthrpc c))) = Inl e \<or> url_Parse env (BackendURL (cfgRpc c)) = Inl e"
  shows "validate env c = Panic"
proof -
  have "validate_http_field env (AuthrpcProxy (cfgAuthrpc c)) = Panic \<or> validate_http_field env (cfgRpc c) = Panic"
    using assms by (auto simp: validate_http_field_panics)
  then show ?thesis
    by (cases "validate_http_field env (AuthrpcProxy (cfgAuthrpc c))") (auto simp: validate_def split: prod.splits)
qed

section \<open>The properties\<close>

lemma settled_idem [simp]: "settled (settled ch) = settled ch"
  by (simp add: settled_def)

lemma normal_fields [simp]:
  "BackendURL (normal env p) = BackendURL p" "ProxyEnabled (normal env p) = ProxyEnabled p"
  "Chaos (normal env p) = settled (Chaos p)" "PeerURLs (normal env p) = filter (keeps env p) (PeerURLs p)"
  by (simp_all add: normal_def) (simp add: cleaned_def)

lemma keeps_update [simp]: "keeps env (p\<lparr>PeerURLs := qs\<rparr>) = keeps env p"
  by (simp add: keeps_def own_ips_def local_ips_def fun_eq_iff)

lemma normal_idem [simp]: "normal env (normal env p) = normal env p"
  by (simp add: normal_def cleaned_def)

lemma validate_ws_field_twice:
  "snd (validate_ws_field env (snd (validate_ws_field env p))) = snd (validate_ws_field env p)"
  by (auto simp: validate_ws_field_def ChaosWebsocket_Validate_def Let_def)

lemma parse_cases:
  obtains (bad) e where "url_Parse env (BackendURL (AuthrpcProxy (cfgAuthrpc c))) = Inl e \<or> url_Parse env (BackendURL (cfgRpc c)) = Inl e"
  | (good) b1 b2 where "url_Parse env (BackendURL (AuthrpcProxy (cfgAuthrpc c))) = Inr b1" "url_Parse env (BackendURL (cfgRpc c)) = Inr b2"
  by (meson sum.exhaust)

lemma Config_Validate_iff:
  "(\<exists>c'. Config_Validate env c = Ret (None, c')) \<longleftrightarrow>
     any_enabled c \<and> http_ok env (AuthrpcProxy (cfgAuthrpc c)) \<and> ws_ok env (cfgFlashblocks c) \<and>
     http_ok env (cfgRpc c) \<and> log_ok env (cfgLog c) \<and> ResolveTCPAddr env (MetricsListenAddress c) = None"
proof (cases rule: parse_cases [of env c])
  case (bad e)
  then show ?thesis using validate_panics [OF bad] by (auto simp: Config_Validate_def http_ok_def proxy_ok_def)
next
  case (good b1 b2)
  from validate_result [OF good] show ?thesis
    by (metis (no_types, lifting) Config_Validate_def any_enabled_def go.inject option.distinct(1) prod.inject)
qed

lemma accepted_config:
  assumes "Config_Validate env c = Ret (None, c')"
  shows "http_ok env (AuthrpcProxy (cfgAuthrpc c))" "http_ok env (cfgRpc c)" "ws_ok env (cfgFlashblocks c)" "any_enabled c"
    and "AuthrpcProxy (cfgAuthrpc c') = normal env (AuthrpcProxy (cfgAuthrpc c))" "cfgRpc c' = normal env (cfgRpc c)"
    and "cfgFlashblocks c' = snd (validate_ws_field env (cfgFlashblocks c))"
proof -
  from assms Config_Validate_iff [of env c]
  show ok: "http_ok env (AuthrpcProxy (cfgAuthrpc c))" "http_ok env (cfgRpc c)" "ws_ok env (cfgFlashblocks c)" "any_enabled c"
    by blast+
  then obtain b1 b2 where b: "url_Parse env (BackendURL (AuthrpcProxy (cfgAuthrpc c))) = Inr b1" "url_Parse env (BackendURL (cfgRpc c)) = Inr b2"
    by (auto simp: http_ok_def proxy_ok_def)
  have "validate env c = Ret (None, c')" using assms ok(4) by (simp add: Config_Validate_def any_enabled_def split: if_splits)
  with validate_result [OF b]
  have "c' = c\<lparr>cfgAuthrpc := (cfgAuthrpc c)\<lparr>AuthrpcProxy := normal env (AuthrpcProxy (cfgAuthrpc c))\<rparr>,
        cfgFlashblocks := snd (validate_ws_field env (cfgFlashblocks c)), cfgRpc := normal env (cfgRpc c)\<rparr>"
    by (metis go.inject prod.inject)
  then show "AuthrpcProxy (cfgAuthrpc c') = normal env (AuthrpcProxy (cfgAuthrpc c))" "cfgRpc c' = normal env (cfgRpc c)"
    "cfgFlashblocks c' = snd (validate_ws_field env (cfgFlashblocks c))" by simp_all
qed

text \<open>
  C21: A configuration is accepted exactly if some proxy is enabled and every part of every proxy,
  the disabled ones included, is within its bounds: timeouts, counts and sizes, probabilities in
  percent, latencies up to a minute, URLs that parse, a backend whose name resolves, addresses
  that resolve, a certificate and key that load.
\<close>

theorem Config_Validate_accepts:
  "(\<exists>c'. Config_Validate env c = Ret (None, c')) \<longleftrightarrow>
     any_enabled c \<and> http_ok env (AuthrpcProxy (cfgAuthrpc c)) \<and> ws_ok env (cfgFlashblocks c) \<and>
     http_ok env (cfgRpc c) \<and> log_ok env (cfgLog c) \<and> ResolveTCPAddr env (MetricsListenAddress c) = None"
  by (rule Config_Validate_iff)

text \<open>
  C15: Validation leaves each HTTP proxy exactly its peers that resolve and, where the backend is
  to be removed, are not the backend, in their order; and validating the result again changes
  nothing, which matters because every proxy is validated twice.
\<close>

theorem validated_peers:
  assumes "Config_Validate env c = Ret (e, c')" "any_enabled c"
  shows "PeerURLs (cfgRpc c') = filter (keeps env (cfgRpc c)) (PeerURLs (cfgRpc c)) \<and>
    PeerURLs (AuthrpcProxy (cfgAuthrpc c'))
      = filter (keeps env (AuthrpcProxy (cfgAuthrpc c))) (PeerURLs (AuthrpcProxy (cfgAuthrpc c))) \<and>
    (\<exists>e'. Config_Validate env c' = Ret (e', c'))"
proof (cases rule: parse_cases [of env c])
  case (bad e)
  then show ?thesis using validate_panics [OF bad] assms by (auto simp: Config_Validate_def any_enabled_def)
next
  case (good b1 b2)
  let ?c = "c\<lparr>cfgAuthrpc := (cfgAuthrpc c)\<lparr>AuthrpcProxy := normal env (AuthrpcProxy (cfgAuthrpc c))\<rparr>,
        cfgFlashblocks := snd (validate_ws_field env (cfgFlashblocks c)), cfgRpc := normal env (cfgRpc c)\<rparr>"
  have c': "c' = ?c"
    using validate_result [OF good] assms
    by (metis (no_types, lifting) Config_Validate_def any_enabled_def go.inject prod.inject)
  have "\<exists>e'. validate env ?c = Ret (e', ?c)"
    by (rule validate_result [of env ?c b1 b2]) (use good in \<open>auto simp: validate_ws_field_twice\<close>)
  moreover have "WsProxyEnabled (snd (validate_ws_field env (cfgFlashblocks c))) = WsProxyEnabled (cfgFlashblocks c)"
    by (auto simp: validate_ws_field_def Let_def split: prod.splits)
  ultimately have "\<exists>e'. Config_Validate env c' = Ret (e', c')"
    using assms(2) unfolding c' by (simp add: Config_Validate_def any_enabled_def)
  then show ?thesis unfolding c' by simp
qed

text \<open>
  A backend URL of an HTTP proxy that does not parse, be that proxy enabled or not, makes the
  validation panic instead of reporting the error: the host name of a nil URL is looked up.
\<close>

theorem Config_Validate_bad_backend:
  assumes "any_enabled c"
    and "url_Parse env (BackendURL (AuthrpcProxy (cfgAuthrpc c))) = Inl e \<or> url_Parse env (BackendURL (cfgRpc c)) = Inl e"
  shows "Config_Validate env c = Panic"
  using assms validate_panics [OF assms(2)] by (simp add: Config_Validate_def any_enabled_def)

text \<open>
  The address of the profiler is never checked: validation says the same whatever it is,
  although there is a method to check it, which rejects what does not resolve.
\<close>

theorem pprof_unchecked:
  "go_map fst (Config_Validate env (c\<lparr>PprofListenAddress := a\<rparr>)) = go_map fst (Config_Validate env c) \<and>
   (Pprof_Pprof env a = None) = (a = [] \<or> ResolveTCPAddr env a = None)"
proof -
  have "go_map fst (validate env (c\<lparr>PprofListenAddress := a\<rparr>)) = go_map fst (validate env c)"
    by (cases "validate_http_field env (AuthrpcProxy (cfgAuthrpc c))"; cases "validate_http_field env (cfgRpc c)")
      (auto simp: validate_def split: prod.splits)
  then show ?thesis by (auto simp: Config_Validate_def Pprof_Pprof_def split: option.splits)
qed

section \<open>Witnesses\<close>

definition demo_host :: "string host_env" where
  "demo_host = \<lparr>url_Parse = (\<lambda>s. if s = ''bad'' then Inl ''url'' else Inr \<lparr>url_Host = s\<rparr>),
     LookupIP = (\<lambda>h. Inr [\<lparr>ip_String = h, ip_IsLoopback = False\<rparr>]), ResolveTCPAddr = (\<lambda>a. None),
     Interfaces = Inr [], ReadFile = (\<lambda>f. Inl ''none''), StdDecode = (\<lambda>s. None),
     X509KeyPair = (\<lambda>c k. None), ParseAtomicLevel = (\<lambda>l. None)\<rparr>"

definition demo_chaos :: chaos_config where
  "demo_chaos = \<lparr>Enabled = False, MinInjectedLatency = 50, MaxInjectedLatency = 0, InjectedHttpErrorProbability = 0,
     InjectedJrpcErrorProbability = 0, InjectedInvalidJrpcResponseProbability = 0\<rparr>"

definition demo_proxy :: "string \<Rightarrow> HttpProxy" where
  "demo_proxy backend = \<lparr>BackendTimeout = Second, BackendURL = backend, Chaos = demo_chaos,
     ClientIdleConnectionTimeout = Second, ProxyEnabled = True, ExtraMirroredJrpcMethods = ['' eth_foo''],
     HealthcheckCfg = \<lparr>Interval = Second, ThresholdHealthy = 2, ThresholdUnhealthy = 2, URL = []\<rparr>,
     ListenAddress = ''0.0.0.0:1'', LogMethods = [], LogRequests = True, LogRequestsMaxSize = 4096,
     LogResponses = False, LogResponsesMaxSize = 0, MaxBackendConnectionsPerHost = 1,
     MaxBackendConnectionWaitTimeout = 0, MaxClientConnectionsPerIP = 0, MaxRequestSizeMb = 15,
     MaxResponseSizeMb = 160, PeerTLSInsecureSkipVerify = False, PeerURLs = [''http://p'', ''http://b'', ''http://q''],
     RemoveBackendFromPeers = True, TLSCertificate = [], TLSKey = [], UsePriorityQueue = True\<rparr>"

definition demo_ws :: WebsocketProxy where
  "demo_ws = \<lparr>WsBackendURL = ''ws://b'', BackwardTimeout = 0,
     WsChaos = \<lparr>WsEnabled = False, WsMinInjectedLatency = 0, WsMaxInjectedLatency = 0, DroppedMessageProbability = 0,
       InjectedInvalidFlashblockPayloadProbability = 0, InjectedMalformedJsonMessageProbability = 0\<rparr>,
     ControlTimeout = 0, WsProxyEnabled = False, ForwardTimeout = 0,
     WsHealthcheckCfg = \<lparr>Interval = Second, ThresholdHealthy = 2, ThresholdUnhealthy = 2, URL = []\<rparr>,
     WsListenAddress = ''0.0.0.0:2'', LogMessages = False, LogMessagesMaxSize = 0, ReadBufferSize = 16,
     WsTLSCertificate = [], WsTLSKey = [], WriteBufferSize = 16\<rparr>"

definition demo_cfg :: "string \<Rightarrow> Config" where
  "demo_cfg backend = \<lparr>cfgAuthrpc = \<lparr>AuthrpcProxy = demo_proxy ''http://b'', DeduplicateFCUs = True, MirrorGetPayload = False\<rparr>,
     cfgFlashblocks = demo_ws, cfgRpc = demo_proxy backend, cfgLog = \<lparr>Level = ''info'', Mode = ''prod''\<rparr>,
     MetricsListenAddress = ''0.0.0.0:3'', PprofListenAddress = [], Version = []\<rparr>"

lemmas demo_defs = demo_host_def demo_chaos_def demo_proxy_def demo_ws_def demo_cfg_def

lemma demo_accepted: "\<exists>c'. Config_Validate demo_host (demo_cfg ''http://b'') = Ret (None, c')"
  unfolding Config_Validate_iff
  by (simp add: demo_defs any_enabled_def http_ok_def proxy_ok_def chaos_ok_def healthcheck_ok_def ws_ok_def
      ws_chaos_ok_def tls_ok_def log_ok_def LocalIPs_def)

theorem validated_peers_witness:
  "\<exists>c'. Config_Validate demo_host (demo_cfg ''http://b'') = Ret (None, c') \<and> PeerURLs (cfgRpc c') = [''http://p'', ''http://q'']"
proof -
  obtain c' where c': "Config_Validate demo_host (demo_cfg ''http://b'') = Ret (None, c')"
    using demo_accepted by blast
  have "filter (keeps demo_host (demo_proxy ''http://b'')) (PeerURLs (demo_proxy ''http://b'')) = [''http://p'', ''http://q'']"
    by (simp add: keeps_def kept_def backend_ips_def own_ips_def local_ips_def LocalIPs_def is_backend_def demo_defs
        Hostname_def Port_def splitHostPort_def validOptionalPort_def is_digit_def Let_def IPsMatch_def IPsOverlap_def)
  moreover have "cfgRpc (demo_cfg ''http://b'') = demo_proxy ''http://b''" "any_enabled (demo_cfg ''http://b'')"
    by (simp_all add: demo_defs any_enabled_def)
  ultimately show ?thesis using validated_peers [OF c'] c' by auto
qed

theorem Config_Validate_bad_backend_witness: "Config_Validate demo_host (demo_cfg ''bad'') = Panic"
  by (rule Config_Validate_bad_backend [where e = "''url''"]) (simp_all add: demo_defs any_enabled_def)

end
