(* ===== verification/Flashblock.thy ===== *)
theory Flashblock
  imports Triaged Config
begin

text \<open>
  \<open>flashblock/flashblock.go\<close> and \<open>proxy/websocket_message.go\<close>: the flashblock a websocket message
  may hold, its decoding, and the mangling of it that chaos injects. The encoder
  (\<open>json.Marshal\<close>) is the parameter \<open>marshal\<close>; it cannot fail on this type.
\<close>

section \<open>The code\<close>

record Diff =
  StateRoot :: string
  ReceiptsRoot :: string
  LogsBloom :: string
  GasUsed :: string
  BlockHash :: string
  DiffTransactions :: "string list"
  Withdrawals :: "json option list"
  WithdrawalsRoot :: string

record Flashblock =
  PayloadID :: string
  Index :: int
  fb_Diff :: "Diff option"
  Metadata :: "json option"

definition zero_Diff :: Diff where
  "zero_Diff = \<lparr>StateRoot = [], ReceiptsRoot = [], LogsBloom = [], GasUsed = [], BlockHash = [],
     DiffTransactions = [], Withdrawals = [], WithdrawalsRoot = []\<rparr>"

definition zero_Flashblock :: Flashblock where
  "zero_Flashblock = \<lparr>PayloadID = [], Index = 0, fb_Diff = None, Metadata = None\<rparr>"

definition decode_diff :: "Diff decoder" where
  "decode_diff = decode_struct [''state_root'', ''receipts_root'', ''logs_bloom'', ''gas_used'', ''block_hash'',
       ''transactions'', ''withdrawals'', ''withdrawals_root''] (\<lambda>f j d.
     if f = ''state_root'' then (case decode_string j (StateRoot d) of (x, ok) \<Rightarrow> (d\<lparr>StateRoot := x\<rparr>, ok))
     else if f = ''receipts_root'' then (case decode_string j (ReceiptsRoot d) of (x, ok) \<Rightarrow> (d\<lparr>ReceiptsRoot := x\<rparr>, ok))
     else if f = ''logs_bloom'' then (case decode_string j (LogsBloom d) of (x, ok) \<Rightarrow> (d\<lparr>LogsBloom := x\<rparr>, ok))
     else if f = ''gas_used'' then (case decode_string j (GasUsed d) of (x, ok) \<Rightarrow> (d\<lparr>GasUsed := x\<rparr>, ok))
     else if f = ''block_hash'' then (case decode_string j (BlockHash d) of (x, ok) \<Rightarrow> (d\<lparr>BlockHash := x\<rparr>, ok))
     else if f = ''transactions'' then
       (case decode_slice [] decode_string j (DiffTransactions d) of (x, ok) \<Rightarrow> (d\<lparr>DiffTransactions := x\<rparr>, ok))
     else if f = ''withdrawals'' then
       (case decode_slice None decode_raw j (Withdrawals d) of (x, ok) \<Rightarrow> (d\<lparr>Withdrawals := x\<rparr>, ok))
     else (case decode_string j (WithdrawalsRoot d) of (x, ok) \<Rightarrow> (d\<lparr>WithdrawalsRoot := x\<rparr>, ok)))"

text \<open>A pointer: null clears it, anything else is decoded into what it points to, or a new value.\<close>

definition decode_diff_pointer :: "Diff option decoder" where
  "decode_diff_pointer j d =
     (if j = JNull then (None, True)
      else case decode_diff j (case d of Some x \<Rightarrow> x | None \<Rightarrow> zero_Diff) of (x, ok) \<Rightarrow> (Some x, ok))"

definition decode_flashblock :: "Flashblock decoder" where
  "decode_flashblock = decode_struct [''payload_id'', ''index'', ''diff'', ''metadata''] (\<lambda>f j b.
     if f = ''payload_id'' then (case decode_string j (PayloadID b) of (x, ok) \<Rightarrow> (b\<lparr>PayloadID := x\<rparr>, ok))
     else if f = ''index'' then (case decode_int64 j (Index b) of (x, ok) \<Rightarrow> (b\<lparr>Index := x\<rparr>, ok))
     else if f = ''diff'' then (case decode_diff_pointer j (fb_Diff b) of (x, ok) \<Rightarrow> (b\<lparr>fb_Diff := x\<rparr>, ok))
     else (case decode_raw j (Metadata b) of (x, ok) \<Rightarrow> (b\<lparr>Metadata := x\<rparr>, ok)))"

text \<open>What \<open>json.Unmarshal\<close> leaves in a zero flashblock, and whether it reports no error.\<close>

definition unmarshal_flashblock :: "string \<Rightarrow> Flashblock \<times> bool" where
  "unmarshal_flashblock bytes =
     (case json_parse bytes of None \<Rightarrow> (zero_Flashblock, False) | Some j \<Rightarrow> decode_flashblock j zero_Flashblock)"

text \<open>The two first characters after the prefix go to the end; slicing a shorter string panics.\<close>

definition mangleHex :: "string \<Rightarrow> string go" where
  "mangleHex hex =
     (let pre = (if HasPrefix hex ''0x'' then ''0x'' else []); hex1 = TrimPrefix hex pre
      in go_bind (slice_sub hex1 2 (int (length hex1))) (\<lambda>tail.
         go_map (\<lambda>start. pre @ tail @ start) (slice_sub hex1 0 2)))"

definition rotate_slice :: "'a list \<Rightarrow> 'a list" where
  "rotate_slice xs = (case xs of x # y # r \<Rightarrow> (y # r) @ [x] | _ \<Rightarrow> [])"

text \<open>The switch of \<open>chaosMangle\<close>; every case from 2 on goes through the pointer \<open>Diff\<close>.\<close>

definition mangle_diff :: "nat \<Rightarrow> Diff \<Rightarrow> Diff go" where
  "mangle_diff n d =
     (if n = 2 then go_map (\<lambda>x. d\<lparr>StateRoot := x\<rparr>) (mangleHex (StateRoot d))
      else if n = 3 then go_map (\<lambda>x. d\<lparr>ReceiptsRoot := x\<rparr>) (mangleHex (ReceiptsRoot d))
      else if n = 4 then go_map (\<lambda>x. d\<lparr>LogsBloom := x\<rparr>) (mangleHex (LogsBloom d))
      else if n = 5 then go_map (\<lambda>x. d\<lparr>GasUsed := x\<rparr>) (mangleHex (GasUsed d))
      else if n = 6 then go_map (\<lambda>x. d\<lparr>BlockHash := x\<rparr>) (mangleHex (BlockHash d))
      else if n = 7 then Ret (d\<lparr>DiffTransactions := rotate_slice (DiffTransactions d)\<rparr>)
      else if n = 8 then Ret (d\<lparr>Withdrawals := rotate_slice (Withdrawals d)\<rparr>)
      else if n = 9 then go_map (\<lambda>x. d\<lparr>WithdrawalsRoot := x\<rparr>) (mangleHex (WithdrawalsRoot d))
      else Ret d)"

definition mangle :: "nat \<Rightarrow> Flashblock \<Rightarrow> Flashblock go" where
  "mangle n b =
     (if n = 0 then go_map (\<lambda>x. b\<lparr>PayloadID := x\<rparr>) (mangleHex (PayloadID b))
      else if n = 1 then Ret (b\<lparr>Index := go_rem (wrap64 (Index b + 1)) 5\<rparr>)
      else case fb_Diff b of
        None \<Rightarrow> Panic
      | Some d \<Rightarrow> go_map (\<lambda>x. b\<lparr>fb_Diff := Some x\<rparr>) (mangle_diff n d))"

definition chaosMangle :: "(Flashblock \<Rightarrow> string) \<Rightarrow> nat \<Rightarrow> string \<Rightarrow> string option go" where
  \<comment> \<open>\<open>None\<close>: the error of a message that is not a flashblock; \<open>draw\<close>: what \<open>rand.IntN\<close> draws from\<close>
  "chaosMangle marshal draw bytes =
     (case unmarshal_flashblock bytes of (b, ok) \<Rightarrow>
        if \<not> ok then Ret None
        else go_map (\<lambda>x. Some (marshal x)) (mangle (draw mod (if fb_Diff b \<noteq> None then 10 else 2)) b))"

section \<open>What mangling does\<close>

definition hex_digits :: "string \<Rightarrow> string" where
  "hex_digits s = TrimPrefix s (if HasPrefix s ''0x'' then ''0x'' else [])"

lemma mangleHex_Panic_iff: "mangleHex s = Panic \<longleftrightarrow> length (hex_digits s) < 2"
  by (auto simp: mangleHex_def hex_digits_def Let_def go_result_iffs slice_sub_def)

lemma mangleHex_rotates:
  assumes "2 \<le> length (hex_digits s)"
  shows "\<exists>r. mangleHex s = Ret r \<and> r = (if HasPrefix s ''0x'' then ''0x'' else []) @ rotate 2 (hex_digits s)"
proof -
  obtain a b t where "hex_digits s = a # b # t"
    using assms by (cases "hex_digits s"; cases "tl (hex_digits s)") auto
  then show ?thesis
    by (auto simp: mangleHex_def hex_digits_def Let_def slice_sub_def numeral_2_eq_2)
qed

text \<open>The field a draw mangles, when it is one of hexadecimal digits.\<close>

definition mangled_hex :: "nat \<Rightarrow> Flashblock \<Rightarrow> string option" where
  "mangled_hex n b =
     (if n = 0 then Some (PayloadID b)
      else case fb_Diff b of
        None \<Rightarrow> None
      | Some d \<Rightarrow> map_of [(2, StateRoot d), (3, ReceiptsRoot d), (4, LogsBloom d), (5, GasUsed d), (6, BlockHash d),
                        (9, WithdrawalsRoot d)] n)"

lemma mangle_Panic_iff:
  assumes "n < (if fb_Diff b \<noteq> None then 10 else 2)"
  shows "mangle n b = Panic \<longleftrightarrow> (\<exists>s. mangled_hex n b = Some s \<and> length (hex_digits s) < 2)"
  using assms
  by (auto simp: mangle_def mangle_diff_def mangled_hex_def go_map_Panic_iff mangleHex_Panic_iff less_Suc_eq
      numeral_eq_Suc split: option.splits if_splits)

text \<open>
  Mangling a flashblock message crashes the proxy exactly when the drawn field is one of
  hexadecimal digits with fewer than two of them, as a zero \<open>gas_used\<close> or an absent root has;
  a message that is no flashblock is left as it is.
\<close>

theorem chaosMangle_panics:
  "(chaosMangle marshal draw bytes = Panic) =
     (case unmarshal_flashblock bytes of (b, ok) \<Rightarrow>
        ok \<and> (\<exists>s. mangled_hex (draw mod (if fb_Diff b \<noteq> None then 10 else 2)) b = Some s \<and> length (hex_digits s) < 2)) \<and>
   (chaosMangle marshal draw bytes = Ret None) = (\<not> snd (unmarshal_flashblock bytes))"
proof (cases "unmarshal_flashblock bytes")
  case (Pair b ok)
  let ?n = "draw mod (if fb_Diff b \<noteq> None then 10 else 2)"
  have "mangle ?n b = Panic \<longleftrightarrow> (\<exists>s. mangled_hex ?n b = Some s \<and> length (hex_digits s) < 2)"
    by (rule mangle_Panic_iff) auto
  then show ?thesis
    by (cases "mangle ?n b") (auto simp: chaosMangle_def Pair)
qed

end
