(* ===== verification/Ws_Messages.thy ===== *)
theory Ws_Messages
  imports Flashblock Sanitize
begin

text \<open>
  What the websocket pump (\<open>proxy/websocket_pump.go\<close>) does with one message: the chaos it injects
  before writing it, and the log fields it prepares for it.
\<close>

section \<open>The code\<close>

record websocketConfig = WebsocketProxy +
  ws_name :: string

record websocketMessage =
  msgType :: int
  bytes :: string

definition ws_injected_sleep :: "ws_chaos_config \<Rightarrow> int \<Rightarrow> int \<Rightarrow> int go" where
  "ws_injected_sleep ch draw elapsed =
     (if WsMinInjectedLatency ch > 0 \<or> WsMaxInjectedLatency ch > 0 then
        (let n = wrap64 (WsMaxInjectedLatency ch + 1)
         in if n \<le> 0 then Panic
            else Ret (max 0 (max (draw mod n) (WsMinInjectedLatency ch) - elapsed)))
      else Ret 0)"

text \<open>
  What the random draws decide: three numbers in \<open>[0, 1)\<close>, the mangled field, and the latency.
  \<open>None\<close> is a dropped message.
\<close>

record ws_draws =
  dr_drop :: rat
  dr_mangle :: rat
  dr_malform :: rat
  dr_field :: nat
  dr_latency :: int
  dr_elapsed :: int

definition inject_chaos :: "(Flashblock \<Rightarrow> string) \<Rightarrow> ws_chaos_config \<Rightarrow> ws_draws \<Rightarrow> websocketMessage \<Rightarrow> websocketMessage option go" where
  "inject_chaos marshal ch dr m =
     (if \<not> WsEnabled ch then Ret (Some m)
      else if dr_drop dr < DroppedMessageProbability ch / 100 then Ret None
      else go_bind
        (if dr_mangle dr < InjectedInvalidFlashblockPayloadProbability ch / 100 then
           go_map (\<lambda>r. case r of Some b \<Rightarrow> m\<lparr>bytes := b\<rparr> | None \<Rightarrow> m) (chaosMangle marshal (dr_field dr) (bytes m))
         else Ret m) (\<lambda>m1.
      go_bind
        (if dr_malform dr < InjectedMalformedJsonMessageProbability ch / 100 then
           go_map (\<lambda>b. m1\<lparr>bytes := b\<rparr>) (slice_sub (bytes m1) 1 (int (length (bytes m1)) - 1))
         else Ret m1) (\<lambda>m2.
      go_map (\<lambda>_. Some m2) (ws_injected_sleep ch (dr_latency dr) (dr_elapsed dr)))))"

datatype ws_field =
    MessageType int
  | MessageSize int
  | JsonMessage Flashblock
  | UnmarshalError
  | WebsocketMessage string
  | Txs "RequestTransaction list"
  | ErrorDecode raw_tx_error

text \<open>
  The loop over the transactions: with every one, the transactions so far are logged, and the
  error of this one. Nothing recovers from a panic of the decoder here.
\<close>

fun tx_fields :: "'tx eth_lib \<Rightarrow> string list \<Rightarrow> RequestTransaction list \<Rightarrow> ws_field list go" where
  "tx_fields eth [] txs = Ret []"
| "tx_fields eth (s # ss) txs =
     go_bind (DecodeEthRawTransaction eth s) (\<lambda>r.
       let (txs1, errs) = (case r of
              Inr (from, tx) \<Rightarrow> (txs @ [\<lparr>rt_From = Some from, rt_To = tx_To eth tx, rt_Hash = tx_Hash eth tx, rt_Nonce = tx_Nonce eth tx\<rparr>], [])
            | Inl e \<Rightarrow> (txs, [ErrorDecode e]))
       in go_map (\<lambda>fs. (if txs1 \<noteq> [] then [Txs txs1] else []) @ errs @ fs) (tx_fields eth ss txs1))"

definition prepareLogFields :: "'tx eth_lib \<Rightarrow> websocketConfig \<Rightarrow> websocketMessage \<Rightarrow> ws_field list go" where
  "prepareLogFields eth cfg m =
     go_map (\<lambda>fs. [MessageType (msgType m), MessageSize (int (length (bytes m)))] @ fs)
      (if LogMessages cfg then
         (case unmarshal_flashblock (bytes m) of (fb, ok) \<Rightarrow>
            go_map (\<lambda>fs. (if int (length (bytes m)) \<le> LogMessagesMaxSize cfg
                          then (if ok then [JsonMessage fb] else [UnmarshalError, WebsocketMessage (bytes m)])
                          else []) @ fs)
              (case fb_Diff fb of None \<Rightarrow> Panic | Some d \<Rightarrow> tx_fields eth (DiffTransactions d) []))
       else Ret [])"

section \<open>When logging a message crashes the proxy\<close>

lemma tx_fields_Panic_iff:
  "tx_fields eth ss txs = Panic \<longleftrightarrow> (\<exists>s\<in>set ss. DecodeEthRawTransaction eth s = Panic)"
proof (induction ss arbitrary: txs)
  case (Cons s ss)
  then show ?case
    by (cases "DecodeEthRawTransaction eth s") (auto simp: Let_def go_map_Panic_iff split: sum.splits prod.splits)
qed simp

lemma DecodeEthRawTransaction_no_panic: "no_panic eth \<Longrightarrow> DecodeEthRawTransaction eth s \<noteq> Panic"
  by (auto simp: no_panic_def)

text \<open>
  With message logging on, a message that has no \<open>diff\<close> crashes the proxy: any message that
  is not JSON, and any flashblock without a diff, whatever the size limit of the log. With
  logging off, or a diff, preparing the fields cannot fail (if go-ethereum's decoders do not).
\<close>

theorem prepareLogFields_panics:
  assumes "no_panic eth"
  shows "(prepareLogFields eth cfg m = Panic) = (LogMessages cfg \<and> fb_Diff (fst (unmarshal_flashblock (bytes m))) = None) \<and>
    (json_parse (bytes m) = None \<longrightarrow> LogMessages cfg \<longrightarrow> prepareLogFields eth cfg m = Panic)"
  using DecodeEthRawTransaction_no_panic [OF assms]
  by (auto simp: prepareLogFields_def go_map_Panic_iff tx_fields_Panic_iff unmarshal_flashblock_def zero_Flashblock_def
      split: prod.splits option.splits)

definition demo_ws_config :: websocketConfig where
  "demo_ws_config = \<lparr>WsBackendURL = ''ws://b'', BackwardTimeout = 0,
     WsChaos = \<lparr>WsEnabled = False, WsMinInjectedLatency = 0, WsMaxInjectedLatency = 0, DroppedMessageProbability = 0,
       InjectedInvalidFlashblockPayloadProbability = 0, InjectedMalformedJsonMessageProbability = 0\<rparr>,
     ControlTimeout = 0, WsProxyEnabled = True, ForwardTimeout = 0,
     WsHealthcheckCfg = \<lparr>Interval = Second, ThresholdHealthy = 2, ThresholdUnhealthy = 2, URL = []\<rparr>,
     WsListenAddress = ''0.0.0.0:2'', LogMessages = True, LogMessagesMaxSize = 4096, ReadBufferSize = 16,
     WsTLSCertificate = [], WsTLSKey = [], WriteBufferSize = 16, ws_name = ''fb''\<rparr>"

theorem prepareLogFields_panics_witness:
  "prepareLogFields demo_eth demo_ws_config \<lparr>msgType = 1, bytes = ''hello''\<rparr> = Panic"
proof -
  have "json_parse ''hello'' = None" by code_simp
  then show ?thesis
    using prepareLogFields_panics [OF no_panic_demo, of demo_ws_config "\<lparr>msgType = 1, bytes = ''hello''\<rparr>"]
    by (simp add: demo_ws_config_def)
qed

end
