(* ===== verification/Ws_Pump.thy ===== *)
theory Ws_Pump
  imports Ws_Messages Dispatch
begin

text \<open>
  The websocket pump (\<open>proxy/websocket_pump.go\<close>): for each direction a reader, a writer and a
  terminator goroutine around a channel of 16 messages; the loop of \<open>run\<close> that waits for the
  request to stop or a failure; and \<open>stop\<close>. An execution interleaves the steps of all of them.
  A connection that is closed or times out shows as a failed read or write. The error type \<open>'e\<close>
  is that of the websocket library.
\<close>

section \<open>One direction\<close>

datatype reader = Checking | Reading | Handing websocketMessage | ReaderDone

datatype writer = Selecting | WriterDone | Crashed

datatype terminator = AwaitDone | StopReads | StopWrites | TerminatorDone

datatype 'e outcome = Delivered websocketMessage | ChaosDropped | WriteFailed 'e

record 'e pump_dir =
  messages :: "websocketMessage channel"
  doneReads :: "unit channel"
  doneWrites :: "unit channel"
  doneIn :: "unit channel"
  reader :: reader
  writer :: writer
  terminator :: terminator
  received :: "websocketMessage list"
  handled :: "(websocketMessage \<times> 'e outcome) list"

definition new_dir :: "'e pump_dir" where
  "new_dir = \<lparr>messages = make_chan 16, doneReads = make_chan 1, doneWrites = make_chan 1, doneIn = make_chan 1,
     reader = Checking, writer = Selecting, terminator = AwaitDone, received = [], handled = []\<rparr>"

text \<open>
  \<open>pumpMessages\<close>. The middle argument holds the errors passed to \<open>notifyOnFailure\<close>; the last two
  fields are a history. A panic ends the whole process.
\<close>

inductive dir_step :: "(Flashblock \<Rightarrow> string) \<Rightarrow> 'tx eth_lib \<Rightarrow> websocketConfig \<Rightarrow> 'e pump_dir \<Rightarrow> 'e list \<Rightarrow> 'e pump_dir \<Rightarrow> bool"
  for marshal :: "Flashblock \<Rightarrow> string" and eth :: "'tx eth_lib" and cfg :: websocketConfig where
  read_stop: "reader d = Checking \<Longrightarrow> chan_recv (doneReads d) = Some (u, q) \<Longrightarrow>
    dir_step marshal eth cfg d [] (d\<lparr>doneReads := q, reader := ReaderDone\<rparr>)"
| read_go: "reader d = Checking \<Longrightarrow> chan_recv (doneReads d) = None \<Longrightarrow>
    dir_step marshal eth cfg d [] (d\<lparr>reader := Reading\<rparr>)"
| read_message: "reader d = Reading \<Longrightarrow>
    dir_step marshal eth cfg d [] (d\<lparr>reader := Handing m, received := received d @ [m]\<rparr>)"
| read_failure: "reader d = Reading \<Longrightarrow>
    dir_step marshal eth cfg d [e] (d\<lparr>reader := ReaderDone\<rparr>)"
| read_hand: "reader d = Handing m \<Longrightarrow> chan_send m (messages d) = Some q \<Longrightarrow>
    dir_step marshal eth cfg d [] (d\<lparr>messages := q, reader := Checking\<rparr>)"
| write_stop: "writer d = Selecting \<Longrightarrow> chan_recv (doneWrites d) = Some (u, q) \<Longrightarrow>
    dir_step marshal eth cfg d [] (d\<lparr>doneWrites := q, writer := WriterDone\<rparr>)"
| write_drop: "writer d = Selecting \<Longrightarrow> chan_recv (messages d) = Some (m, q) \<Longrightarrow>
    inject_chaos marshal (WsChaos cfg) dr m = Ret None \<Longrightarrow> prepareLogFields eth cfg m \<noteq> Panic \<Longrightarrow>
    dir_step marshal eth cfg d [] (d\<lparr>messages := q, handled := handled d @ [(m, ChaosDropped)]\<rparr>)"
| write_failure: "writer d = Selecting \<Longrightarrow> chan_recv (messages d) = Some (m, q) \<Longrightarrow>
    inject_chaos marshal (WsChaos cfg) dr m = Ret (Some m') \<Longrightarrow>
    dir_step marshal eth cfg d [e] (d\<lparr>messages := q, handled := handled d @ [(m, WriteFailed e)]\<rparr>)"
| write_message: "writer d = Selecting \<Longrightarrow> chan_recv (messages d) = Some (m, q) \<Longrightarrow>
    inject_chaos marshal (WsChaos cfg) dr m = Ret (Some m') \<Longrightarrow> prepareLogFields eth cfg m' \<noteq> Panic \<Longrightarrow>
    dir_step marshal eth cfg d [] (d\<lparr>messages := q, handled := handled d @ [(m, Delivered m')]\<rparr>)"
| write_panic: "writer d = Selecting \<Longrightarrow> chan_recv (messages d) = Some (m, q) \<Longrightarrow>
    inject_chaos marshal (WsChaos cfg) dr m = Panic \<Longrightarrow>
    dir_step marshal eth cfg d [] (d\<lparr>writer := Crashed\<rparr>)"
| log_panic: "writer d = Selecting \<Longrightarrow> chan_recv (messages d) = Some (m, q) \<Longrightarrow>
    inject_chaos marshal (WsChaos cfg) dr m = Ret r \<Longrightarrow> prepareLogFields eth cfg (case r of None \<Rightarrow> m | Some m' \<Rightarrow> m') = Panic \<Longrightarrow>
    dir_step marshal eth cfg d [] (d\<lparr>writer := Crashed\<rparr>)"
| term_await: "terminator d = AwaitDone \<Longrightarrow> chan_recv (doneIn d) = Some (u, q) \<Longrightarrow>
    dir_step marshal eth cfg d [] (d\<lparr>doneIn := q, terminator := StopReads\<rparr>)"
| term_reads: "terminator d = StopReads \<Longrightarrow> chan_send () (doneReads d) = Some q \<Longrightarrow>
    dir_step marshal eth cfg d [] (d\<lparr>doneReads := q, terminator := StopWrites\<rparr>)"
| term_writes: "terminator d = StopWrites \<Longrightarrow> chan_send () (doneWrites d) = Some q \<Longrightarrow>
    dir_step marshal eth cfg d [] (d\<lparr>doneWrites := q, terminator := TerminatorDone\<rparr>)"

section \<open>The pump\<close>

datatype 'e runner = Starting | Waiting | NotifyForward | NotifyReverse | Exhausting "'e list" | Returned "'e list"

record 'e pump =
  fwd :: "'e pump_dir"
  rev_dir :: "'e pump_dir"
  failure :: "'e channel"
  stop_chan :: "unit channel"
  active :: bool
  runner :: "'e runner"

definition newWebsocketPump :: "'e pump" where
  "newWebsocketPump = \<lparr>fwd = new_dir, rev_dir = new_dir, failure = make_chan 2, stop_chan = make_chan 1,
     active = False, runner = Starting\<rparr>"

definition notifyOnFailure :: "'e list \<Rightarrow> 'e channel \<Rightarrow> 'e channel" where
  \<comment> \<open>an error that finds the channel full is dropped\<close>
  "notifyOnFailure es q = (case es of [] \<Rightarrow> q | e # _ \<Rightarrow> (case chan_send e q of Some q' \<Rightarrow> q' | None \<Rightarrow> q))"

definition alive :: "'e pump \<Rightarrow> bool" where
  "alive p \<longleftrightarrow> writer (fwd p) \<noteq> Crashed \<and> writer (rev_dir p) \<noteq> Crashed"

text \<open>The steps of \<open>run\<close> (after its goroutines are started), and the send of \<open>stop\<close>.\<close>

inductive pump_step :: "(Flashblock \<Rightarrow> string) \<Rightarrow> 'tx eth_lib \<Rightarrow> websocketConfig \<Rightarrow> 'e pump \<Rightarrow> 'e pump \<Rightarrow> bool"
  for marshal :: "Flashblock \<Rightarrow> string" and eth :: "'tx eth_lib" and cfg :: websocketConfig where
  forward: "alive p \<Longrightarrow> dir_step marshal eth cfg (fwd p) es d \<Longrightarrow>
    pump_step marshal eth cfg p (p\<lparr>fwd := d, failure := notifyOnFailure es (failure p)\<rparr>)"
| reverse: "alive p \<Longrightarrow> dir_step marshal eth cfg (rev_dir p) es d \<Longrightarrow>
    pump_step marshal eth cfg p (p\<lparr>rev_dir := d, failure := notifyOnFailure es (failure p)\<rparr>)"
| start: "alive p \<Longrightarrow> runner p = Starting \<Longrightarrow> pump_step marshal eth cfg p (p\<lparr>active := True, runner := Waiting\<rparr>)"
| run_done: "alive p \<Longrightarrow> runner p = Waiting \<Longrightarrow> chan_recv (stop_chan p) = Some (u, q) \<Longrightarrow>
    pump_step marshal eth cfg p (p\<lparr>stop_chan := q, active := False, runner := NotifyForward\<rparr>)"
| run_notify_forward: "alive p \<Longrightarrow> runner p = NotifyForward \<Longrightarrow> chan_send () (doneIn (fwd p)) = Some q \<Longrightarrow>
    pump_step marshal eth cfg p (p\<lparr>fwd := (fwd p)\<lparr>doneIn := q\<rparr>, runner := NotifyReverse\<rparr>)"
| run_notify_reverse: "alive p \<Longrightarrow> runner p = NotifyReverse \<Longrightarrow> chan_send () (doneIn (rev_dir p)) = Some q \<Longrightarrow>
    pump_step marshal eth cfg p (p\<lparr>rev_dir := (rev_dir p)\<lparr>doneIn := q\<rparr>, runner := Exhausting []\<rparr>)"
| run_failure: "alive p \<Longrightarrow> runner p = Waiting \<Longrightarrow> chan_recv (failure p) = Some (e, q) \<Longrightarrow>
    pump_step marshal eth cfg p (p\<lparr>failure := q, runner := Exhausting [e]\<rparr>)"
| run_exhaust: "alive p \<Longrightarrow> runner p = Exhausting es \<Longrightarrow> chan_recv (failure p) = Some (e, q) \<Longrightarrow>
    pump_step marshal eth cfg p (p\<lparr>failure := q, runner := Exhausting (es @ [e])\<rparr>)"
| run_return: "alive p \<Longrightarrow> runner p = Exhausting es \<Longrightarrow> chan_recv (failure p) = None \<Longrightarrow>
    pump_step marshal eth cfg p (p\<lparr>runner := Returned es\<rparr>)"
| stop_request: "alive p \<Longrightarrow> active p \<Longrightarrow> chan_send () (stop_chan p) = Some q \<Longrightarrow>
    pump_step marshal eth cfg p (p\<lparr>stop_chan := q\<rparr>)"

inductive pump_run :: "(Flashblock \<Rightarrow> string) \<Rightarrow> 'tx eth_lib \<Rightarrow> websocketConfig \<Rightarrow> 'e pump \<Rightarrow> 'e pump \<Rightarrow> bool"
  for marshal :: "Flashblock \<Rightarrow> string" and eth :: "'tx eth_lib" and cfg :: websocketConfig where
  rest: "pump_run marshal eth cfg p p"
| more: "pump_run marshal eth cfg p p1 \<Longrightarrow> pump_step marshal eth cfg p1 p2 \<Longrightarrow> pump_run marshal eth cfg p p2"

text \<open>
  \<open>stop\<close>: \<open>active_at i\<close> is what the \<open>i\<close>-th look at the flag sees (with a second's sleep after each
  that finds it set); then both connections are closed. The result: the seconds slept and the errors.
\<close>

datatype 'e stop_error = DoubleClosing | TimedOut | CloseError 'e

fun countdown_from :: "(nat \<Rightarrow> bool) \<Rightarrow> nat \<Rightarrow> nat \<Rightarrow> nat" where
  "countdown_from active_at i 0 = 0"
| "countdown_from active_at i (Suc n) = (if active_at i then countdown_from active_at (Suc i) n else Suc n)"

definition stop_pump :: "(nat \<Rightarrow> bool) \<Rightarrow> 'e option \<Rightarrow> 'e option \<Rightarrow> 'e pump \<Rightarrow> nat \<times> 'e stop_error list \<times> 'e pump" where
  "stop_pump active_at backend_close frontend_close p =
     (if \<not> active p then (0, [], p)
      else let (errs, p1) = (case chan_send () (stop_chan p) of
                 Some q \<Rightarrow> ([], p\<lparr>stop_chan := q\<rparr>) | None \<Rightarrow> ([DoubleClosing], p));
               countdown = countdown_from active_at 0 60
           in (60 - countdown,
               errs @ (if countdown = 0 then [TimedOut] else [])
                 @ (case backend_close of Some e \<Rightarrow> [CloseError e] | None \<Rightarrow> [])
                 @ (case frontend_close of Some e \<Rightarrow> [CloseError e] | None \<Rightarrow> []), p1))"

section \<open>Messages are forwarded in order\<close>

definition in_hand :: "'e pump_dir \<Rightarrow> websocketMessage list" where
  "in_hand d = (case reader d of Handing m \<Rightarrow> [m] | _ \<Rightarrow> [])"

definition dir_inv :: "(Flashblock \<Rightarrow> string) \<Rightarrow> websocketConfig \<Rightarrow> 'e pump_dir \<Rightarrow> bool" where
  "dir_inv marshal cfg d \<longleftrightarrow>
     received d = map fst (handled d) @ ch_buf (messages d) @ in_hand d \<and>
     ch_cap (messages d) = 16 \<and> length (ch_buf (messages d)) \<le> 16 \<and>
     (\<forall>(m, out) \<in> set (handled d). \<forall>m'. out = Delivered m' \<longrightarrow>
        (\<exists>dr. inject_chaos marshal (WsChaos cfg) dr m = Ret (Some m')))"

lemma dir_inv_step:
  "dir_step marshal eth cfg d es d' \<Longrightarrow> dir_inv marshal cfg d \<Longrightarrow> dir_inv marshal cfg d'"
  by (induction rule: dir_step.induct)
    (auto simp: dir_inv_def in_hand_def dest!: ch.try_send_SomeD ch.recv_SomeD)

lemma dir_inv_new: "dir_inv marshal cfg new_dir"
  by (simp add: dir_inv_def new_dir_def make_chan_def in_hand_def)

lemma dir_inv_doneIn [simp]: "dir_inv marshal cfg (d\<lparr>doneIn := q\<rparr>) = dir_inv marshal cfg d"
  by (simp add: dir_inv_def in_hand_def)

lemma pump_inv_run:
  "pump_run marshal eth cfg p p' \<Longrightarrow> dir_inv marshal cfg (fwd p) \<Longrightarrow> dir_inv marshal cfg (rev_dir p) \<Longrightarrow>
   dir_inv marshal cfg (fwd p') \<and> dir_inv marshal cfg (rev_dir p')"
  by (induction rule: pump_run.induct) (auto elim!: pump_step.cases intro: dir_inv_step)

definition delivered :: "'e pump_dir \<Rightarrow> websocketMessage list" where
  "delivered d = List.map_filter (\<lambda>(m, out). case out of Delivered m' \<Rightarrow> Some m' | _ \<Rightarrow> None) (handled d)"

lemma no_chaos_passes: "\<not> WsEnabled ch \<Longrightarrow> inject_chaos marshal ch dr m = Ret (Some m') \<longleftrightarrow> m' = m"
  by (auto simp: inject_chaos_def)

lemma map_filter_delivered:
  "\<forall>x\<in>set xs. snd x = Delivered (fst x) \<Longrightarrow>
   List.map_filter (\<lambda>(m, out). case out of Delivered m' \<Rightarrow> Some m' | _ \<Rightarrow> None) xs = map fst xs"
  by (induction xs) (auto simp: map_filter_simps)

lemma delivered_all:
  assumes "\<not> WsEnabled (WsChaos cfg)" "dir_inv marshal cfg d" "\<forall>(m, out) \<in> set (handled d). \<exists>m'. out = Delivered m'"
  shows "delivered d = map fst (handled d)"
  unfolding delivered_def
proof (intro map_filter_delivered ballI)
  fix x
  assume x: "x \<in> set (handled d)"
  obtain m out where mo: "x = (m, out)" by (cases x)
  obtain m' where out: "out = Delivered m'" using assms(3) x mo by blast
  then obtain dr where "inject_chaos marshal (WsChaos cfg) dr m = Ret (Some m')"
    using assms(2) x mo unfolding dir_inv_def by blast
  with no_chaos_passes [OF assms(1)] out mo show "snd x = Delivered (fst x)" by simp
qed


section \<open>What a failure leaves behind\<close>

text \<open>A direction that has not been told to stop.\<close>

definition untold :: "'e pump_dir \<Rightarrow> bool" where
  "untold d \<longleftrightarrow> terminator d = AwaitDone \<and> ch_buf (doneIn d) = [] \<and> ch_buf (doneReads d) = [] \<and>
     ch_buf (doneWrites d) = [] \<and> writer d \<noteq> WriterDone"

lemma untold_step: "dir_step marshal eth cfg d es d' \<Longrightarrow> untold d \<Longrightarrow> untold d'"
  by (induction rule: dir_step.induct) (auto simp: untold_def dest!: ch.recv_SomeD)

definition pump_inv :: "'e pump \<Rightarrow> bool" where
  "pump_inv p \<longleftrightarrow> (runner p = Starting \<or> runner p = Waiting \<or> active p \<longrightarrow> untold (fwd p) \<and> untold (rev_dir p)) \<and>
     (runner p = Starting \<or> runner p = NotifyForward \<or> runner p = NotifyReverse \<longrightarrow> \<not> active p)"

lemma pump_inv_step: "pump_step marshal eth cfg p p' \<Longrightarrow> pump_inv p \<Longrightarrow> pump_inv p'"
  by (induction rule: pump_step.induct) (auto simp: pump_inv_def dest: untold_step)

lemma pump_inv_new: "pump_inv newWebsocketPump"
  by (simp add: pump_inv_def newWebsocketPump_def untold_def new_dir_def make_chan_def)

lemma pump_inv_reached: "pump_run marshal eth cfg p p' \<Longrightarrow> pump_inv p \<Longrightarrow> pump_inv p'"
  by (induction rule: pump_run.induct) (auto dest: pump_inv_step)

lemma returned_stays:
  "pump_run marshal eth cfg p p' \<Longrightarrow> runner p = Returned es \<Longrightarrow> active p \<Longrightarrow> runner p' = Returned es \<and> active p'"
  by (induction rule: pump_run.induct) (auto elim: pump_step.cases)

lemma countdown_always [simp]: "countdown_from (\<lambda>_. True) i n = 0"
  by (induction n arbitrary: i) auto

text \<open>
  C26: When a pump's run returned because of a failure, which leaves it marked active, it stays so
  for ever: no terminator of it is ever told to end, and no writer ever does. A stop of it (by a
  reset that comes before the pump is forgotten) waits its full 60 seconds, holding the lock on
  the proxy's connections, and reports a time-out.
\<close>

theorem pump_failure_leaks:
  assumes "pump_run marshal eth cfg newWebsocketPump p" "runner p = Returned es" "active p"
    and "pump_run marshal eth cfg p p'"
  shows "active p' \<and> (\<forall>d \<in> {fwd p', rev_dir p'}. terminator d = AwaitDone \<and> writer d \<noteq> WriterDone) \<and>
    fst (stop_pump (\<lambda>_. True) b f p') = 60 \<and> TimedOut \<in> set (fst (snd (stop_pump (\<lambda>_. True) b f p')))"
proof -
  have a: "active p'" using returned_stays [OF assms(4) assms(2,3)] by blast
  have "pump_inv p'"
    using pump_inv_reached [OF assms(4) pump_inv_reached [OF assms(1) pump_inv_new]] .
  with a show ?thesis
    by (auto simp: pump_inv_def untold_def stop_pump_def Let_def split: option.splits prod.splits)
qed

lemma pump_run_step: "pump_step marshal eth cfg p p1 \<Longrightarrow> pump_run marshal eth cfg p1 p2 \<Longrightarrow> pump_run marshal eth cfg p p2"
  by (rotate_tac 1, induction rule: pump_run.induct) (auto intro: pump_run.intros)

section \<open>Witnesses\<close>

lemmas pump_defs = alive_def newWebsocketPump_def new_dir_def make_chan_def notifyOnFailure_def chan_recv_def chan_send_def

lemma demo_started:
  "pump_step marshal eth cfg newWebsocketPump (newWebsocketPump\<lparr>active := True, runner := Waiting\<rparr>)"
  by (rule pump_step.start) (simp_all add: pump_defs)

lemma demo_reading:
  assumes "alive p" "reader (fwd p) = Checking" "ch_buf (doneReads (fwd p)) = []"
  shows "pump_step marshal eth cfg p (p\<lparr>fwd := (fwd p)\<lparr>reader := Reading\<rparr>\<rparr>)"
  using pump_step.forward [OF assms(1) dir_step.read_go [OF assms(2)], of marshal eth cfg] assms(3)
  by (simp add: notifyOnFailure_def chan_recv_def)

lemma demo_failure:
  assumes "alive p" "reader (fwd p) = Reading" "ch_buf (failure p) = []" "ch_cap (failure p) = 2" "runner p = Waiting"
  shows "pump_run marshal eth cfg p (p\<lparr>fwd := (fwd p)\<lparr>reader := ReaderDone\<rparr>, runner := Returned [e]\<rparr>)"
proof -
  let ?p1 = "p\<lparr>fwd := (fwd p)\<lparr>reader := ReaderDone\<rparr>, failure := \<lparr>ch_cap = 2, ch_buf = [e]\<rparr>\<rparr>"
  let ?p2 = "?p1\<lparr>failure := failure p, runner := Exhausting [e]\<rparr>"
  have q: "failure p = \<lparr>ch_cap = 2, ch_buf = []\<rparr>" using assms by (cases "failure p") simp
  have "pump_step marshal eth cfg p ?p1"
    using pump_step.forward [OF assms(1) dir_step.read_failure [OF assms(2)], of marshal eth cfg e] q
    by (simp add: notifyOnFailure_def chan_send_def)
  moreover have "pump_step marshal eth cfg ?p1 ?p2"
    using assms(1,5) q by (intro pump_step.run_failure) (simp_all add: alive_def chan_recv_def)
  moreover have "pump_step marshal eth cfg ?p2 (?p2\<lparr>runner := Returned [e]\<rparr>)"
    using assms(1) q by (intro pump_step.run_return) (simp_all add: alive_def chan_recv_def)
  ultimately have "pump_run marshal eth cfg p (?p2\<lparr>runner := Returned [e]\<rparr>)"
    by (blast intro: pump_run.intros)
  moreover have "?p2\<lparr>runner := Returned [e]\<rparr> = p\<lparr>fwd := (fwd p)\<lparr>reader := ReaderDone\<rparr>, runner := Returned [e]\<rparr>" by simp
  ultimately show ?thesis by simp
qed

lemma pump_run_trans: "pump_run marshal eth cfg p1 p2 \<Longrightarrow> pump_run marshal eth cfg p p1 \<Longrightarrow> pump_run marshal eth cfg p p2"
  by (induction rule: pump_run.induct) (auto intro: pump_run.more)

definition demo_pump :: "string pump" where
  "demo_pump = newWebsocketPump\<lparr>active := True, runner := Waiting, fwd := new_dir\<lparr>reader := Reading\<rparr>\<rparr>"

lemma demo_pump_run: "pump_run marshal eth cfg newWebsocketPump demo_pump"
proof -
  have "pump_step marshal eth cfg (newWebsocketPump\<lparr>active := True, runner := Waiting\<rparr>) demo_pump"
    using demo_reading [of "newWebsocketPump\<lparr>active := True, runner := Waiting\<rparr>" marshal eth cfg]
    by (simp add: demo_pump_def pump_defs)
  with demo_started show ?thesis by (blast intro: pump_run.intros)
qed

theorem pump_failure_leaks_witness:
  "\<exists>p. pump_run (\<lambda>b. []) demo_eth demo_ws_config newWebsocketPump p \<and> runner p = Returned [''reset by peer''] \<and>
     active p \<and> fst (stop_pump (\<lambda>_. True) None None p) = 60"
proof -
  let ?p = "demo_pump\<lparr>fwd := (fwd demo_pump)\<lparr>reader := ReaderDone\<rparr>, runner := Returned [''reset by peer'']\<rparr>"
  have r: "pump_run (\<lambda>b. []) demo_eth demo_ws_config newWebsocketPump ?p"
    by (rule pump_run_trans [OF demo_failure demo_pump_run]) (simp_all add: demo_pump_def pump_defs)
  moreover have "runner ?p = Returned [''reset by peer'']" "active ?p" by (simp_all add: demo_pump_def)
  ultimately show ?thesis
    using pump_failure_leaks [OF r _ _ pump_run.rest, of "[''reset by peer'']" None None] by blast
qed


end
