(* ===== verification/Websocket.thy ===== *)
theory Websocket
  imports Ws_Pump Connections
begin

text \<open>
  The websocket proxy (\<open>proxy/websocket.go\<close>, \<open>proxy/flashblocks.go\<close>): its construction, the
  handshake, the registry of connections and pumps, resets, and the closing of a session. A
  connection and a pump are known by numbers; the pump a number stands for is in the state, and the
  connections closed are recorded. The websocket and HTTP libraries are inputs. The control-frame handlers
  of the pump are here too.
\<close>

section \<open>Construction\<close>

record upgrader =
  up_ReadBufferSize :: int
  up_WriteBufferSize :: int

record dialer =
  HandshakeTimeout :: int
  dl_ReadBufferSize :: int
  dl_WriteBufferSize :: int

record ws_server =
  KeepHijackedConns :: bool
  ws_ServerName :: string
  ws_ReadTimeout :: int
  ws_WriteTimeout :: int
  ws_ServesTLS :: bool

record Websocket =
  ws_cfg :: websocketConfig
  ws_backend :: dialer
  ws_frontend :: ws_server
  ws_upgrader :: upgrader
  ws_healthcheck :: "healthcheck option"

definition newWebsocket :: "bool \<Rightarrow> (string \<Rightarrow> bool) \<Rightarrow> websocketConfig \<Rightarrow> Websocket option go" where
  \<comment> \<open>\<open>tls_loads\<close>: whether the certificate loads; \<open>uri_ok\<close>: whether fasthttp parses the URL\<close>
  "newWebsocket tls_loads uri_ok c =
     (let tls = (WsTLSCertificate c \<noteq> [] \<and> WsTLSKey c \<noteq> [])
      in if tls \<and> \<not> tls_loads then Ret None
         else
           let hc = WsHealthcheckCfg c;
               p = (\<lambda>h. \<lparr>ws_cfg = c,
                  ws_backend = \<lparr>HandshakeTimeout = 5 * Second, dl_ReadBufferSize = WriteBufferSize c * 1024 * 1024,
                     dl_WriteBufferSize = ReadBufferSize c * 1024 * 1024\<rparr>,
                  ws_frontend = \<lparr>KeepHijackedConns = True, ws_ServerName = ws_name c, ws_ReadTimeout = 5 * Second,
                     ws_WriteTimeout = 5 * Second, ws_ServesTLS = tls\<rparr>,
                  ws_upgrader = \<lparr>up_ReadBufferSize = ReadBufferSize c * 1024 * 1024,
                     up_WriteBufferSize = WriteBufferSize c * 1024 * 1024\<rparr>,
                  ws_healthcheck = h\<rparr>)
           in if URL hc \<noteq> [] then
                go_map (\<lambda>h. case h of None \<Rightarrow> None | Some x \<Rightarrow> Some (p (Some x)))
                  (newHealthcheck uri_ok (URL hc) (Interval hc) (ThresholdHealthy hc) (ThresholdUnhealthy hc))
              else Ret (Some (p None)))"

definition NewFlashblocks :: "bool \<Rightarrow> (string \<Rightarrow> bool) \<Rightarrow> WebsocketProxy \<Rightarrow> Websocket option go" where
  "NewFlashblocks tls_loads uri_ok c =
     newWebsocket tls_loads uri_ok (WebsocketProxy.extend c (websocketConfig.fields ''bproxy-flashblocks''))"

section \<open>The handshake\<close>

text \<open>\<open>strings.ToLower\<close>, as far as it can matter for equality with an ASCII text.\<close>

fun ToLower :: "string \<Rightarrow> string" where
  "ToLower [] = []"
| "ToLower (c # r) =
     (if c = byte 226 \<and> take 2 r = [byte 132, byte 170] then CHR ''k'' # ToLower (drop 2 r)
      else (if 65 \<le> (of_char c :: nat) \<and> (of_char c :: nat) \<le> 90 then byte (of_char c + 32) else c) # ToLower r)"

datatype handshake = Upgraded | Refused nat

definition ws_receive :: "string \<Rightarrow> string \<Rightarrow> bool \<Rightarrow> handshake" where
  \<comment> \<open>a refused connection is also closed\<close>
  "ws_receive connection_header upgrade_header upgrade_fails =
     (if ToLower connection_header \<noteq> ''upgrade'' then Refused 426
      else if ToLower upgrade_header \<noteq> ''websocket'' then Refused 501
      else if upgrade_fails then Refused 500
      else Upgraded)"

section \<open>Connections and pumps\<close>

record 'e WS_conns =
  ws_connections :: "(string \<times> nat) list"
  pumps :: "(string \<times> nat) list"
  ws_pump :: "nat \<Rightarrow> 'e pump"
  ws_closed :: "nat list"
  ws_stops :: "(nat \<times> nat \<times> 'e stop_error list) list"
    \<comment> \<open>the calls of \<open>stop\<close>: the pump, the seconds it took, and what it reported\<close>
  ws_cut :: "nat list"
    \<comment> \<open>pumps both connections of which \<open>stop\<close> has closed\<close>

definition no_ws_conns :: "'e WS_conns" where
  "no_ws_conns = \<lparr>ws_connections = [], pumps = [], ws_pump = (\<lambda>_. newWebsocketPump), ws_closed = [], ws_stops = [], ws_cut = []\<rparr>"

definition ws_upstreamConnectionChanged :: "string \<Rightarrow> nat \<Rightarrow> ConnState \<Rightarrow> 'e WS_conns \<Rightarrow> 'e WS_conns" where
  "ws_upstreamConnectionChanged addr conn state p =
     (case state of
        StateNew \<Rightarrow> p\<lparr>ws_connections := AList.update addr conn (ws_connections p)\<rparr>
      | StateActive \<Rightarrow> p
      | StateIdle \<Rightarrow> p
      | StateHijacked \<Rightarrow> p\<lparr>ws_connections := AList.delete addr (ws_connections p)\<rparr>
      | StateClosed \<Rightarrow> p\<lparr>ws_connections := AList.delete addr (ws_connections p)\<rparr>)"

text \<open>
  What the stops of a reset meet: what each look at a pump's flag sees while the pump goes on by itself, and what
  closing its two connections gives. A stop writes nothing but the one signal, so that what the pumps do meanwhile may as
  well come before or after the reset.
\<close>

record 'e stop_env =
  looks :: "nat \<Rightarrow> nat \<Rightarrow> bool"
  backend_close_err :: "nat \<Rightarrow> 'e option"
  frontend_close_err :: "nat \<Rightarrow> 'e option"

definition ws_stop_pump :: "'e stop_env \<Rightarrow> nat \<Rightarrow> 'e WS_conns \<Rightarrow> 'e WS_conns" where
  "ws_stop_pump env k p =
     (case stop_pump (looks env k) (backend_close_err env k) (frontend_close_err env k) (ws_pump p k) of (secs, errs, pump) \<Rightarrow>
        p\<lparr>ws_pump := (ws_pump p)(k := pump), ws_stops := ws_stops p @ [(k, secs, errs)],
          ws_cut := (if active (ws_pump p k) then ws_cut p @ [k] else ws_cut p)\<rparr>)"

definition ws_ResetConnections :: "'e stop_env \<Rightarrow> 'e WS_conns \<Rightarrow> 'e WS_conns" where
  "ws_ResetConnections env p =
     (let p1 = fold (\<lambda>(addr, k) p. (ws_stop_pump env k p)\<lparr>pumps := AList.delete addr (pumps p)\<rparr>) (pumps p) p
      in fold (\<lambda>(addr, conn) p. p\<lparr>ws_closed := ws_closed p @ [conn],
           ws_connections := AList.delete addr (ws_connections p)\<rparr>) (ws_connections p1) p1)"

definition ws_connectionsCount :: "'e WS_conns \<Rightarrow> int" where
  "ws_connectionsCount p = int (length (ws_connections p)) + int (length (pumps p))"

text \<open>The wait until five milliseconds past the next full second comes before the count.\<close>

definition ws_backendUnhealthy :: "'e stop_env \<Rightarrow> 'e WS_conns \<Rightarrow> 'e WS_conns" where
  "ws_backendUnhealthy env p = (if ws_connectionsCount p > 0 then ws_ResetConnections env p else p)"

text \<open>
  A session: dialling the backend, registering the pump, running it (until \<open>reason\<close>), closing
  both sides and forgetting the pump. The close frame carries the error's text, cut to 125 bytes.
\<close>

definition closeWebsocket :: "string option \<Rightarrow> string" where
  "closeWebsocket reason =
     (case reason of None \<Rightarrow> [] | Some msg \<Rightarrow> if length msg > 125 then take 125 msg else msg)"

datatype session_event =
    DialFailed string
  | CountFailure
  | CloseBackend string
  | CloseFrontend string
  | CountClosed

definition begin_session :: "string \<Rightarrow> nat \<Rightarrow> 'e WS_conns \<Rightarrow> 'e WS_conns" where
  \<comment> \<open>\<open>k\<close> is the number of the new pump\<close>
  "begin_session addr k p = p\<lparr>ws_pump := (ws_pump p)(k := newWebsocketPump), pumps := AList.update addr k (pumps p)\<rparr>"

definition end_session :: "string \<Rightarrow> string option \<Rightarrow> bool \<Rightarrow> 'e WS_conns \<Rightarrow> session_event list \<times> 'e WS_conns" where
  "end_session addr reason frontend_closes p =
     ((if reason \<noteq> None then [CountFailure] else [])
        @ [CloseBackend (closeWebsocket reason), CloseFrontend (closeWebsocket reason)]
        @ (if frontend_closes then [CountClosed] else []),
      p\<lparr>pumps := AList.delete addr (pumps p)\<rparr>)"

text \<open>
  The frames the handlers write to the other side: opcode and payload. The library refuses an
  opcode other than those of close, ping and pong.
\<close>

definition pumpPings :: "string \<Rightarrow> int \<times> string" where
  "pumpPings message = (9, message)"

definition pumpPongs :: "string \<Rightarrow> int \<times> string" where
  "pumpPongs message = (10, message)"

definition pumpCloseMessages :: "int \<Rightarrow> string \<Rightarrow> int \<times> string" where
  "pumpCloseMessages code message = (code, message)"

definition control_opcode :: "int \<Rightarrow> bool" where
  "control_opcode t \<longleftrightarrow> t \<in> {8, 9, 10}"

section \<open>Resets\<close>

text \<open>
  What a call of \<open>stop\<close> does to a pump: one that runs has the signal to stop in its channel, one that is not
  marked as running is left as it is.
\<close>

definition asked :: "'e pump \<Rightarrow> 'e pump \<Rightarrow> bool" where
  "asked p p' \<longleftrightarrow> (\<exists>q. p' = p\<lparr>stop_chan := q\<rparr> \<and>
     (if active p then ch_cap q = ch_cap (stop_chan p) \<and> (ch_buf q \<noteq> [] \<or> ch_cap q = 0) else q = stop_chan p))"

lemma stop_pump_asked: "asked p (snd (snd (stop_pump l b f p)))"
proof (cases "active p")
  case False
  then show ?thesis by (simp add: asked_def stop_pump_def)
next
  case True
  show ?thesis
  proof (cases "chan_send () (stop_chan p)")
    case None
    then have "ch_buf (stop_chan p) \<noteq> [] \<or> ch_cap (stop_chan p) = 0" by (auto simp: chan_send_def split: if_splits)
    moreover have "p = p\<lparr>stop_chan := stop_chan p\<rparr>" by simp
    ultimately show ?thesis using True None unfolding asked_def stop_pump_def Let_def by (auto intro!: exI [of _ "stop_chan p"])
  next
    case (Some q)
    with ch.try_send_SomeD [OF Some] True show ?thesis by (auto simp: asked_def stop_pump_def Let_def)
  qed
qed

lemma asked_trans: "asked p p1 \<Longrightarrow> asked p1 p2 \<Longrightarrow> asked p p2"
  by (auto simp: asked_def split: if_splits)

lemma asked_active: "asked p p' \<Longrightarrow> active p' = active p"
  by (auto simp: asked_def)

lemma ws_stop_pump_simps [simp]:
  "ws_connections (ws_stop_pump env k p) = ws_connections p" "pumps (ws_stop_pump env k p) = pumps p"
  "ws_closed (ws_stop_pump env k p) = ws_closed p" "map fst (ws_stops (ws_stop_pump env k p)) = map fst (ws_stops p) @ [k]"
  "set (ws_cut (ws_stop_pump env k p)) = set (ws_cut p) \<union> (if active (ws_pump p k) then {k} else {})"
  "ws_stop_pump env k (p\<lparr>pumps := ps\<rparr>) = (ws_stop_pump env k p)\<lparr>pumps := ps\<rparr>"
  by (simp_all add: ws_stop_pump_def split: prod.split)

lemma ws_stop_pump_asked: "asked (ws_pump p k) (ws_pump (ws_stop_pump env k p) k)"
  "j \<noteq> k \<Longrightarrow> ws_pump (ws_stop_pump env k p) j = ws_pump p j"
proof -
  obtain secs errs q where r: "stop_pump (looks env k) (backend_close_err env k) (frontend_close_err env k) (ws_pump p k) = (secs, errs, q)"
    by (metis surj_pair)
  from stop_pump_asked [of "ws_pump p k" "looks env k" "backend_close_err env k" "frontend_close_err env k"]
  show "asked (ws_pump p k) (ws_pump (ws_stop_pump env k p) k)" by (simp add: ws_stop_pump_def r)
  show "ws_pump (ws_stop_pump env k p) j = ws_pump p j" if "j \<noteq> k" using that by (simp add: ws_stop_pump_def r)
qed

lemma stop_all_simps [simp]:
  "ws_connections (fold (ws_stop_pump env) ks p) = ws_connections p" "pumps (fold (ws_stop_pump env) ks p) = pumps p"
  "ws_closed (fold (ws_stop_pump env) ks p) = ws_closed p"
  "map fst (ws_stops (fold (ws_stop_pump env) ks p)) = map fst (ws_stops p) @ ks"
  "fold (ws_stop_pump env) ks (p\<lparr>pumps := ps\<rparr>) = (fold (ws_stop_pump env) ks p)\<lparr>pumps := ps\<rparr>"
  by (induction ks arbitrary: p) simp_all

lemma stop_all_pumps:
  "(k \<in> set ks \<longrightarrow> asked (ws_pump p k) (ws_pump (fold (ws_stop_pump env) ks p) k)) \<and>
   (k \<notin> set ks \<longrightarrow> ws_pump (fold (ws_stop_pump env) ks p) k = ws_pump p k)"
proof (induction ks arbitrary: p)
  case (Cons j ks p)
  note IH = Cons [of "ws_stop_pump env j p"]
  show ?case
  proof (cases "k = j")
    case True
    with IH ws_stop_pump_asked(1) [where k = j and env = env and p = p] asked_trans show ?thesis by (cases "k \<in> set ks") auto
  next
    case False
    with IH ws_stop_pump_asked(2) [where j = k and k = j and env = env and p = p] show ?thesis by auto
  qed
qed simp

lemma stop_all_cut: "set (ws_cut (fold (ws_stop_pump env) ks p)) = set (ws_cut p) \<union> {k \<in> set ks. active (ws_pump p k)}"
proof (induction ks arbitrary: p)
  case (Cons j ks p)
  have "active (ws_pump (ws_stop_pump env j p) k) = active (ws_pump p k)" for k
    using ws_stop_pump_asked [where k = j and env = env and p = p] asked_active by (cases "k = j") auto
  with Cons show ?case by auto
qed simp

lemma fold_stop:
  "fold (\<lambda>(addr, k) p. (ws_stop_pump env k p)\<lparr>pumps := AList.delete addr (pumps p)\<rparr>) xs p
     = (fold (ws_stop_pump env) (map snd xs) p)\<lparr>pumps := filter (\<lambda>(a, c). a \<notin> fst ` set xs) (pumps p)\<rparr>"
proof (induction xs arbitrary: p)
  case (Cons x xs)
  then show ?case by (cases x) (auto simp: AList.delete_eq case_prod_unfold intro!: arg_cong [where f = "\<lambda>ps. _\<lparr>pumps := ps\<rparr>"] filter_cong)
qed simp

lemma fold_close:
  "fold (\<lambda>(addr, conn) p. p\<lparr>ws_closed := ws_closed p @ [conn], ws_connections := AList.delete addr (ws_connections p)\<rparr>) xs p
     = p\<lparr>ws_closed := ws_closed p @ map snd xs, ws_connections := filter (\<lambda>(a, c). a \<notin> fst ` set xs) (ws_connections p)\<rparr>"
proof (induction xs arbitrary: p)
  case (Cons x xs)
  then show ?case
    by (cases x) (auto simp: AList.delete_eq case_prod_unfold intro!: arg_cong [where f = "\<lambda>cs. _\<lparr>ws_connections := cs\<rparr>"] filter_cong)
qed simp

lemma filter_not_own_keys [simp]: "filter (\<lambda>(a, c). a \<notin> fst ` set xs) xs = []"
  by (auto simp: filter_empty_conv intro: rev_image_eqI)

lemma ws_ResetConnections_eq:
  "ws_ResetConnections env p = (fold (ws_stop_pump env) (map snd (pumps p)) p)
     \<lparr>ws_connections := [], pumps := [], ws_closed := ws_closed p @ map snd (ws_connections p)\<rparr>"
  by (simp add: ws_ResetConnections_def Let_def fold_stop fold_close)

lemma ws_backendUnhealthy_Reset: "ws_backendUnhealthy env p = ws_ResetConnections env p"
proof (cases "ws_connections p = [] \<and> pumps p = []")
  case True
  then have "ws_ResetConnections env p = p" by (intro WS_conns.equality) (simp_all add: ws_ResetConnections_eq)
  with True show ?thesis by (simp add: ws_backendUnhealthy_def)
next
  case False
  then have "ws_connectionsCount p > 0" by (auto simp: ws_connectionsCount_def add_pos_nonneg add_nonneg_pos)
  then show ?thesis by (simp add: ws_backendUnhealthy_def)
qed

lemma stops_of_reset: "fst ` set (ws_stops (fold (ws_stop_pump env) ks p)) = fst ` set (ws_stops p) \<union> set ks"
  by (simp only: set_map [symmetric] stop_all_simps(4) set_append)

text \<open>The unhealthy callback of the websocket proxy meets the same contract as the HTTP proxy's.\<close>

interpretation ws_handler: unhealthy_handler "ws_backendUnhealthy env"
    "\<lambda>p. Inl ` snd ` set (ws_connections p) \<union> Inr ` snd ` set (pumps p)"
    "\<lambda>p. Inl ` set (ws_closed p) \<union> Inr ` fst ` set (ws_stops p)" for env
  by unfold_locales (auto simp: ws_backendUnhealthy_Reset ws_ResetConnections_eq stops_of_reset)

lemma closeWebsocket_fits: "length (closeWebsocket reason) \<le> 125"
  by (auto simp: closeWebsocket_def split: option.splits)

lemma close_not_passed: "1000 \<le> code \<Longrightarrow> \<not> control_opcode (fst (pumpCloseMessages code m))"
  by (auto simp: control_opcode_def pumpCloseMessages_def)

lemma ping_pong_passed: "control_opcode (fst (pumpPings m)) \<and> control_opcode (fst (pumpPongs m))"
  by (simp add: control_opcode_def pumpPings_def pumpPongs_def)

text \<open>
  C28: When a check of its backend leaves the websocket proxy unhealthy, none of its connections and pumps is left
  registered: every connection it had has been closed, and \<open>stop\<close> has been called once for each registration of a pump. Of these
  pumps, one that was marked as running has the signal to stop in its channel and has had both its connections
  closed (after up to 60 seconds; which pumps can then end is the matter of theory \<open>Ws_Stop\<close>), and one that was not, because its \<open>run\<close> is yet to start or has
  begun to end, is left as it was. No other pump is touched; a check that leaves the proxy healthy touches nothing.
\<close>

theorem ws_unhealthy_closes:
  assumes "hc_inv h" "check (ws_backendUnhealthy env) probe (h, s) = Ret (h', s')"
  shows "(isHealthy h' \<longrightarrow> s' = s) \<and>
    (\<not> isHealthy h' \<longrightarrow> ws_connections s' = [] \<and> pumps s' = [] \<and>
       mset (ws_closed s') = mset (ws_closed s) + mset (map snd (ws_connections s)) \<and>
       mset (map fst (ws_stops s')) = mset (map fst (ws_stops s)) + mset (map snd (pumps s)) \<and>
       (\<forall>k \<in> snd ` set (pumps s). asked (ws_pump s k) (ws_pump s' k)) \<and>
       (\<forall>k. k \<notin> snd ` set (pumps s) \<longrightarrow> ws_pump s' k = ws_pump s k) \<and>
       set (ws_cut s') = set (ws_cut s) \<union> {k \<in> snd ` set (pumps s). active (ws_pump s k)})"
proof (intro conjI impI)
  assume "\<not> isHealthy h'"
  from ws_handler.check_closes(2) [OF assms this]
  have "Inl ` snd ` set (ws_connections s') \<union> Inr ` snd ` set (pumps s') = ({} :: (nat + nat) set)" by simp
  then show "ws_connections s' = []" "pumps s' = []" by simp_all
  have s': "s' = ws_ResetConnections env s"
    using check_list [OF assms(1), of "ws_backendUnhealthy env" probe s] assms(2) \<open>\<not> isHealthy h'\<close>
    by (auto simp: ws_backendUnhealthy_Reset)
  show "mset (ws_closed s') = mset (ws_closed s) + mset (map snd (ws_connections s))" by (simp add: s' ws_ResetConnections_eq)
  show "mset (map fst (ws_stops s')) = mset (map fst (ws_stops s)) + mset (map snd (pumps s))"
  proof -
    have "ws_stops s' = ws_stops (fold (ws_stop_pump env) (map snd (pumps s)) s)" by (simp add: s' ws_ResetConnections_eq)
    then show ?thesis by (simp only: stop_all_simps(4) mset_append)
  qed
  show "\<forall>k \<in> snd ` set (pumps s). asked (ws_pump s k) (ws_pump s' k)"
    using stop_all_pumps [of _ "map snd (pumps s)" s env] by (simp add: s' ws_ResetConnections_eq)
  show "\<forall>k. k \<notin> snd ` set (pumps s) \<longrightarrow> ws_pump s' k = ws_pump s k"
    using stop_all_pumps [of _ "map snd (pumps s)" s env] by (simp add: s' ws_ResetConnections_eq)
  show "set (ws_cut s') = set (ws_cut s) \<union> {k \<in> snd ` set (pumps s). active (ws_pump s k)}"
    by (simp add: s' ws_ResetConnections_eq stop_all_cut)
qed (rule ws_handler.check_closes(1) [OF assms])

definition demo_stop_env :: "string stop_env" where
  \<comment> \<open>every pump ends within three seconds, and closing works\<close>
  "demo_stop_env = \<lparr>looks = (\<lambda>k i. i < 3), backend_close_err = (\<lambda>_. None), frontend_close_err = (\<lambda>_. None)\<rparr>"

definition demo_conns :: "string WS_conns" where
  \<comment> \<open>pump 7 runs, pump 8 has just been registered\<close>
  "demo_conns = no_ws_conns\<lparr>pumps := [(''a'', 7), (''b'', 8)],
     ws_pump := (\<lambda>k. if k = 7 then demo_pump else newWebsocketPump)\<rparr>"

theorem ws_unhealthy_closes_witness:
  "\<exists>h h' s'. newHealthcheck (\<lambda>_. True) ''http://h'' 1000000000 1 1 = Ret (Some h) \<and>
     check (ws_backendUnhealthy demo_stop_env) (ProbeError ''down'') (h, demo_conns) = Ret (h', s') \<and>
     mset (map fst (ws_stops s')) = {#7, 8#} \<and> set (ws_cut s') = {7} \<and> asked demo_pump (ws_pump s' 7)"
proof -
  obtain h where h: "newHealthcheck (\<lambda>_. True) ''http://h'' 1000000000 1 1 = Ret (Some h)"
    by (simp add: newHealthcheck_def)
  from newHealthcheck_inv [OF h] have inv: "hc_inv h" "hc_list h = []" "isHealthy h" "depth h = 1"
      "thresholdHealthy h = 1" "thresholdUnhealthy h = 1" by simp_all
  obtain h' s' where c: "check (ws_backendUnhealthy demo_stop_env) (ProbeError ''down'') (h, demo_conns) = Ret (h', s')" "\<not> isHealthy h'"
    using check_list [OF inv(1), of "ws_backendUnhealthy demo_stop_env" "ProbeError ''down''" demo_conns] inv(2-)
    by (auto simp: probe_ok_def lastn_def verdict_def)
  have "{k \<in> snd ` set (pumps demo_conns). active (ws_pump demo_conns k)} = {7}"
    by (auto simp: demo_conns_def demo_pump_def newWebsocketPump_def)
  with ws_unhealthy_closes [OF inv(1) c(1)] c(2)
  have "mset (map fst (ws_stops s')) = {#7, 8#} \<and> set (ws_cut s') = {7} \<and> asked demo_pump (ws_pump s' 7)"
    by (simp add: demo_conns_def no_ws_conns_def)
  with h c(1) show ?thesis by (intro exI [of _ h] exI [of _ h'] exI [of _ s']) simp
qed

end
