(* ===== verification/Server.thy ===== *)
theory Server
  imports Rpc Authrpc Http_Jobs Websocket
begin

text \<open>
  \<open>server/server.go\<close>: the construction of the enabled proxies, and \<open>Run\<close>, from its loop over
  signals and failures to the shutdown of the proxies and the metrics server; with the \<open>Stop\<close>,
  \<open>Observe\<close> and \<open>ResetConnections\<close> of the proxies it calls. A disabled proxy is a nil pointer,
  here \<^const>\<open>None\<close>. A failure is any value of type \<open>'e\<close>.
\<close>

section \<open>Construction\<close>

definition new_http :: "bool \<Rightarrow> (string \<Rightarrow> (string \<times> 'u) option) \<Rightarrow> string \<Rightarrow> HttpProxy \<Rightarrow> 'u HTTP option go" where
  "new_http tls_loads parse name c = newHTTP tls_loads parse (HttpProxy.extend c (httpConfig.fields name))"

definition NewRpc :: "bool \<Rightarrow> (string \<Rightarrow> (string \<times> 'u) option) \<Rightarrow> HttpProxy \<Rightarrow> 'u HTTP option go" where
  "NewRpc tls_loads parse c = new_http tls_loads parse ''bproxy-rpc'' c"

definition NewAuthrpc_proxy :: "bool \<Rightarrow> (string \<Rightarrow> (string \<times> 'u) option) \<Rightarrow> Authrpc_config \<Rightarrow> ('u HTTP \<times> Authrpc) option go" where
  "NewAuthrpc_proxy tls_loads parse c =
     go_map (map_option (\<lambda>p. (p, NewAuthrpc (DeduplicateFCUs c) (MirrorGetPayload c))))
       (new_http tls_loads parse ''bproxy-authrpc'' (AuthrpcProxy c))"

record 'u server_parts =
  authrpc :: "('u HTTP \<times> Authrpc) option"
  flashblocks :: "Websocket option"
  rpc :: "'u HTTP option"

text \<open>\<open>New\<close>: \<open>None\<close> is the first error of a constructor. \<open>tls_loads\<close> is asked per certificate and key.\<close>

definition Server_New :: "(string \<Rightarrow> string \<Rightarrow> bool) \<Rightarrow> (string \<Rightarrow> (string \<times> 'u) option) \<Rightarrow> Config \<Rightarrow> 'u server_parts option go" where
  "Server_New tls_loads parse c =
     (let a = cfgAuthrpc c; f = cfgFlashblocks c; r = cfgRpc c;
          loads = (\<lambda>p. tls_loads (TLSCertificate p) (TLSKey p))
      in go_bind (if ProxyEnabled (AuthrpcProxy a)
                  then go_map (map_option Some) (NewAuthrpc_proxy (loads (AuthrpcProxy a)) parse a) else Ret (Some None)) (\<lambda>a1.
         case a1 of None \<Rightarrow> Ret None | Some a2 \<Rightarrow>
         go_bind (if WsProxyEnabled f
                  then go_map (map_option Some) (NewFlashblocks (tls_loads (WsTLSCertificate f) (WsTLSKey f)) (\<lambda>u. parse u \<noteq> None) f)
                  else Ret (Some None)) (\<lambda>f1.
         case f1 of None \<Rightarrow> Ret None | Some f2 \<Rightarrow>
         go_bind (if ProxyEnabled r
                  then go_map (map_option Some) (NewRpc (loads r) parse r) else Ret (Some None)) (\<lambda>r1.
         case r1 of None \<Rightarrow> Ret None | Some r2 \<Rightarrow>
           Ret (Some \<lparr>authrpc = a2, flashblocks = f2, rpc = r2\<rparr>)))))"

section \<open>What the server asks of its proxies\<close>

text \<open>The wrappers do nothing on nil.\<close>

definition Rpc_ResetConnections :: "HTTP_conns option \<Rightarrow> HTTP_conns option" where
  "Rpc_ResetConnections p = (case p of None \<Rightarrow> None | Some c \<Rightarrow> Some (ResetConnections c))"

definition Authrpc_ResetConnections :: "HTTP_conns option \<Rightarrow> HTTP_conns option" where
  "Authrpc_ResetConnections p = (case p of None \<Rightarrow> None | Some c \<Rightarrow> Some (ResetConnections c))"

definition Flashblocks_ResetConnections :: "'e stop_env \<Rightarrow> 'e WS_conns option \<Rightarrow> 'e WS_conns option" where
  "Flashblocks_ResetConnections env p = (case p of None \<Rightarrow> None | Some c \<Rightarrow> Some (ws_ResetConnections env c))"

text \<open>
  \<open>Stop\<close> shuts the listener down, of which the outcome \<open>shutdown_err\<close> is returned, and then
  resets the connections.
\<close>

definition HTTP_Stop :: "'e option \<Rightarrow> HTTP_conns option \<Rightarrow> 'e option \<times> HTTP_conns option" where
  "HTTP_Stop shutdown_err p = (case p of None \<Rightarrow> (None, None) | Some c \<Rightarrow> (shutdown_err, Some (ResetConnections c)))"

definition Websocket_Stop :: "'e option \<Rightarrow> 'e stop_env \<Rightarrow> 'e WS_conns option \<Rightarrow> 'e option \<times> 'e WS_conns option" where
  "Websocket_Stop shutdown_err env p =
     (case p of None \<Rightarrow> (None, None) | Some c \<Rightarrow> (shutdown_err, Some (ws_ResetConnections env c)))"

text \<open>The gauges of \<open>Observe\<close>; a certificate is its validity, when its leaf was parsed.\<close>

datatype gauge = ConnectionsActive int | ConnectionsDraining int | ValidNotAfter int | ValidNotBefore int

definition tls_gauges :: "(int \<times> int) option list \<Rightarrow> gauge list" where
  "tls_gauges certs = concat (map (\<lambda>leaf. case leaf of
       None \<Rightarrow> [] | Some (after, before) \<Rightarrow> [ValidNotAfter after, ValidNotBefore before]) certs)"

definition HTTP_Observe :: "int \<Rightarrow> (int \<times> int) option list \<Rightarrow> HTTP_conns option \<Rightarrow> gauge list" where
  "HTTP_Observe open_connections certs p =
     (case p of None \<Rightarrow> []
      | Some c \<Rightarrow> [ConnectionsActive open_connections, ConnectionsDraining (drainingCount c)] @ tls_gauges certs)"

definition Websocket_Observe :: "(int \<times> int) option list \<Rightarrow> 'e WS_conns option \<Rightarrow> gauge list" where
  "Websocket_Observe certs p =
     (case p of None \<Rightarrow> [] | Some c \<Rightarrow> [ConnectionsActive (ws_connectionsCount c)] @ tls_gauges certs)"

definition server_observe :: "'e option \<Rightarrow> 'e option \<Rightarrow> 'e option \<Rightarrow> 'e flat" where
  \<comment> \<open>of what the three \<open>Observe\<close> return\<close>
  "server_observe a f r =
     (let errs = (case a of None \<Rightarrow> [] | Some e \<Rightarrow> [e]);
          errs = (case f of None \<Rightarrow> errs | Some e \<Rightarrow> errs @ [e]);
          errs = (case r of None \<Rightarrow> errs | Some e \<Rightarrow> errs @ [e])
      in FlattenErrors errs)"

section \<open>Running\<close>

datatype part = RpcProxy | FlashblocksProxy | AuthrpcPart | MetricsServer

datatype 'e phase =
    Serving
  | Draining "'e list"
  | Stopping "part list" "'e list"
  | Finished "'e flat"

record 'e server =
  sv_authrpc :: "HTTP_conns option"
  sv_flashblocks :: "'e WS_conns option"
  sv_rpc :: "HTTP_conns option"
  sv_failure :: "'e channel"
  sv_hangup :: "unit channel"
  sv_terminator :: "unit channel"
  sv_phase :: "'e phase"
  sv_failed :: "'e list"
  sv_stopped :: "part list"
  sv_sessions :: "(string \<times> nat) list"
  sv_late :: "nat list"
  sv_ended :: "nat list"

text \<open>
  The last five fields are a history: the failures reported, the parts stopped, the websocket sessions that have registered
  their pump (remote address and number), those of them that did so after the proxy was stopped, and those that have ended.
  The order of the blocks that stop the parts:
\<close>

definition stop_order :: "part list" where
  "stop_order = [RpcProxy, FlashblocksProxy, AuthrpcPart, MetricsServer]"

definition new_server :: "bool \<Rightarrow> bool \<Rightarrow> bool \<Rightarrow> 'e server" where
  "new_server a f r =
     \<lparr>sv_authrpc = (if a then Some no_conns else None), sv_flashblocks = (if f then Some no_ws_conns else None),
      sv_rpc = (if r then Some no_conns else None), sv_failure = make_chan 16, sv_hangup = make_chan 1,
      sv_terminator = make_chan 1, sv_phase = Serving, sv_failed = [], sv_stopped = [],
      sv_sessions = [], sv_late = [], sv_ended = []\<rparr>"

definition stop_part :: "'e stop_env \<Rightarrow> part \<Rightarrow> 'e server \<Rightarrow> 'e server" where
  \<comment> \<open>the error of a \<open>Stop\<close> is logged only\<close>
  "stop_part env x s =
     (case x of
        RpcProxy \<Rightarrow> s\<lparr>sv_rpc := snd (HTTP_Stop (None :: 'e option) (sv_rpc s))\<rparr>
      | FlashblocksProxy \<Rightarrow> s\<lparr>sv_flashblocks := snd (Websocket_Stop (None :: 'e option) env (sv_flashblocks s))\<rparr>
      | AuthrpcPart \<Rightarrow> s\<lparr>sv_authrpc := snd (HTTP_Stop (None :: 'e option) (sv_authrpc s))\<rparr>
      | MetricsServer \<Rightarrow> s)\<lparr>sv_stopped := sv_stopped s @ [x]\<rparr>"

text \<open>
  Steps: of the environment (a signal, delivered unless one is pending; a failure a proxy or the
  metrics server reports, which waits for room; a connection changing state, where a stopped
  proxy gets no new ones), of the websocket sessions (one has dialled the backend and registers its pump, which may be
  after the proxy was stopped; a pump goes on, except for the signal that only a stop sends; one whose pump has returned
  closes both sides and is forgotten) and of \<open>Run\<close>.
\<close>

inductive server_step :: "(Flashblock \<Rightarrow> string) \<Rightarrow> 'tx eth_lib \<Rightarrow> websocketConfig \<Rightarrow> 'e server \<Rightarrow> 'e server \<Rightarrow> bool"
  for marshal :: "Flashblock \<Rightarrow> string" and eth :: "'tx eth_lib" and wcfg :: websocketConfig where
  signal_hup: "chan_send () (sv_hangup s) = Some q \<Longrightarrow> server_step marshal eth wcfg s (s\<lparr>sv_hangup := q\<rparr>)"
| signal_term: "chan_send () (sv_terminator s) = Some q \<Longrightarrow> server_step marshal eth wcfg s (s\<lparr>sv_terminator := q\<rparr>)"
| fail: "chan_send e (sv_failure s) = Some q \<Longrightarrow>
    server_step marshal eth wcfg s (s\<lparr>sv_failure := q, sv_failed := sv_failed s @ [e]\<rparr>)"
| rpc_conn: "sv_rpc s = Some c \<Longrightarrow> RpcProxy \<notin> set (sv_stopped s) \<or> st \<noteq> StateNew \<Longrightarrow>
    server_step marshal eth wcfg s (s\<lparr>sv_rpc := Some (upstreamConnectionChanged addr conn st c)\<rparr>)"
| authrpc_conn: "sv_authrpc s = Some c \<Longrightarrow> AuthrpcPart \<notin> set (sv_stopped s) \<or> st \<noteq> StateNew \<Longrightarrow>
    server_step marshal eth wcfg s (s\<lparr>sv_authrpc := Some (upstreamConnectionChanged addr conn st c)\<rparr>)"
| flashblocks_conn: "sv_flashblocks s = Some c \<Longrightarrow> FlashblocksProxy \<notin> set (sv_stopped s) \<or> st \<noteq> StateNew \<Longrightarrow>
    server_step marshal eth wcfg s (s\<lparr>sv_flashblocks := Some (ws_upstreamConnectionChanged addr conn st c)\<rparr>)"
| session_begins: "sv_flashblocks s = Some c \<Longrightarrow> k \<notin> snd ` set (sv_sessions s) \<Longrightarrow>
    server_step marshal eth wcfg s (s\<lparr>sv_flashblocks := Some (begin_session addr k c), sv_sessions := sv_sessions s @ [(addr, k)],
      sv_late := (if FlashblocksProxy \<in> set (sv_stopped s) then sv_late s @ [k] else sv_late s)\<rparr>)"
| session_runs: "sv_flashblocks s = Some c \<Longrightarrow> k \<in> snd ` set (sv_sessions s) \<Longrightarrow> pump_step marshal eth wcfg (ws_pump c k) pump \<Longrightarrow>
    length (ch_buf (stop_chan pump)) \<le> length (ch_buf (stop_chan (ws_pump c k))) \<Longrightarrow>
    server_step marshal eth wcfg s (s\<lparr>sv_flashblocks := Some (c\<lparr>ws_pump := (ws_pump c)(k := pump)\<rparr>)\<rparr>)"
| session_ends: "sv_flashblocks s = Some c \<Longrightarrow> (addr, k) \<in> set (sv_sessions s) \<Longrightarrow> k \<notin> set (sv_ended s) \<Longrightarrow>
    runner (ws_pump c k) = Returned es \<Longrightarrow> (reason = None) = (es = []) \<Longrightarrow> end_session addr reason frontend_closes c = (events, c') \<Longrightarrow>
    server_step marshal eth wcfg s (s\<lparr>sv_flashblocks := Some c', sv_ended := sv_ended s @ [k]\<rparr>)"
| reset: "sv_phase s = Serving \<Longrightarrow> chan_recv (sv_hangup s) = Some (u, q) \<Longrightarrow>
    server_step marshal eth wcfg s (s\<lparr>sv_hangup := q, sv_authrpc := Authrpc_ResetConnections (sv_authrpc s),
      sv_flashblocks := Flashblocks_ResetConnections env (sv_flashblocks s), sv_rpc := Rpc_ResetConnections (sv_rpc s)\<rparr>)"
| terminate: "sv_phase s = Serving \<Longrightarrow> chan_recv (sv_terminator s) = Some (u, q) \<Longrightarrow>
    server_step marshal eth wcfg s (s\<lparr>sv_terminator := q, sv_phase := Stopping stop_order []\<rparr>)"
| failed: "sv_phase s = Serving \<Longrightarrow> chan_recv (sv_failure s) = Some (e, q) \<Longrightarrow>
    server_step marshal eth wcfg s (s\<lparr>sv_failure := q, sv_phase := Draining [e]\<rparr>)"
| drain: "sv_phase s = Draining es \<Longrightarrow> chan_recv (sv_failure s) = Some (e, q) \<Longrightarrow>
    server_step marshal eth wcfg s (s\<lparr>sv_failure := q, sv_phase := Draining (es @ [e])\<rparr>)"
| drained: "sv_phase s = Draining es \<Longrightarrow> chan_recv (sv_failure s) = None \<Longrightarrow>
    server_step marshal eth wcfg s (s\<lparr>sv_phase := Stopping stop_order es\<rparr>)"
| stop_next: "sv_phase s = Stopping (x # xs) es \<Longrightarrow>
    server_step marshal eth wcfg s ((stop_part env x s)\<lparr>sv_phase := Stopping xs es\<rparr>)"
| finish: "sv_phase s = Stopping [] es \<Longrightarrow> server_step marshal eth wcfg s (s\<lparr>sv_phase := Finished (FlattenErrors es)\<rparr>)"

inductive server_run :: "(Flashblock \<Rightarrow> string) \<Rightarrow> 'tx eth_lib \<Rightarrow> websocketConfig \<Rightarrow> 'e server \<Rightarrow> 'e server \<Rightarrow> bool"
  for marshal :: "Flashblock \<Rightarrow> string" and eth :: "'tx eth_lib" and wcfg :: websocketConfig where
  here: "server_run marshal eth wcfg s s"
| further: "server_run marshal eth wcfg s s1 \<Longrightarrow> server_step marshal eth wcfg s1 s2 \<Longrightarrow> server_run marshal eth wcfg s s2"

lemma server_run_trans: "server_run marshal eth wcfg s2 s3 \<Longrightarrow> server_run marshal eth wcfg s1 s2 \<Longrightarrow> server_run marshal eth wcfg s1 s3"
  by (induction rule: server_run.induct) (auto intro: server_run.intros)

section \<open>Shutdown\<close>

fun took :: "'e phase \<Rightarrow> 'e list \<Rightarrow> bool" where
  "took Serving es = (es = [])"
| "took (Draining ds) es = (es = ds \<and> ds \<noteq> [])"
| "took (Stopping xs ds) es = (es = ds)"
| "took (Finished r) es = (r = FlattenErrors es)"

fun to_stop :: "'e phase \<Rightarrow> part list option" where
  "to_stop (Stopping xs ds) = Some xs"
| "to_stop (Finished r) = Some []"
| "to_stop ph = None"

definition inactive :: "part \<Rightarrow> 'e server \<Rightarrow> bool" where
  "inactive x s =
     (case x of
        RpcProxy \<Rightarrow> (\<forall>c. sv_rpc s = Some c \<longrightarrow> connections c = [])
      | FlashblocksProxy \<Rightarrow> (\<forall>c. sv_flashblocks s = Some c \<longrightarrow> ws_connections c = [] \<and> snd ` set (pumps c) \<subseteq> set (sv_late s))
      | AuthrpcPart \<Rightarrow> (\<forall>c. sv_authrpc s = Some c \<longrightarrow> connections c = [])
      | MetricsServer \<Rightarrow> True)"

definition server_inv :: "'e server \<Rightarrow> bool" where
  "server_inv s \<longleftrightarrow>
     (\<exists>es. took (sv_phase s) es \<and> ch.conserves (sv_failed s) es (sv_failure s)) \<and> ch_cap (sv_failure s) = 16 \<and>
     (case to_stop (sv_phase s) of None \<Rightarrow> sv_stopped s = [] | Some xs \<Rightarrow> sv_stopped s @ xs = stop_order) \<and>
     (\<forall>x\<in>set (sv_stopped s). inactive x s)"

lemma inactive_conn [simp]:
  "st \<noteq> StateNew \<Longrightarrow> connections c = [] \<Longrightarrow> connections (upstreamConnectionChanged addr conn st c) = []"
  by (cases st) (auto simp: upstreamConnectionChanged_def split: option.splits)

lemma inactive_ws [simp]:
  "st \<noteq> StateNew \<Longrightarrow> ws_connections c = [] \<Longrightarrow> ws_connections (ws_upstreamConnectionChanged addr conn st c) = []"
  "pumps (ws_upstreamConnectionChanged addr conn st c) = pumps c"
  by (cases st; simp add: ws_upstreamConnectionChanged_def)+

lemma stop_part_phase [simp]:
  "sv_failure (stop_part env x s) = sv_failure s" "sv_failed (stop_part env x s) = sv_failed s"
  "sv_sessions (stop_part env x s) = sv_sessions s" "sv_late (stop_part env x s) = sv_late s" "sv_ended (stop_part env x s) = sv_ended s"
  "sv_stopped (stop_part env x s) = sv_stopped s @ [x]" "sv_phase (stop_part env x s) = sv_phase s"
  by (cases x; simp add: stop_part_def)+

lemma inactive_phase [simp]:
  "inactive x (s\<lparr>sv_phase := ph\<rparr>) = inactive x s" "inactive x (s\<lparr>sv_failure := q\<rparr>) = inactive x s"
  "inactive x (s\<lparr>sv_failed := fs\<rparr>) = inactive x s" "inactive x (s\<lparr>sv_hangup := h\<rparr>) = inactive x s"
  "inactive x (s\<lparr>sv_terminator := h\<rparr>) = inactive x s"
  by (cases x; simp add: inactive_def)+

lemma inactive_stop_same: "inactive x (stop_part env x s)"
  by (cases x) (simp_all add: inactive_def stop_part_def HTTP_Stop_def Websocket_Stop_def ResetConnections_eq(1)
      ws_ResetConnections_eq split: option.split)

lemma inactive_stop_part: "inactive y s \<Longrightarrow> inactive y (stop_part env x s)"
  by (cases "x = y", simp add: inactive_stop_same) (cases x; cases y; simp add: inactive_def stop_part_def)

lemma begin_session_simps [simp]:
  "ws_connections (begin_session addr k c) = ws_connections c" "pumps (begin_session addr k c) = AList.update addr k (pumps c)"
  "ws_stops (begin_session addr k c) = ws_stops c"
  by (simp_all add: begin_session_def)

lemma end_session_D:
  "end_session addr reason f c = (ev, c') \<Longrightarrow> ws_connections c' = ws_connections c \<and> pumps c' = AList.delete addr (pumps c) \<and>
     ws_stops c' = ws_stops c"
  by (auto simp: end_session_def)

lemma snd_update_subset: "snd ` set (AList.update a k ps) \<subseteq> insert k (snd ` set ps)"
  by (induction ps) auto

lemma snd_delete_subset: "snd ` set (AList.delete a ps) \<subseteq> snd ` set ps"
  by (auto simp: AList.delete_eq)

lemma server_inv_same:
  assumes "server_inv s" "sv_phase s' = sv_phase s" "sv_failed s' = sv_failed s" "sv_failure s' = sv_failure s" "sv_stopped s' = sv_stopped s"
    and "\<And>x. x \<in> set (sv_stopped s) \<Longrightarrow> inactive x s \<Longrightarrow> inactive x s'"
  shows "server_inv s'"
  using assms by (simp add: server_inv_def split: option.splits)

lemma server_inv_step: "server_step marshal eth wcfg s s' \<Longrightarrow> server_inv s \<Longrightarrow> server_inv s'"
proof (induction rule: server_step.induct)
  case (stop_next s x xs es env)
  then show ?case by (auto simp: server_inv_def inactive_stop_part inactive_stop_same)
next
  case (fail e s q)
  then show ?case by (auto simp: server_inv_def intro: ch.conserves_send dest: ch.try_send_SomeD split: option.splits)
next
  case (failed s e q)
  then show ?case by (auto simp: server_inv_def intro: ch.conserves_recv [where received = "[]", simplified] dest: ch.recv_SomeD)
next
  case (drain s es e q)
  then show ?case by (auto simp: server_inv_def intro: ch.conserves_recv dest: ch.recv_SomeD)
next
  case (rpc_conn s c st addr conn)
  then show ?case by (auto simp: server_inv_def inactive_def split: part.splits option.splits)
next
  case (authrpc_conn s c st addr conn)
  then show ?case by (auto simp: server_inv_def inactive_def split: part.splits option.splits)
next
  case (flashblocks_conn s c st addr conn)
  then show ?case by (auto simp: server_inv_def inactive_def split: part.splits option.splits)
next
  case (session_begins s c k addr)
  show ?case
    by (rule server_inv_same [OF session_begins(3)])
      (use session_begins(1) snd_update_subset [of addr k "pumps c"] in \<open>auto simp: inactive_def split: part.splits\<close>)
next
  case (session_runs s c k pump)
  show ?case
    by (rule server_inv_same [OF session_runs(5)]) (use session_runs(1) in \<open>auto simp: inactive_def split: part.splits\<close>)
next
  case (session_ends s c addr k es reason frontend_closes events c')
  show ?case
    by (rule server_inv_same [OF session_ends(7)])
      (use session_ends(1) end_session_D [OF session_ends(6)] snd_delete_subset [of addr "pumps c"]
        in \<open>auto simp: inactive_def split: part.splits\<close>)
qed (auto simp: server_inv_def split: option.splits)

lemma server_inv_new: "server_inv (new_server a f r)"
  by (simp add: server_inv_def new_server_def make_chan_def ch.conserves_def)

lemma server_inv_run: "server_run marshal eth wcfg s s' \<Longrightarrow> server_inv s \<Longrightarrow> server_inv s'"
  by (induction rule: server_run.induct) (auto dest: server_inv_step)

text \<open>What became of a session: its pump is registered, was stopped, or it has ended, unless its address was taken by another.\<close>

definition accounted :: "'e server \<Rightarrow> 'e WS_conns \<Rightarrow> string \<times> nat \<Rightarrow> bool" where
  "accounted s c session \<longleftrightarrow> snd session \<in> set (sv_ended s) \<or> snd session \<in> fst ` set (ws_stops c) \<or>
     map_of (pumps c) (fst session) = Some (snd session) \<or>
     (\<exists>k. k \<noteq> snd session \<and> (fst session, k) \<in> set (sv_sessions s))"

definition session_inv :: "'e server \<Rightarrow> bool" where
  "session_inv s \<longleftrightarrow> (\<forall>c. sv_flashblocks s = Some c \<longrightarrow> (\<forall>session\<in>set (sv_sessions s). accounted s c session))"

lemma accounted_mono:
  assumes "accounted s c x" "set (sv_ended s) \<subseteq> set (sv_ended s')" "set (sv_sessions s) \<subseteq> set (sv_sessions s')"
    and "ws_stops c' = ws_stops c" "pumps c' = pumps c"
  shows "accounted s' c' x"
  using assms by (auto simp: accounted_def)

lemma accounted_reset: "accounted s c x \<Longrightarrow> sv_ended s' = sv_ended s \<Longrightarrow> sv_sessions s' = sv_sessions s \<Longrightarrow>
    accounted s' (ws_ResetConnections env c) x"
proof -
  assume a: "accounted s c x" "sv_ended s' = sv_ended s" "sv_sessions s' = sv_sessions s"
  have stops: "fst ` set (ws_stops (ws_ResetConnections env c)) = fst ` set (ws_stops c) \<union> snd ` set (pumps c)"
    by (simp add: ws_ResetConnections_eq stops_of_reset)
  have reg: "map_of (pumps c) (fst x) = Some (snd x) \<Longrightarrow> snd x \<in> snd ` set (pumps c)" using map_of_SomeD by force
  from a(1) reg show ?thesis unfolding accounted_def stops a(2,3) by blast
qed

lemma stop_part_flashblocks:
  "sv_flashblocks (stop_part env x s) = (if x = FlashblocksProxy then map_option (ws_ResetConnections env) (sv_flashblocks s) else sv_flashblocks s)"
  by (cases x) (simp_all add: stop_part_def Websocket_Stop_def split: option.split)

lemma session_inv_same:
  "session_inv s \<Longrightarrow> sv_flashblocks s' = sv_flashblocks s \<Longrightarrow> sv_sessions s' = sv_sessions s \<Longrightarrow> sv_ended s' = sv_ended s \<Longrightarrow> session_inv s'"
  by (simp add: session_inv_def accounted_def)

lemma session_inv_step: "server_step marshal eth wcfg s s' \<Longrightarrow> session_inv s \<Longrightarrow> session_inv s'"
proof (induction rule: server_step.induct)
  case (flashblocks_conn s c st addr conn)
  have "ws_stops (ws_upstreamConnectionChanged addr conn st c) = ws_stops c" "pumps (ws_upstreamConnectionChanged addr conn st c) = pumps c"
    by (cases st; simp add: ws_upstreamConnectionChanged_def)+
  with flashblocks_conn show ?case by (auto simp: session_inv_def intro: accounted_mono)
next
  case (session_begins s c k addr)
  let ?s = "s\<lparr>sv_flashblocks := Some (begin_session addr k c), sv_sessions := sv_sessions s @ [(addr, k)],
      sv_late := if FlashblocksProxy \<in> set (sv_stopped s) then sv_late s @ [k] else sv_late s\<rparr>"
  have "accounted ?s (begin_session addr k c) x" if x: "x \<in> set (sv_sessions s)" for x
  proof -
    obtain a j where aj: "x = (a, j)" by (cases x)
    have "accounted s c (a, j)" "j \<noteq> k" using session_begins x aj by (force simp: session_inv_def)+
    then show ?thesis by (auto simp: accounted_def aj update_conv')
  qed
  moreover have "accounted ?s (begin_session addr k c) (addr, k)" by (simp add: accounted_def update_conv')
  ultimately show ?case by (simp add: session_inv_def)
next
  case (session_runs s c k pump)
  then show ?case by (auto simp: session_inv_def intro: accounted_mono)
next
  case (session_ends s c addr k es reason frontend_closes events c')
  note c' = end_session_D [OF session_ends(6)]
  let ?s = "s\<lparr>sv_flashblocks := Some c', sv_ended := sv_ended s @ [k]\<rparr>"
  have "accounted ?s c' x" if x: "x \<in> set (sv_sessions s)" for x
  proof -
    obtain a j where aj: "x = (a, j)" by (cases x)
    have "accounted s c (a, j)" using session_ends x aj by (simp add: session_inv_def)
    with c' session_ends(2) show ?thesis by (auto simp: accounted_def aj delete_conv')
  qed
  then show ?case by (simp add: session_inv_def)
next
  case (reset s u q env)
  show ?case
  proof (cases "sv_flashblocks s")
    case (Some c)
    with reset(3) show ?thesis by (simp add: session_inv_def Flashblocks_ResetConnections_def accounted_reset [where s = s])
  qed (simp add: session_inv_def Flashblocks_ResetConnections_def)
next
  case (stop_next s x xs es env)
  show ?case
  proof (cases "x = FlashblocksProxy")
    case True
    with stop_next show ?thesis
      by (cases "sv_flashblocks s") (simp_all add: session_inv_def stop_part_flashblocks accounted_reset [where s = s])
  next
    case False
    with stop_next(2) show ?thesis by (rule_tac session_inv_same [OF stop_next(2)]) (simp_all add: stop_part_flashblocks)
  qed
qed (erule session_inv_same; simp)+

lemma session_inv_run: "server_run marshal eth wcfg s s' \<Longrightarrow> session_inv s \<Longrightarrow> session_inv s'"
  by (induction rule: server_run.induct) (auto dest: session_inv_step)

lemma session_inv_new: "session_inv (new_server a f r)"
  by (simp add: session_inv_def new_server_def)

text \<open>
  C18: Whatever failures, signals, connections and websocket sessions come in whatever order: when the server returns,
  it has stopped the RPC proxy, the flashblocks proxy, the engine API proxy and the metrics
  server, in this order and each once; no proxy has an active connection left; every websocket session that had registered its
  pump before the flashblocks proxy was stopped has ended or its pump was called to stop (what that does is in theory \<open>Websocket\<close>), or another session came from the same address; the only pumps still registered are of sessions that got through
  dialling the backend after that, which nothing stops any more; and the server's error is
  that of the failures reported to it, from the first on in their order, without those (at most
  16) that came after it stopped looking. Asked to terminate without a failure, it returns none.
\<close>

theorem server_shutdown:
  assumes "server_run marshal eth wcfg (new_server a f r) s" "sv_phase s = Finished res"
  shows "sv_stopped s = [RpcProxy, FlashblocksProxy, AuthrpcPart, MetricsServer] \<and>
    (\<forall>c. sv_rpc s = Some c \<or> sv_authrpc s = Some c \<longrightarrow> connections c = []) \<and>
    (\<forall>c. sv_flashblocks s = Some c \<longrightarrow> ws_connections c = [] \<and> snd ` set (pumps c) \<subseteq> set (sv_late s) \<and>
       (\<forall>addr k. (addr, k) \<in> set (sv_sessions s) \<longrightarrow> k \<in> set (sv_late s) \<or> k \<in> set (sv_ended s) \<or> k \<in> fst ` set (ws_stops c) \<or>
          (\<exists>k'. k' \<noteq> k \<and> (addr, k') \<in> set (sv_sessions s)))) \<and>
    (\<exists>es later. sv_failed s = es @ later \<and> length later \<le> 16 \<and> res = FlattenErrors es)"
proof -
  have inv: "server_inv s" by (rule server_inv_run [OF assms(1) server_inv_new])
  then obtain es where es: "res = FlattenErrors es" "ch.conserves (sv_failed s) es (sv_failure s)"
    using assms(2) by (auto simp: server_inv_def)
  have all: "ch_cap (sv_failure s) = 16" "sv_stopped s = stop_order" "\<forall>x\<in>set stop_order. inactive x s"
    using inv assms(2) by (auto simp: server_inv_def)
  have late: "ws_connections c = [] \<and> snd ` set (pumps c) \<subseteq> set (sv_late s)" if "sv_flashblocks s = Some c" for c
    using all(3) that by (simp add: stop_order_def inactive_def)
  have "k \<in> set (sv_late s) \<or> k \<in> set (sv_ended s) \<or> k \<in> fst ` set (ws_stops c) \<or> (\<exists>k'. k' \<noteq> k \<and> (addr, k') \<in> set (sv_sessions s))"
    if c: "sv_flashblocks s = Some c" and k: "(addr, k) \<in> set (sv_sessions s)" for c addr k
  proof -
    have "accounted s c (addr, k)" using session_inv_run [OF assms(1) session_inv_new] c k by (simp add: session_inv_def)
    moreover have "k \<in> set (sv_late s)" if "map_of (pumps c) addr = Some k"
      using late [OF c] map_of_SomeD [OF that] by force
    ultimately show ?thesis by (auto simp: accounted_def)
  qed
  with es all late show ?thesis by (auto simp: stop_order_def inactive_def ch.conserves_def)
qed

definition can_finish :: "(Flashblock \<Rightarrow> string) \<Rightarrow> 'tx eth_lib \<Rightarrow> websocketConfig \<Rightarrow> 'e server \<Rightarrow> 'e flat \<Rightarrow> bool" where
  "can_finish marshal eth wcfg s res \<longleftrightarrow> (\<exists>s'. server_run marshal eth wcfg s s' \<and> sv_phase s' = Finished res)"

lemma can_finish_step: "server_step marshal eth wcfg s s1 \<Longrightarrow> can_finish marshal eth wcfg s1 res \<Longrightarrow> can_finish marshal eth wcfg s res"
  unfolding can_finish_def using server_run_trans [OF _ server_run.further [OF server_run.here]] by blast

lemma can_finish_here: "sv_phase s = Finished res \<Longrightarrow> can_finish marshal eth wcfg s res"
  unfolding can_finish_def using server_run.here by blast

lemma stopping_finishes: "sv_phase s = Stopping xs es \<Longrightarrow> can_finish marshal eth wcfg s (FlattenErrors es)"
proof (induction xs arbitrary: s)
  case Nil
  show ?case by (rule can_finish_step [OF server_step.finish [OF Nil] can_finish_here]) simp
next
  case (Cons x xs)
  show ?case by (rule can_finish_step [OF server_step.stop_next [OF Cons.prems] Cons.IH]) simp
qed

lemma draining_finishes:
  "sv_phase s = Draining es \<Longrightarrow> can_finish marshal eth wcfg s (FlattenErrors (es @ ch_buf (sv_failure s)))"
proof (induction "ch_buf (sv_failure s)" arbitrary: s es)
  case Nil
  have none: "chan_recv (sv_failure s) = None" using Nil.hyps ch.recv_None_iff by metis
  show ?case using Nil.hyps
    by (intro can_finish_step [OF server_step.drained [OF Nil.prems none]] stopping_finishes) simp
next
  case (Cons e rest)
  obtain q where q: "chan_recv (sv_failure s) = Some (e, q)" "ch_buf q = rest"
    using ch.recv_law [of "sv_failure s" e rest] Cons.hyps(2) by auto
  let ?s = "s\<lparr>sv_failure := q, sv_phase := Draining (es @ [e])\<rparr>"
  have "can_finish marshal eth wcfg ?s (FlattenErrors ((es @ [e]) @ ch_buf (sv_failure ?s)))"
    by (rule Cons.hyps(1)) (simp_all add: q)
  then have "can_finish marshal eth wcfg ?s (FlattenErrors (es @ ch_buf (sv_failure s)))" using q(2) Cons.hyps(2) by simp
  with server_step.drain [OF Cons.prems q(1)] show ?case by (rule can_finish_step)
qed

lemma serving_finishes:
  assumes "sv_phase s = Serving" "ch_buf (sv_terminator s) \<noteq> [] \<or> ch_buf (sv_failure s) \<noteq> []"
  shows "\<exists>res. can_finish marshal eth wcfg s res"
proof (cases "ch_buf (sv_failure s)")
  case (Cons e rest)
  from ch.recv_law [OF this] obtain q where q: "chan_recv (sv_failure s) = Some (e, q)" by auto
  have "\<exists>res. can_finish marshal eth wcfg (s\<lparr>sv_failure := q, sv_phase := Draining [e]\<rparr>) res"
    using draining_finishes [of "s\<lparr>sv_failure := q, sv_phase := Draining [e]\<rparr>" "[e]"] by auto
  then show ?thesis using can_finish_step [OF server_step.failed [OF assms(1) q]] by blast
next
  case Nil
  with assms obtain u rest where "ch_buf (sv_terminator s) = u # rest" by (cases "ch_buf (sv_terminator s)") auto
  from ch.recv_law [OF this] obtain q where q: "chan_recv (sv_terminator s) = Some (u, q)" by auto
  have "\<exists>res. can_finish marshal eth wcfg (s\<lparr>sv_terminator := q, sv_phase := Stopping stop_order []\<rparr>) res"
    using stopping_finishes [of "s\<lparr>sv_terminator := q, sv_phase := Stopping stop_order []\<rparr>" stop_order "[]"] by auto
  then show ?thesis using can_finish_step [OF server_step.terminate [OF assms(1) q]] by blast
qed

text \<open>
  C25: Once a failure or a request to terminate has come, the server can be brought to return
  from every state it may be in; and from the moment it looks at failures, with the error of all
  those present.
\<close>

theorem server_finishes:
  assumes "ch_buf (sv_terminator s) \<noteq> [] \<or> ch_buf (sv_failure s) \<noteq> [] \<or> sv_phase s \<noteq> Serving"
  shows "\<exists>s' res. server_run marshal eth wcfg s s' \<and> sv_phase s' = Finished res \<and>
    (\<forall>es. sv_phase s = Draining es \<longrightarrow> res = FlattenErrors (es @ ch_buf (sv_failure s)))"
proof -
  have "\<exists>res. can_finish marshal eth wcfg s res \<and> (\<forall>es. sv_phase s = Draining es \<longrightarrow> res = FlattenErrors (es @ ch_buf (sv_failure s)))"
  proof (cases "sv_phase s")
    case Serving
    with serving_finishes [OF Serving] assms show ?thesis by auto
  next
    case (Draining es)
    with draining_finishes [OF Draining] show ?thesis by auto
  next
    case (Stopping xs es)
    with stopping_finishes [OF Stopping] show ?thesis by auto
  next
    case (Finished res)
    with can_finish_here [OF Finished] show ?thesis by auto
  qed
  then show ?thesis unfolding can_finish_def by blast
qed

theorem server_finishes_witness:
  "\<exists>s' res. server_run (\<lambda>b. []) demo_eth demo_ws_config ((new_server True True True)\<lparr>sv_phase := Draining [''listen'']\<rparr>) s' \<and>
     sv_phase s' = Finished res \<and> res = OneError ''listen''"
  using server_finishes [of "(new_server True True True)\<lparr>sv_phase := Draining [''listen'']\<rparr>" "\<lambda>b. []" demo_eth demo_ws_config]
  by (auto simp: new_server_def make_chan_def FlattenErrors_def)

lemma demo_server_run:
  "\<exists>s. server_run marshal eth wcfg (new_server True True True) s \<and> sv_phase s = Finished (NoError :: string flat)"
proof -
  let ?s0 = "new_server True True True :: string server"
  let ?s1 = "?s0\<lparr>sv_flashblocks := Some (begin_session ''a'' 7 no_ws_conns), sv_sessions := [(''a'', 7)]\<rparr>"
  let ?s2 = "?s1\<lparr>sv_terminator := \<lparr>ch_cap = 1, ch_buf = [()]\<rparr>\<rparr>"
  have "server_step marshal eth wcfg ?s0 ?s1"
    using server_step.session_begins [of ?s0 no_ws_conns 7 marshal eth wcfg "''a''"] by (simp add: new_server_def)
  moreover have "server_step marshal eth wcfg ?s1 ?s2"
    by (rule server_step.signal_term) (simp add: new_server_def make_chan_def chan_send_def)
  moreover have "server_step marshal eth wcfg ?s2 (?s2\<lparr>sv_terminator := make_chan 1, sv_phase := Stopping stop_order []\<rparr>)"
    by (rule server_step.terminate) (simp_all add: new_server_def make_chan_def chan_recv_def)
  moreover have "can_finish marshal eth wcfg (?s2\<lparr>sv_terminator := make_chan 1, sv_phase := Stopping stop_order []\<rparr>) (FlattenErrors [])"
    by (rule stopping_finishes) simp
  ultimately have "can_finish marshal eth wcfg ?s0 (FlattenErrors [])" by (meson can_finish_step)
  then show ?thesis by (simp add: can_finish_def FlattenErrors_def)
qed

theorem server_shutdown_witness:
  "\<exists>s. server_run (\<lambda>b. []) demo_eth demo_ws_config (new_server True True True) s \<and> sv_phase s = Finished (NoError :: string flat) \<and>
     hd (sv_stopped s) = RpcProxy"
  using demo_server_run server_shutdown [of "\<lambda>b. []" demo_eth demo_ws_config True True True _ NoError] by fastforce

end
