(* ===== verification/Flags.thy ===== *)
theory Flags
  imports Config_Checks Json_Text
begin

text \<open>
  The command line: \<open>cmd/serve.go\<close>, the global flags of \<open>cmd/main.go\<close>, and the configuration
  they fill (\<open>config.New\<close>). A flag has a category, a name, an environment variable, a default and a
  destination in the configuration; its help text is left out. The library (urfave/cli) takes a
  flag's value from the command line, else from the environment, else the default. The flags of
  string slices have a slice of their own as destination, which \<open>Before\<close> copies into the
  configuration; here they write to it directly.
\<close>

section \<open>Flags\<close>

datatype flag_value = StringV string | DurationV int | BoolV bool | FloatV rat | IntV int | SliceV "string list"

record 's flag =
  fl_category :: string
  fl_name :: string
  fl_env :: string
  fl_value :: flag_value
  fl_set :: "flag_value \<Rightarrow> 's \<Rightarrow> 's"

definition envPrefix :: string where
  "envPrefix = ''BPROXY_''"

definition ToUpper :: "string \<Rightarrow> string" where
  \<comment> \<open>\<open>strings.ToUpper\<close> on ASCII\<close>
  "ToUpper s = map upper s"

definition flag :: "string \<Rightarrow> string \<Rightarrow> string \<Rightarrow> flag_value \<Rightarrow> (flag_value \<Rightarrow> 's \<Rightarrow> 's) \<Rightarrow> 's flag" where
  "flag category name env v dest =
     \<lparr>fl_category = category, fl_name = name, fl_env = envPrefix @ env, fl_value = v, fl_set = dest\<rparr>"

text \<open>The typed destinations: each takes a record's update function for its field.\<close>

definition set_string :: "((string \<Rightarrow> string) \<Rightarrow> 's \<Rightarrow> 's) \<Rightarrow> flag_value \<Rightarrow> 's \<Rightarrow> 's" where
  "set_string upd v s = (case v of StringV x \<Rightarrow> upd (\<lambda>_. x) s | _ \<Rightarrow> s)"

definition set_duration :: "((int \<Rightarrow> int) \<Rightarrow> 's \<Rightarrow> 's) \<Rightarrow> flag_value \<Rightarrow> 's \<Rightarrow> 's" where
  "set_duration upd v s = (case v of DurationV x \<Rightarrow> upd (\<lambda>_. x) s | _ \<Rightarrow> s)"

definition set_bool :: "((bool \<Rightarrow> bool) \<Rightarrow> 's \<Rightarrow> 's) \<Rightarrow> flag_value \<Rightarrow> 's \<Rightarrow> 's" where
  "set_bool upd v s = (case v of BoolV x \<Rightarrow> upd (\<lambda>_. x) s | _ \<Rightarrow> s)"

definition set_float :: "((rat \<Rightarrow> rat) \<Rightarrow> 's \<Rightarrow> 's) \<Rightarrow> flag_value \<Rightarrow> 's \<Rightarrow> 's" where
  "set_float upd v s = (case v of FloatV x \<Rightarrow> upd (\<lambda>_. x) s | _ \<Rightarrow> s)"

definition set_int :: "((int \<Rightarrow> int) \<Rightarrow> 's \<Rightarrow> 's) \<Rightarrow> flag_value \<Rightarrow> 's \<Rightarrow> 's" where
  "set_int upd v s = (case v of IntV x \<Rightarrow> upd (\<lambda>_. x) s | _ \<Rightarrow> s)"

definition set_slice :: "((string list \<Rightarrow> string list) \<Rightarrow> 's \<Rightarrow> 's) \<Rightarrow> flag_value \<Rightarrow> 's \<Rightarrow> 's" where
  "set_slice upd v s = (case v of SliceV x \<Rightarrow> upd (\<lambda>_. x) s | _ \<Rightarrow> s)"

section \<open>The flags of an HTTP proxy, in the order of the code\<close>

definition backend_flags :: "string \<Rightarrow> string \<Rightarrow> HttpProxy flag list" where
  "backend_flags category backendURL =
    [flag (ToUpper category) (category @ ''-backend'')
       (ToUpper category @ ''_BACKEND'') (StringV backendURL)
       (set_string BackendURL_update),
     flag (ToUpper category) (category @ ''-backend-timeout'')
       (ToUpper category @ ''_BACKEND_TIMEOUT'') (DurationV Second)
       (set_duration BackendTimeout_update)]"

definition chaos_flags :: "string \<Rightarrow> HttpProxy flag list" where
  "chaos_flags category =
    [flag (ToUpper ''chaos'') (''chaos-'' @ category @ ''-enabled'')
       (ToUpper (''chaos_'' @ category) @ ''_ENABLED'') (BoolV False)
       (set_bool (\<lambda>f. Chaos_update (Enabled_update f))),
     flag (ToUpper ''chaos'') (''chaos-'' @ category @ ''-injected-http-error-probability'')
       (ToUpper (''chaos_'' @ category) @ ''_INJECTED_HTTP_ERROR_PROBABILITY'') (FloatV 0)
       (set_float (\<lambda>f. Chaos_update (InjectedHttpErrorProbability_update f))),
     flag (ToUpper ''chaos'') (''chaos-'' @ category @ ''-injected-jrpc-error-probability'')
       (ToUpper (''chaos_'' @ category) @ ''_INJECTED_JRPC_ERROR_PROBABILITY'') (FloatV 0)
       (set_float (\<lambda>f. Chaos_update (InjectedJrpcErrorProbability_update f))),
     flag (ToUpper ''chaos'') (''chaos-'' @ category @ ''-injected-invalid-jrpc-response-probability'')
       (ToUpper (''chaos_'' @ category) @ ''_INJECTED_INVALID_JRPC_RESPONSE_PROBABILITY'') (FloatV 0)
       (set_float (\<lambda>f. Chaos_update (InjectedInvalidJrpcResponseProbability_update f))),
     flag (ToUpper ''chaos'') (''chaos-'' @ category @ ''-min-injected-latency'')
       (ToUpper (''chaos_'' @ category) @ ''_MIN_INJECTED_LATENCY'') (DurationV 0)
       (set_duration (\<lambda>f. Chaos_update (MinInjectedLatency_update f))),
     flag (ToUpper ''chaos'') (''chaos-'' @ category @ ''-max-injected-latency'')
       (ToUpper (''chaos_'' @ category) @ ''_MAX_INJECTED_LATENCY'') (DurationV 0)
       (set_duration (\<lambda>f. Chaos_update (MaxInjectedLatency_update f)))]"

definition healthcheck_flags :: "string \<Rightarrow> HttpProxy flag list" where
  "healthcheck_flags category =
    [flag (ToUpper category) (category @ ''-client-idle-connection-timeout'')
       (ToUpper category @ ''_CLIENT_IDLE_CONNECTION_TIMEOUT'') (DurationV (30 * Second))
       (set_duration ClientIdleConnectionTimeout_update),
     flag (ToUpper category) (category @ ''-enabled'')
       (ToUpper category @ ''_ENABLED'') (BoolV False)
       (set_bool ProxyEnabled_update),
     flag (ToUpper category) (category @ ''-extra-mirrored-jrpc-methods'')
       (ToUpper category @ ''_EXTRA_MIRRORED_JRPC_METHODS'') (SliceV [])
       (set_slice ExtraMirroredJrpcMethods_update),
     flag (ToUpper category) (category @ ''-healthcheck'')
       (ToUpper category @ ''_HEALTHCHECK'') (StringV [])
       (set_string (\<lambda>f. HealthcheckCfg_update (URL_update f))),
     flag (ToUpper category) (category @ ''-healthcheck-interval'')
       (ToUpper category @ ''_HEALTHCHECK_INTERVAL'') (DurationV Second)
       (set_duration (\<lambda>f. HealthcheckCfg_update (Interval_update f))),
     flag (ToUpper category) (category @ ''-healthcheck-threshold-healthy'')
       (ToUpper category @ ''_HEALTHCHECK_THRESHOLD_HEALTHY'') (IntV 2)
       (set_int (\<lambda>f. HealthcheckCfg_update (ThresholdHealthy_update f))),
     flag (ToUpper category) (category @ ''-healthcheck-threshold-unhealthy'')
       (ToUpper category @ ''_HEALTHCHECK_THRESHOLD_UNHEALTHY'') (IntV 2)
       (set_int (\<lambda>f. HealthcheckCfg_update (ThresholdUnhealthy_update f)))]"

definition log_flags :: "string \<Rightarrow> string \<Rightarrow> HttpProxy flag list" where
  "log_flags category listenAddress =
    [flag (ToUpper category) (category @ ''-listen-address'')
       (ToUpper category @ ''_LISTEN_ADDRESS'') (StringV listenAddress)
       (set_string ListenAddress_update),
     flag (ToUpper category) (category @ ''-log-requests'')
       (ToUpper category @ ''_LOG_REQUESTS'') (BoolV False)
       (set_bool LogRequests_update),
     flag (ToUpper category) (category @ ''-log-requests-max-size'')
       (ToUpper category @ ''_LOG_REQUESTS_MAX_SIZE'') (IntV 4096)
       (set_int LogRequestsMaxSize_update),
     flag (ToUpper category) (category @ ''-log-responses'')
       (ToUpper category @ ''_LOG_RESPONSES'') (BoolV False)
       (set_bool LogResponses_update),
     flag (ToUpper category) (category @ ''-log-responses-max-size'')
       (ToUpper category @ ''_LOG_RESPONSES_MAX_SIZE'') (IntV 4096)
       (set_int LogResponsesMaxSize_update),
     flag (ToUpper category) (category @ ''-log-methods'')
       (ToUpper category @ ''_LOG_METHODS'') (SliceV [])
       (set_slice LogMethods_update)]"

definition limit_flags :: "string \<Rightarrow> HttpProxy flag list" where
  "limit_flags category =
    [flag (ToUpper category) (category @ ''-max-backend-connection-wait-timeout'')
       (ToUpper category @ ''_MAX_BACKEND_CONNECTION_WAIT_TIMEOUT'') (DurationV 0)
       (set_duration MaxBackendConnectionWaitTimeout_update),
     flag (ToUpper category) (category @ ''-max-backend-connections-per-host'')
       (ToUpper category @ ''_MAX_BACKEND_CONNECTIONS_PER_HOST'') (IntV 1)
       (set_int MaxBackendConnectionsPerHost_update),
     flag (ToUpper category) (category @ ''-max-client-connections-per-ip'')
       (ToUpper category @ ''_MAX_CLIENT_CONNECTIONS_PER_IP'') (IntV 0)
       (set_int MaxClientConnectionsPerIP_update),
     flag (ToUpper category) (category @ ''-max-request-size'')
       (ToUpper category @ ''_MAX_REQUEST_SIZE'') (IntV 15)
       (set_int MaxRequestSizeMb_update),
     flag (ToUpper category) (category @ ''-max-response-size'')
       (ToUpper category @ ''_MAX_RESPONSE_SIZE'') (IntV 160)
       (set_int MaxResponseSizeMb_update),
     flag (ToUpper category) (category @ ''-peer-tls-insecure-skip-verify'')
       (ToUpper category @ ''_PEER_TLS_INSECURE_SKIP_VERIFY'') (BoolV False)
       (set_bool PeerTLSInsecureSkipVerify_update),
     flag (ToUpper category) (category @ ''-peers'')
       (ToUpper category @ ''_PEERS'') (SliceV [])
       (set_slice PeerURLs_update),
     flag (ToUpper category) (category @ ''-remove-backend-from-peers'')
       (ToUpper category @ ''_REMOVE_BACKEND_FROM_PEERS'') (BoolV False)
       (set_bool RemoveBackendFromPeers_update),
     flag (ToUpper category) (category @ ''-tls-crt'')
       (ToUpper category @ ''_TLS_CRT'') (StringV [])
       (set_string TLSCertificate_update),
     flag (ToUpper category) (category @ ''-tls-key'')
       (ToUpper category @ ''_TLS_KEY'') (StringV [])
       (set_string TLSKey_update),
     flag (ToUpper category) (category @ ''-use-priority-queue'')
       (ToUpper category @ ''_USE_PRIORITY_QUEUE'') (BoolV False)
       (set_bool UsePriorityQueue_update)]"

section \<open>The flags of the flashblocks proxy\<close>

definition flashblocks_chaos_flags :: "WebsocketProxy flag list" where
  "flashblocks_chaos_flags =
    [flag (ToUpper ''flashblocks'') (''flashblocks'' @ ''-backend'')
       (ToUpper ''flashblocks'' @ ''_BACKEND'') (StringV ''ws://127.0.0.1:11111'')
       (set_string WsBackendURL_update),
     flag (ToUpper ''flashblocks'') (''flashblocks'' @ ''-backward-timeout'')
       (ToUpper ''flashblocks'' @ ''_BACKWARD_TIMEOUT'') (DurationV 0)
       (set_duration BackwardTimeout_update),
     flag (ToUpper ''chaos'') (''chaos-flashblocks-dropped-message-probability'')
       (ToUpper ''chaos'' @ ''_FLASHBLOCKS_DROPPED_MESSAGE_PROBABILITY'') (FloatV 0)
       (set_float (\<lambda>f. WsChaos_update (DroppedMessageProbability_update f))),
     flag (ToUpper ''chaos'') (''chaos-flashblocks-enabled'')
       (ToUpper ''chaos'' @ ''_FLASHBLOCKS_ENABLED'') (BoolV False)
       (set_bool (\<lambda>f. WsChaos_update (WsEnabled_update f))),
     flag (ToUpper ''chaos'') (''chaos-flashblocks-injected-invalid-flashblock-payload-probability'')
       (ToUpper ''chaos'' @ ''_FLASHBLOCKS_INJECTED_INVALID_FLASHBLOCK_PAYLOAD_PROBABILITY'') (FloatV 0)
       (set_float (\<lambda>f. WsChaos_update (InjectedInvalidFlashblockPayloadProbability_update f))),
     flag (ToUpper ''chaos'') (''chaos-flashblocks-injected-malformed-json-message-probability'')
       (ToUpper ''chaos'' @ ''_FLASHBLOCKS_INJECTED_MALFORMED_JSON_MESSAGE_PROBABILITY'') (FloatV 0)
       (set_float (\<lambda>f. WsChaos_update (InjectedMalformedJsonMessageProbability_update f))),
     flag (ToUpper ''chaos'') (''chaos-flashblocks-min-injected-latency'')
       (ToUpper ''chaos'' @ ''_FLASHBLOCKS_MIN_INJECTED_LATENCY'') (DurationV 0)
       (set_duration (\<lambda>f. WsChaos_update (WsMinInjectedLatency_update f))),
     flag (ToUpper ''chaos'') (''chaos-flashblocks-max-injected-latency'')
       (ToUpper ''chaos'' @ ''_FLASHBLOCKS_MAX_INJECTED_LATENCY'') (DurationV 0)
       (set_duration (\<lambda>f. WsChaos_update (WsMaxInjectedLatency_update f)))]"

definition flashblocks_proxy_flags :: "WebsocketProxy flag list" where
  "flashblocks_proxy_flags =
    [flag (ToUpper ''flashblocks'') (''flashblocks'' @ ''-control-timeout'')
       (ToUpper ''flashblocks'' @ ''_CONTROL_TIMEOUT'') (DurationV (2 * Second))
       (set_duration ControlTimeout_update),
     flag (ToUpper ''flashblocks'') (''flashblocks'' @ ''-enabled'')
       (ToUpper ''flashblocks'' @ ''_ENABLED'') (BoolV False)
       (set_bool WsProxyEnabled_update),
     flag (ToUpper ''flashblocks'') (''flashblocks'' @ ''-forward-timeout'')
       (ToUpper ''flashblocks'' @ ''_FORWARD_TIMEOUT'') (DurationV (5 * Second))
       (set_duration ForwardTimeout_update),
     flag (ToUpper ''flashblocks'') (''flashblocks'' @ ''-healthcheck'')
       (ToUpper ''flashblocks'' @ ''_HEALTHCHECK'') (StringV [])
       (set_string (\<lambda>f. WsHealthcheckCfg_update (URL_update f))),
     flag (ToUpper ''flashblocks'') (''flashblocks'' @ ''-healthcheck-interval'')
       (ToUpper ''flashblocks'' @ ''_HEALTHCHECK_INTERVAL'') (DurationV Second)
       (set_duration (\<lambda>f. WsHealthcheckCfg_update (Interval_update f))),
     flag (ToUpper ''flashblocks'') (''flashblocks'' @ ''-healthcheck-threshold-healthy'')
       (ToUpper ''flashblocks'' @ ''_HEALTHCHECK_THRESHOLD_HEALTHY'') (IntV 2)
       (set_int (\<lambda>f. WsHealthcheckCfg_update (ThresholdHealthy_update f))),
     flag (ToUpper ''flashblocks'') (''flashblocks'' @ ''-healthcheck-threshold-unhealthy'')
       (ToUpper ''flashblocks'' @ ''_HEALTHCHECK_THRESHOLD_UNHEALTHY'') (IntV 2)
       (set_int (\<lambda>f. WsHealthcheckCfg_update (ThresholdUnhealthy_update f))),
     flag (ToUpper ''flashblocks'') (''flashblocks'' @ ''-listen-address'')
       (ToUpper ''flashblocks'' @ ''_LISTEN_ADDRESS'') (StringV ''0.0.0.0:1111'')
       (set_string WsListenAddress_update),
     flag (ToUpper ''flashblocks'') (''flashblocks'' @ ''-log-messages'')
       (ToUpper ''flashblocks'' @ ''_LOG_MESSAGES'') (BoolV False)
       (set_bool LogMessages_update),
     flag (ToUpper ''flashblocks'') (''flashblocks'' @ ''-log-messages-max-size'')
       (ToUpper ''flashblocks'' @ ''_LOG_MESSAGES_MAX_SIZE'') (IntV 4096)
       (set_int LogMessagesMaxSize_update),
     flag (ToUpper ''flashblocks'') (''flashblocks'' @ ''-read-buffer-size'')
       (ToUpper ''flashblocks'' @ ''_READ_BUFFER_SIZE'') (IntV 16)
       (set_int ReadBufferSize_update),
     flag (ToUpper ''flashblocks'') (''flashblocks'' @ ''-tls-crt'')
       (ToUpper ''flashblocks'' @ ''_TLS_CRT'') (StringV [])
       (set_string WsTLSCertificate_update),
     flag (ToUpper ''flashblocks'') (''flashblocks'' @ ''-tls-key'')
       (ToUpper ''flashblocks'' @ ''_TLS_KEY'') (StringV [])
       (set_string WsTLSKey_update),
     flag (ToUpper ''flashblocks'') (''flashblocks'' @ ''-write-buffer-size'')
       (ToUpper ''flashblocks'' @ ''_WRITE_BUFFER_SIZE'') (IntV 16)
       (set_int WriteBufferSize_update)]"

section \<open>All flags\<close>

definition makeProxyFlags :: "string \<Rightarrow> string \<Rightarrow> string \<Rightarrow> HttpProxy flag list" where
  "makeProxyFlags category backendURL listenAddress =
     backend_flags category backendURL @ chaos_flags category @ healthcheck_flags category
     @ log_flags category listenAddress @ limit_flags category"

definition for_part :: "(('a \<Rightarrow> 'a) \<Rightarrow> 's \<Rightarrow> 's) \<Rightarrow> 'a flag \<Rightarrow> 's flag" where
  "for_part upd f = \<lparr>fl_category = fl_category f, fl_name = fl_name f, fl_env = fl_env f, fl_value = fl_value f,
     fl_set = (\<lambda>v. upd (fl_set f v))\<rparr>"

definition authrpc_flags :: "Config flag list" where
  "authrpc_flags =
     map (for_part (\<lambda>f. cfgAuthrpc_update (AuthrpcProxy_update f)))
       (makeProxyFlags ''authrpc'' ''http://127.0.0.1:18551'' ''0.0.0.0:8551'')
     @ [flag (ToUpper ''authrpc'') (''authrpc'' @ ''-deduplicate-fcus'')
          (ToUpper ''authrpc'' @ ''_DEDUPLICATE_FCUS'') (BoolV False)
          (set_bool (\<lambda>f. cfgAuthrpc_update (DeduplicateFCUs_update f))),
        flag (ToUpper ''authrpc'') (''authrpc'' @ ''-mirror-get-payload'')
          (ToUpper ''authrpc'' @ ''_MIRROR_GET_PAYLOAD'') (BoolV False)
          (set_bool (\<lambda>f. cfgAuthrpc_update (MirrorGetPayload_update f)))]"

definition rpc_flags :: "Config flag list" where
  "rpc_flags = map (for_part cfgRpc_update) (makeProxyFlags ''rpc'' ''http://127.0.0.1:18545'' ''0.0.0.0:8545'')"

definition metrics_flags :: "Config flag list" where
  "metrics_flags = [flag (ToUpper ''metrics'') (''metrics'' @ ''-listen-address'')
     (ToUpper ''metrics'' @ ''_LISTEN_ADDRESS'') (StringV ''0.0.0.0:6785'') (set_string MetricsListenAddress_update)]"

definition pprof_flags :: "Config flag list" where
  "pprof_flags = [flag (ToUpper ''pprof'') (''pprof'' @ ''-listen-address'')
     (ToUpper ''pprof'' @ ''_LISTEN_ADDRESS'') (StringV []) (set_string PprofListenAddress_update)]"

definition serve_flags :: "Config flag list" where
  "serve_flags = authrpc_flags @ map (for_part cfgFlashblocks_update) (flashblocks_chaos_flags @ flashblocks_proxy_flags)
     @ metrics_flags @ pprof_flags @ rpc_flags"

text \<open>The flags of the application.\<close>

definition main_flags :: "Config flag list" where
  "main_flags =
     [flag [] ''log-level'' ''LOG_LEVEL'' (StringV ''info'') (set_string (\<lambda>f. cfgLog_update (Level_update f))),
      flag [] ''log-mode'' ''LOG_MODE'' (StringV ''prod'') (set_string (\<lambda>f. cfgLog_update (Mode_update f)))]"

section \<open>The configuration they fill\<close>

definition zero_HttpProxy :: HttpProxy where
  "zero_HttpProxy = \<lparr>BackendTimeout = 0, BackendURL = [],
     Chaos = \<lparr>Enabled = False, MinInjectedLatency = 0, MaxInjectedLatency = 0, InjectedHttpErrorProbability = 0,
       InjectedJrpcErrorProbability = 0, InjectedInvalidJrpcResponseProbability = 0\<rparr>,
     ClientIdleConnectionTimeout = 0, ProxyEnabled = False, ExtraMirroredJrpcMethods = [],
     HealthcheckCfg = \<lparr>Interval = 0, ThresholdHealthy = 0, ThresholdUnhealthy = 0, URL = []\<rparr>,
     ListenAddress = [], LogMethods = [], LogRequests = False, LogRequestsMaxSize = 0, LogResponses = False,
     LogResponsesMaxSize = 0, MaxBackendConnectionsPerHost = 0, MaxBackendConnectionWaitTimeout = 0,
     MaxClientConnectionsPerIP = 0, MaxRequestSizeMb = 0, MaxResponseSizeMb = 0, PeerTLSInsecureSkipVerify = False,
     PeerURLs = [], RemoveBackendFromPeers = False, TLSCertificate = [], TLSKey = [], UsePriorityQueue = False\<rparr>"

definition zero_WebsocketProxy :: WebsocketProxy where
  "zero_WebsocketProxy = \<lparr>WsBackendURL = [], BackwardTimeout = 0,
     WsChaos = \<lparr>WsEnabled = False, WsMinInjectedLatency = 0, WsMaxInjectedLatency = 0, DroppedMessageProbability = 0,
       InjectedInvalidFlashblockPayloadProbability = 0, InjectedMalformedJsonMessageProbability = 0\<rparr>,
     ControlTimeout = 0, WsProxyEnabled = False, ForwardTimeout = 0,
     WsHealthcheckCfg = \<lparr>Interval = 0, ThresholdHealthy = 0, ThresholdUnhealthy = 0, URL = []\<rparr>,
     WsListenAddress = [], LogMessages = False, LogMessagesMaxSize = 0, ReadBufferSize = 0,
     WsTLSCertificate = [], WsTLSKey = [], WriteBufferSize = 0\<rparr>"

definition config_New :: "string \<Rightarrow> Config" where
  "config_New version =
     \<lparr>cfgAuthrpc = \<lparr>AuthrpcProxy = zero_HttpProxy, DeduplicateFCUs = False, MirrorGetPayload = False\<rparr>,
      cfgFlashblocks = zero_WebsocketProxy, cfgRpc = zero_HttpProxy, cfgLog = \<lparr>Level = [], Mode = []\<rparr>,
      MetricsListenAddress = [], PprofListenAddress = [], Version = version\<rparr>"

definition value_given :: "(string \<Rightarrow> flag_value option) \<Rightarrow> (string \<Rightarrow> flag_value option) \<Rightarrow> 's flag \<Rightarrow> flag_value" where
  "value_given args environ f =
     (case args (fl_name f) of Some v \<Rightarrow> v
      | None \<Rightarrow> (case environ (fl_env f) of Some v \<Rightarrow> v | None \<Rightarrow> fl_value f))"

definition configure :: "(string \<Rightarrow> flag_value option) \<Rightarrow> (string \<Rightarrow> flag_value option) \<Rightarrow> string \<Rightarrow> Config" where
  "configure args environ version =
     fold (\<lambda>f. fl_set f (value_given args environ f)) (main_flags @ serve_flags) (config_New version)"

text \<open>\<open>Before\<close> of the command: with the flags read, the configuration is validated.\<close>

definition serve_before :: "'e host_env \<Rightarrow> Config \<Rightarrow> ('e goerr option \<times> Config) go" where
  "serve_before env c = Config_Validate env c"

section \<open>The tables are consistent\<close>

lemmas flag_tables = main_flags_def serve_flags_def authrpc_flags_def rpc_flags_def metrics_flags_def pprof_flags_def
  makeProxyFlags_def backend_flags_def chaos_flags_def healthcheck_flags_def log_flags_def limit_flags_def
  flashblocks_chaos_flags_def flashblocks_proxy_flags_def flag_def for_part_def

lemmas flag_setters = value_given_def set_string_def set_duration_def set_bool_def set_float_def set_int_def set_slice_def

definition env_char :: "char \<Rightarrow> char" where
  "env_char c = (if c = CHR ''-'' then CHR ''_'' else upper c)"

lemma upper_letters:
  "upper CHR ''a'' = CHR ''A''" "upper CHR ''b'' = CHR ''B''" "upper CHR ''c'' = CHR ''C''" "upper CHR ''d'' = CHR ''D''"
  "upper CHR ''e'' = CHR ''E''" "upper CHR ''f'' = CHR ''F''" "upper CHR ''g'' = CHR ''G''" "upper CHR ''h'' = CHR ''H''"
  "upper CHR ''i'' = CHR ''I''" "upper CHR ''j'' = CHR ''J''" "upper CHR ''k'' = CHR ''K''" "upper CHR ''l'' = CHR ''L''"
  "upper CHR ''m'' = CHR ''M''" "upper CHR ''n'' = CHR ''N''" "upper CHR ''o'' = CHR ''O''" "upper CHR ''p'' = CHR ''P''"
  "upper CHR ''q'' = CHR ''Q''" "upper CHR ''r'' = CHR ''R''" "upper CHR ''s'' = CHR ''S''" "upper CHR ''t'' = CHR ''T''"
  "upper CHR ''u'' = CHR ''U''" "upper CHR ''v'' = CHR ''V''" "upper CHR ''w'' = CHR ''W''" "upper CHR ''x'' = CHR ''X''"
  "upper CHR ''y'' = CHR ''Y''" "upper CHR ''z'' = CHR ''Z''" "upper CHR ''_'' = CHR ''_''"
  by code_simp+

text \<open>
  No two flags have the same name (the library panics on a redefined flag), and the
  environment variable of each is its name in upper case, with underscores, after the prefix.
\<close>

theorem flags_consistent:
  "distinct (map fl_name (main_flags @ serve_flags)) \<and>
   (\<forall>f \<in> set (main_flags @ serve_flags). fl_env f = envPrefix @ map env_char (fl_name f))"
proof
  show "distinct (map fl_name (main_flags @ serve_flags))"
    by (simp add: flag_tables)
  have "list_all (\<lambda>f. fl_env f = envPrefix @ map env_char (fl_name f)) (main_flags @ serve_flags)"
    by (simp add: flag_tables env_char_def upper_letters ToUpper_def)
  then show "\<forall>f \<in> set (main_flags @ serve_flags). fl_env f = envPrefix @ map env_char (fl_name f)"
    by (simp add: list_all_iff)
qed

section \<open>The defaults are a configuration that validates\<close>

definition enabled_only :: "bool \<Rightarrow> bool \<Rightarrow> bool \<Rightarrow> string \<Rightarrow> flag_value option" where
  "enabled_only a f r name =
     (if name = ''authrpc-enabled'' then Some (BoolV a) else if name = ''flashblocks-enabled'' then Some (BoolV f)
      else if name = ''rpc-enabled'' then Some (BoolV r) else None)"

definition default_proxy :: "string \<Rightarrow> string \<Rightarrow> bool \<Rightarrow> HttpProxy" where
  "default_proxy backend listen en = \<lparr>BackendTimeout = Second, BackendURL = backend,
     Chaos = \<lparr>Enabled = False, MinInjectedLatency = 0, MaxInjectedLatency = 0, InjectedHttpErrorProbability = 0,
       InjectedJrpcErrorProbability = 0, InjectedInvalidJrpcResponseProbability = 0\<rparr>,
     ClientIdleConnectionTimeout = 30 * Second, ProxyEnabled = en, ExtraMirroredJrpcMethods = [],
     HealthcheckCfg = \<lparr>Interval = Second, ThresholdHealthy = 2, ThresholdUnhealthy = 2, URL = []\<rparr>,
     ListenAddress = listen, LogMethods = [], LogRequests = False, LogRequestsMaxSize = 4096, LogResponses = False,
     LogResponsesMaxSize = 4096, MaxBackendConnectionsPerHost = 1, MaxBackendConnectionWaitTimeout = 0,
     MaxClientConnectionsPerIP = 0, MaxRequestSizeMb = 15, MaxResponseSizeMb = 160, PeerTLSInsecureSkipVerify = False,
     PeerURLs = [], RemoveBackendFromPeers = False, TLSCertificate = [], TLSKey = [], UsePriorityQueue = False\<rparr>"

definition default_ws :: "bool \<Rightarrow> WebsocketProxy" where
  "default_ws en = \<lparr>WsBackendURL = ''ws://127.0.0.1:11111'', BackwardTimeout = 0,
     WsChaos = \<lparr>WsEnabled = False, WsMinInjectedLatency = 0, WsMaxInjectedLatency = 0, DroppedMessageProbability = 0,
       InjectedInvalidFlashblockPayloadProbability = 0, InjectedMalformedJsonMessageProbability = 0\<rparr>,
     ControlTimeout = 2 * Second, WsProxyEnabled = en, ForwardTimeout = 5 * Second,
     WsHealthcheckCfg = \<lparr>Interval = Second, ThresholdHealthy = 2, ThresholdUnhealthy = 2, URL = []\<rparr>,
     WsListenAddress = ''0.0.0.0:1111'', LogMessages = False, LogMessagesMaxSize = 4096, ReadBufferSize = 16,
     WsTLSCertificate = [], WsTLSKey = [], WriteBufferSize = 16\<rparr>"

lemma configure_defaults:
  "configure (enabled_only a f r) (\<lambda>_. None) version =
     \<lparr>cfgAuthrpc = \<lparr>AuthrpcProxy = default_proxy ''http://127.0.0.1:18551'' ''0.0.0.0:8551'' a,
        DeduplicateFCUs = False, MirrorGetPayload = False\<rparr>,
      cfgFlashblocks = default_ws f, cfgRpc = default_proxy ''http://127.0.0.1:18545'' ''0.0.0.0:8545'' r,
      cfgLog = \<lparr>Level = ''info'', Mode = ''prod''\<rparr>, MetricsListenAddress = ''0.0.0.0:6785'',
      PprofListenAddress = [], Version = version\<rparr>"
  by (simp add: configure_def enabled_only_def flag_tables flag_setters config_New_def zero_HttpProxy_def
      zero_WebsocketProxy_def default_proxy_def default_ws_def)

text \<open>
  C33: With the defaults, it is enough to enable some proxies: on a host where URLs parse, names
  and addresses resolve and the log level is known, validation accepts exactly if at least one of
  the three proxies is enabled.
\<close>

theorem defaults_accepted:
  assumes "\<And>u. \<exists>h. url_Parse env u = Inr h" and "\<And>h. \<exists>ips. LookupIP env h = Inr ips"
    and "\<And>addr. ResolveTCPAddr env addr = None" and "ParseAtomicLevel env ''info'' = None"
  shows "(\<exists>c. serve_before env (configure (enabled_only a f r) (\<lambda>_. None) version) = Ret (None, c)) = (a \<or> f \<or> r)"
  unfolding serve_before_def Config_Validate_iff
  by (simp add: configure_defaults default_proxy_def default_ws_def any_enabled_def http_ok_def proxy_ok_def
      chaos_ok_def healthcheck_ok_def ws_ok_def ws_chaos_ok_def tls_ok_def log_ok_def assms) blast

definition open_host :: "string host_env" where
  "open_host = \<lparr>url_Parse = (\<lambda>s. Inr \<lparr>url_Host = s\<rparr>), LookupIP = (\<lambda>h. Inr [\<lparr>ip_String = h, ip_IsLoopback = True\<rparr>]),
     ResolveTCPAddr = (\<lambda>a. None), Interfaces = Inr [], ReadFile = (\<lambda>f. Inl ''none''), StdDecode = (\<lambda>s. None),
     X509KeyPair = (\<lambda>c k. None), ParseAtomicLevel = (\<lambda>l. None)\<rparr>"

theorem defaults_accepted_witness:
  "\<exists>c. serve_before open_host (configure (enabled_only False False True) (\<lambda>_. None) ''v1'') = Ret (None, c)"
  using defaults_accepted [of open_host False False True "''v1''"] by (simp add: open_host_def)

end
