(* ===== verification/Metrics.thy ===== *)
theory Metrics
  imports Go_Prelude
begin

text \<open>
  The package \<open>metrics\<close>: the table of instruments and \<open>Setup\<close>, which \<open>Server.Run\<close> calls first. The
  package's variables start as nil, and \<open>Setup\<close> fills them one after the other. The state is the
  set of variables filled, in order, and the callbacks registered. What OpenTelemetry and the
  Prometheus exporter answer is the record \<open>metrics_lib\<close>: \<open>None\<close> is no error. The labels and the
  state of the candlestick are in theory \<open>Candlestick\<close>.
\<close>

section \<open>The code\<close>

datatype instrument =
    FrontendConnectionsActiveCount | FrontendConnectionsClosedCount
  | FrontendConnectionsDrainingCount | FrontendConnectionsEstablishedCount
  | Info | LateFCUCount
  | LatencyAuthrpcJwt | LatencyBackend | LatencyTotal
  | MirrorSuccessCount | MirrorFailureCount | MirrorDropCount
  | ProxySuccessCount | ProxyFailureCount | ProxyFakeCount
  | RequestSize | ResponseSize
  | TLSValidNotAfter | TLSValidNotBefore

datatype instrument_kind = Int64Counter | Int64ObservableGauge | Int64Histogram "int list"

record instrument_spec =
  in_kind :: instrument_kind
  in_name :: string
  in_description :: string
  in_unit :: string

text \<open>What \<open>RegisterCallback\<close> is given: the observe function of the server, or that of the candlestick.\<close>

datatype callback = ServerObserve | CandlestickObserve

record 'e metrics_lib =
  ResourceNew :: "'e option"
  PrometheusNew :: "string \<Rightarrow> 'e option"
  NewInstrument :: "instrument_spec \<Rightarrow> 'e option"
  RegisterCallback :: "callback \<Rightarrow> instrument option list \<Rightarrow> 'e option"

record metrics_state =
  meter :: bool
  exports :: "instrument list"
  callbacks :: "(callback \<times> instrument option list) list"

definition no_metrics :: metrics_state where
  "no_metrics = \<lparr>meter = False, exports = [], callbacks = []\<rparr>"

definition metricsNamespace :: string where
  "metricsNamespace = ''bproxy''"

definition setupMeter :: "'e metrics_lib \<Rightarrow> metrics_state \<Rightarrow> ('e option \<times> metrics_state) go" where
  "setupMeter lib st =
     (case ResourceNew lib of
        Some e \<Rightarrow> Ret (Some e, st)
      | None \<Rightarrow> (case PrometheusNew lib metricsNamespace of
          Some e \<Rightarrow> Ret (Some e, st)
        | None \<Rightarrow> Ret (None, st\<lparr>meter := True\<rparr>)))"

text \<open>What the functions below share: a method of the meter (nil panics), the check, the assignment.\<close>

definition create :: "'e metrics_lib \<Rightarrow> instrument \<Rightarrow> instrument_spec \<Rightarrow> metrics_state \<Rightarrow> ('e option \<times> metrics_state) go" where
  "create lib i spec st =
     (if \<not> meter st then Panic
      else case NewInstrument lib spec of
        Some e \<Rightarrow> Ret (Some e, st)
      | None \<Rightarrow> Ret (None, st\<lparr>exports := exports st @ [i]\<rparr>))"

definition setupFrontendConnectionsActiveCount :: "'e metrics_lib \<Rightarrow> metrics_state \<Rightarrow> ('e option \<times> metrics_state) go" where
  "setupFrontendConnectionsActiveCount lib = create lib FrontendConnectionsActiveCount
     \<lparr>in_kind = Int64ObservableGauge, in_name = ''frontend_connections_active_count'',
      in_description = ''count of open frontend connections'', in_unit = []\<rparr>"

definition setupFrontendConnectionsClosedCount :: "'e metrics_lib \<Rightarrow> metrics_state \<Rightarrow> ('e option \<times> metrics_state) go" where
  "setupFrontendConnectionsClosedCount lib = create lib FrontendConnectionsClosedCount
     \<lparr>in_kind = Int64Counter, in_name = ''frontend_connections_closed_count'',
      in_description = ''counter for network connections closed'', in_unit = []\<rparr>"

definition setupFrontendConnectionsDrainingCount :: "'e metrics_lib \<Rightarrow> metrics_state \<Rightarrow> ('e option \<times> metrics_state) go" where
  "setupFrontendConnectionsDrainingCount lib = create lib FrontendConnectionsDrainingCount
     \<lparr>in_kind = Int64ObservableGauge, in_name = ''frontend_connections_draining_count'',
      in_description = ''count of draining frontend connections'', in_unit = []\<rparr>"

definition setupFrontendConnectionsEstablishedCount :: "'e metrics_lib \<Rightarrow> metrics_state \<Rightarrow> ('e option \<times> metrics_state) go" where
  "setupFrontendConnectionsEstablishedCount lib = create lib FrontendConnectionsEstablishedCount
     \<lparr>in_kind = Int64Counter, in_name = ''frontend_connections_established_count'',
      in_description = ''counter for network connections established'', in_unit = []\<rparr>"

definition setupInfo :: "'e metrics_lib \<Rightarrow> metrics_state \<Rightarrow> ('e option \<times> metrics_state) go" where
  "setupInfo lib = create lib Info
     \<lparr>in_kind = Int64Counter, in_name = ''info'',
      in_description = ''target info metadata (see the labels)'', in_unit = []\<rparr>"

definition setupLateFCUCount :: "'e metrics_lib \<Rightarrow> metrics_state \<Rightarrow> ('e option \<times> metrics_state) go" where
  "setupLateFCUCount lib = create lib LateFCUCount
     \<lparr>in_kind = Int64Counter, in_name = ''late_fcu_count'',
      in_description = ''count of late fcu messages'', in_unit = []\<rparr>"

definition setupLatencyAuthrpcJwt :: "'e metrics_lib \<Rightarrow> metrics_state \<Rightarrow> ('e option \<times> metrics_state) go" where
  "setupLatencyAuthrpcJwt lib = create lib LatencyAuthrpcJwt
     \<lparr>in_kind = Int64ObservableGauge, in_name = ''latency_authrpc_jwt'',
      in_description = ''time since authrpc jwt token issued'', in_unit = ''ms''\<rparr>"

definition setupLatencyBackend :: "'e metrics_lib \<Rightarrow> metrics_state \<Rightarrow> ('e option \<times> metrics_state) go" where
  "setupLatencyBackend lib = create lib LatencyBackend
     \<lparr>in_kind = (Int64Histogram [0, 1, 2, 4, 8, 16, 32, 64, 128, 256, 512, 1024]), in_name = ''latency_backend'',
      in_description = ''latency of backend responses'', in_unit = ''ms''\<rparr>"

definition setupLatencyTotal :: "'e metrics_lib \<Rightarrow> metrics_state \<Rightarrow> ('e option \<times> metrics_state) go" where
  "setupLatencyTotal lib = create lib LatencyTotal
     \<lparr>in_kind = (Int64Histogram [0, 1, 2, 4, 8, 16, 32, 64, 128, 256, 512, 1024]), in_name = ''latency_total'',
      in_description = ''total latency'', in_unit = ''ms''\<rparr>"

definition setupMirrorSuccessCount :: "'e metrics_lib \<Rightarrow> metrics_state \<Rightarrow> ('e option \<times> metrics_state) go" where
  "setupMirrorSuccessCount lib = create lib MirrorSuccessCount
     \<lparr>in_kind = Int64Counter, in_name = ''mirror_success_count'',
      in_description = ''count of successfully mirrored requests'', in_unit = []\<rparr>"

definition setupMirrorFailureCount :: "'e metrics_lib \<Rightarrow> metrics_state \<Rightarrow> ('e option \<times> metrics_state) go" where
  "setupMirrorFailureCount lib = create lib MirrorFailureCount
     \<lparr>in_kind = Int64Counter, in_name = ''mirror_failure_count'',
      in_description = ''count of failures to mirror the request'', in_unit = []\<rparr>"

definition setupMirrorDropCount :: "'e metrics_lib \<Rightarrow> metrics_state \<Rightarrow> ('e option \<times> metrics_state) go" where
  "setupMirrorDropCount lib = create lib MirrorDropCount
     \<lparr>in_kind = Int64Counter, in_name = ''mirror_drop_count'',
      in_description = ''count of dropped mirror requests'', in_unit = []\<rparr>"

definition setupProxySuccessCount :: "'e metrics_lib \<Rightarrow> metrics_state \<Rightarrow> ('e option \<times> metrics_state) go" where
  "setupProxySuccessCount lib = create lib ProxySuccessCount
     \<lparr>in_kind = Int64Counter, in_name = ''proxy_success_count'',
      in_description = ''count of successfully proxied requests'', in_unit = []\<rparr>"

definition setupProxyFailureCount :: "'e metrics_lib \<Rightarrow> metrics_state \<Rightarrow> ('e option \<times> metrics_state) go" where
  "setupProxyFailureCount lib = create lib ProxyFailureCount
     \<lparr>in_kind = Int64Counter, in_name = ''proxy_failure_count'',
      in_description = ''count of failures to proxy the request'', in_unit = []\<rparr>"

definition setupProxyFakeCount :: "'e metrics_lib \<Rightarrow> metrics_state \<Rightarrow> ('e option \<times> metrics_state) go" where
  "setupProxyFakeCount lib = create lib ProxyFakeCount
     \<lparr>in_kind = Int64Counter, in_name = ''proxy_fake_count'',
      in_description = ''count of faked responses to the non-proxied requests'', in_unit = []\<rparr>"

definition setupRequestSize :: "'e metrics_lib \<Rightarrow> metrics_state \<Rightarrow> ('e option \<times> metrics_state) go" where
  "setupRequestSize lib = create lib RequestSize
     \<lparr>in_kind = (Int64Histogram [0, 1, 16, 256, 4096, 65536, 1048576, 16777216, 268435456, 68719476736]), in_name = ''request_size'',
      in_description = ''sizes of incoming requests'', in_unit = ''By''\<rparr>"

definition setupResponseSize :: "'e metrics_lib \<Rightarrow> metrics_state \<Rightarrow> ('e option \<times> metrics_state) go" where
  "setupResponseSize lib = create lib ResponseSize
     \<lparr>in_kind = (Int64Histogram [0, 1, 16, 256, 4096, 65536, 1048576, 16777216, 268435456, 68719476736]), in_name = ''response_size'',
      in_description = ''sizes of sent responses'', in_unit = ''By''\<rparr>"

definition setupTLSValidNotAfter :: "'e metrics_lib \<Rightarrow> metrics_state \<Rightarrow> ('e option \<times> metrics_state) go" where
  "setupTLSValidNotAfter lib = create lib TLSValidNotAfter
     \<lparr>in_kind = Int64ObservableGauge, in_name = ''tls_valid_not_after'',
      in_description = ''not-after timestamp of tls certificate'', in_unit = []\<rparr>"

definition setupTLSValidNotBefore :: "'e metrics_lib \<Rightarrow> metrics_state \<Rightarrow> ('e option \<times> metrics_state) go" where
  "setupTLSValidNotBefore lib = create lib TLSValidNotBefore
     \<lparr>in_kind = Int64ObservableGauge, in_name = ''tls_valid_not_before'',
      in_description = ''not-before timestamp of tls certificate'', in_unit = []\<rparr>"

fun run_setups :: "(metrics_state \<Rightarrow> ('e option \<times> metrics_state) go) list \<Rightarrow> metrics_state \<Rightarrow> ('e option \<times> metrics_state) go" where
  "run_setups [] st = Ret (None, st)"
| "run_setups (setup # setups) st =
     go_bind (setup st) (\<lambda>(err, st'). case err of Some e \<Rightarrow> Ret (Some e, st') | None \<Rightarrow> run_setups setups st')"

text \<open>A variable as an argument: nil until it is filled.\<close>

definition exported :: "metrics_state \<Rightarrow> instrument \<Rightarrow> instrument option" where
  "exported st i = (if i \<in> set (exports st) then Some i else None)"

definition register :: "'e metrics_lib \<Rightarrow> callback \<Rightarrow> instrument list \<Rightarrow> metrics_state \<Rightarrow> ('e option \<times> metrics_state) go" where
  "register lib f is st =
     (if \<not> meter st then Panic
      else let args = map (exported st) is
           in case RegisterCallback lib f args of
             Some e \<Rightarrow> Ret (Some e, st)
           | None \<Rightarrow> Ret (None, st\<lparr>callbacks := callbacks st @ [(f, args)]\<rparr>))"

definition registerCallback :: "'e metrics_lib \<Rightarrow> metrics_state \<Rightarrow> ('e option \<times> metrics_state) go" where
  \<comment> \<open>of \<open>LatencyAuthrpcJwt\<close>: reads the gauge of the candlestick\<close>
  "registerCallback lib st =
     (if exported st LatencyAuthrpcJwt = None then Panic else register lib CandlestickObserve [LatencyAuthrpcJwt] st)"

definition instrument_setups :: "'e metrics_lib \<Rightarrow> (metrics_state \<Rightarrow> ('e option \<times> metrics_state) go) list" where
  "instrument_setups lib =
     [setupFrontendConnectionsActiveCount lib,
      setupFrontendConnectionsClosedCount lib,
      setupFrontendConnectionsDrainingCount lib,
      setupFrontendConnectionsEstablishedCount lib,
      setupInfo lib,
      setupLateFCUCount lib,
      setupLatencyAuthrpcJwt lib,
      setupLatencyBackend lib,
      setupLatencyTotal lib,
      setupMirrorDropCount lib,
      setupMirrorFailureCount lib,
      setupMirrorSuccessCount lib,
      setupProxyFailureCount lib,
      setupProxyFakeCount lib,
      setupProxySuccessCount lib,
      setupRequestSize lib,
      setupResponseSize lib,
      setupTLSValidNotAfter lib,
      setupTLSValidNotBefore lib]"

definition Setup :: "'e metrics_lib \<Rightarrow> metrics_state \<Rightarrow> ('e option \<times> metrics_state) go" where
  "Setup lib = run_setups
     ([setupMeter lib] @ instrument_setups lib @
      [register lib ServerObserve
         [FrontendConnectionsActiveCount, FrontendConnectionsDrainingCount, TLSValidNotAfter, TLSValidNotBefore],
       registerCallback lib])"

section \<open>Every variable is filled, and every gauge has a callback\<close>

lemma exported_callbacks [simp]: "exported (st\<lparr>callbacks := c\<rparr>) = exported st"
  by (simp add: exported_def fun_eq_iff)

lemma run_setups_append:
  "run_setups (fs @ gs) st =
     go_bind (run_setups fs st) (\<lambda>(err, st'). case err of Some e \<Rightarrow> Ret (Some e, st') | None \<Rightarrow> run_setups gs st')"
proof (induction fs arbitrary: st)
  case (Cons f fs)
  show ?case by (cases "f st") (auto simp: Cons split: option.splits)
qed simp

lemmas setup_defs = setupFrontendConnectionsActiveCount_def setupFrontendConnectionsClosedCount_def
  setupFrontendConnectionsDrainingCount_def setupFrontendConnectionsEstablishedCount_def setupInfo_def
  setupLateFCUCount_def setupLatencyAuthrpcJwt_def setupLatencyBackend_def setupLatencyTotal_def
  setupMirrorSuccessCount_def setupMirrorFailureCount_def setupMirrorDropCount_def setupProxySuccessCount_def
  setupProxyFailureCount_def setupProxyFakeCount_def setupRequestSize_def setupResponseSize_def
  setupTLSValidNotAfter_def setupTLSValidNotBefore_def

text \<open>A run of creations fills a prefix of its variables, all of them if there is no error.\<close>

lemma run_creates:
  assumes "meter st"
  shows "\<exists>err n. run_setups (map (\<lambda>(i, s). create lib i s) table) st =
      Ret (err, st\<lparr>exports := exports st @ map fst (take n table)\<rparr>) \<and>
    (err = None \<longleftrightarrow> n = length table) \<and> (err = None \<longleftrightarrow> (\<forall>(i, s)\<in>set table. NewInstrument lib s = None)) \<and> n \<le> length table"
  using assms
proof (induction table arbitrary: st)
  case Nil
  then show ?case by simp
next
  case (Cons e table)
  obtain i s where e: "e = (i, s)" by fastforce
  show ?case
  proof (cases "NewInstrument lib s")
    case None
    let ?st = "st\<lparr>exports := exports st @ [i]\<rparr>"
    have "meter ?st" using Cons.prems by simp
    from Cons.IH [OF this] obtain err n where "run_setups (map (\<lambda>(i, s). create lib i s) table) ?st =
        Ret (err, ?st\<lparr>exports := exports ?st @ map fst (take n table)\<rparr>)"
      and "err = None \<longleftrightarrow> n = length table" "err = None \<longleftrightarrow> (\<forall>(i, s)\<in>set table. NewInstrument lib s = None)"
        "n \<le> length table"
      by blast
    moreover have "create lib i s st = Ret (None, ?st)" using None Cons.prems by (simp add: create_def)
    ultimately show ?thesis using None e by (intro exI [of _ err] exI [of _ "Suc n"]) simp
  next
    case (Some err)
    with e Cons.prems show ?thesis by (intro exI [of _ "Some err"] exI [of _ 0]) (simp add: create_def)
  qed
qed

definition setup_order :: "instrument list" where
  "setup_order =
     [FrontendConnectionsActiveCount, FrontendConnectionsClosedCount, FrontendConnectionsDrainingCount,
      FrontendConnectionsEstablishedCount, Info, LateFCUCount, LatencyAuthrpcJwt, LatencyBackend, LatencyTotal,
      MirrorDropCount, MirrorFailureCount, MirrorSuccessCount, ProxyFailureCount, ProxyFakeCount, ProxySuccessCount,
      RequestSize, ResponseSize, TLSValidNotAfter, TLSValidNotBefore]"

lemma setup_order_all: "set setup_order = UNIV" "distinct setup_order"
proof -
  have "i \<in> set setup_order" for i by (cases i) (simp_all add: setup_order_def)
  then show "set setup_order = UNIV" by blast
qed (simp add: setup_order_def)

lemma create_table:
  "xs = map (\<lambda>(i, s). create lib i s) table \<Longrightarrow>
   create lib i s # xs = map (\<lambda>(i, s). create lib i s) ((i, s) # table)"
  by simp

abbreviation observed_gauges :: "instrument list" where
  "observed_gauges \<equiv>
     [FrontendConnectionsActiveCount, FrontendConnectionsDrainingCount, TLSValidNotAfter, TLSValidNotBefore]"

text \<open>The instruments and their descriptions, read off the functions.\<close>

lemma instrument_setups_table:
  "\<exists>table. (\<forall>lib. instrument_setups lib = map (\<lambda>(i, s). create lib i s) table) \<and> map fst table = setup_order \<and>
     distinct (map (in_name \<circ> snd) table) \<and>
     (\<forall>(i, s)\<in>set table. in_kind s = Int64ObservableGauge \<longleftrightarrow> i \<in> set (observed_gauges @ [LatencyAuthrpcJwt]))"
  unfolding instrument_setups_def setup_defs
  apply (rule exI, rule conjI, rule allI)
   apply (rule create_table)+
   apply (rule list.map(1) [symmetric])
  apply (simp add: setup_order_def)
  done

lemma Setup_run:
  assumes "instrument_setups lib = map (\<lambda>(i, s). create lib i s) table" "map fst table = setup_order"
  shows "\<exists>err st. Setup lib no_metrics = Ret (err, st) \<and>
    (err = None \<longleftrightarrow> ResourceNew lib = None \<and> PrometheusNew lib ''bproxy'' = None \<and>
       (\<forall>(i, s)\<in>set table. NewInstrument lib s = None) \<and>
       RegisterCallback lib ServerObserve (map Some observed_gauges) = None \<and>
       RegisterCallback lib CandlestickObserve [Some LatencyAuthrpcJwt] = None) \<and>
    (err = None \<longrightarrow> exports st = setup_order \<and>
       callbacks st = [(ServerObserve, map Some observed_gauges), (CandlestickObserve, [Some LatencyAuthrpcJwt])])"
proof (cases "ResourceNew lib = None \<and> PrometheusNew lib ''bproxy'' = None")
  case True
  let ?st = "no_metrics\<lparr>meter := True\<rparr>"
  have m: "setupMeter lib no_metrics = Ret (None, ?st)"
    using True by (simp add: setupMeter_def metricsNamespace_def)
  have "meter ?st" by simp
  from run_creates [OF this, of lib table, folded assms(1)]
  obtain err n where r: "run_setups (instrument_setups lib) ?st = Ret (err, ?st\<lparr>exports := exports ?st @ map fst (take n table)\<rparr>)"
      "err = None \<longleftrightarrow> n = length table" "err = None \<longleftrightarrow> (\<forall>(i, s)\<in>set table. NewInstrument lib s = None)"
    by blast
  let ?callbacks = "[register lib ServerObserve observed_gauges, registerCallback lib]"
  have two: "Setup lib no_metrics = go_bind (run_setups (instrument_setups lib) ?st)
      (\<lambda>(err, st'). case err of Some e \<Rightarrow> Ret (Some e, st') | None \<Rightarrow> run_setups ?callbacks st')"
    by (simp add: Setup_def m run_setups_append)
  show ?thesis
  proof (cases err)
    case None
    let ?ex = "?st\<lparr>exports := setup_order\<rparr>"
    have ex: "run_setups (instrument_setups lib) ?st = Ret (None, ?ex)"
      using None r assms(2) by (simp add: no_metrics_def)
    have nil: "exported ?ex = Some"
      by (simp add: exported_def fun_eq_iff setup_order_all)
    have "callbacks ?ex = []" by (simp add: no_metrics_def)
    then show ?thesis
      using True None r(3) unfolding two ex
      by (simp add: register_def registerCallback_def nil Let_def split: option.splits)
  next
    case (Some e)
    then show ?thesis using r by (simp add: two)
  qed
qed (auto simp: Setup_def setupMeter_def metricsNamespace_def split: option.splits)

lemma Setup_no_panic: "\<exists>err st. Setup lib no_metrics = Ret (err, st)"
  using instrument_setups_table Setup_run by blast

text \<open>
  C40: There is one description for each instrument, all of different names, such that \<open>Setup\<close> never
  panics on a nil variable and succeeds exactly if the meter, every instrument and both callbacks
  are accepted by the library; then every variable of the package is filled, once, and the
  instruments that are only shown when observed are exactly those with a callback.
\<close>

theorem Setup_complete:
  "\<exists>spec :: instrument \<Rightarrow> instrument_spec. inj (\<lambda>i. in_name (spec i)) \<and> (\<forall>i. in_kind (spec i) = Int64ObservableGauge \<longleftrightarrow> i \<in> set (observed_gauges @ [LatencyAuthrpcJwt])) \<and>
     (\<forall>lib :: 'e metrics_lib. \<exists>err st. Setup lib no_metrics = Ret (err, st) \<and>
        (err = None \<longleftrightarrow> ResourceNew lib = None \<and> PrometheusNew lib ''bproxy'' = None \<and>
           (\<forall>i. NewInstrument lib (spec i) = None) \<and>
           RegisterCallback lib ServerObserve (map Some observed_gauges) = None \<and>
           RegisterCallback lib CandlestickObserve [Some LatencyAuthrpcJwt] = None) \<and>
        (err = None \<longrightarrow> set (exports st) = UNIV \<and> distinct (exports st) \<and>
           callbacks st = [(ServerObserve, map Some observed_gauges),
                           (CandlestickObserve, [Some LatencyAuthrpcJwt])]))"
proof -
  obtain table where t: "\<And>lib :: 'e metrics_lib. instrument_setups lib = map (\<lambda>(i, s). create lib i s) table"
      "map fst table = setup_order" "distinct (map (in_name \<circ> snd) table)"
      "\<forall>(i, s)\<in>set table. in_kind s = Int64ObservableGauge \<longleftrightarrow> i \<in> set (observed_gauges @ [LatencyAuthrpcJwt])"
    using instrument_setups_table by blast
  define spec where "spec i = the (map_of table i)" for i
  have "distinct (map fst table)" "fst ` set table = UNIV"
    using t(2) setup_order_all by (metis, metis set_map)
  then have mem: "(i, s) \<in> set table \<longleftrightarrow> s = spec i" for i s
    unfolding spec_def by (metis UNIV_I dom_map_of_conv_image_fst domD map_of_is_SomeI map_of_SomeD option.sel)
  have "inj (\<lambda>i. in_name (spec i))"
  proof (rule injI)
    fix i j assume "in_name (spec i) = in_name (spec j)"
    moreover have "inj_on (in_name \<circ> snd) (set table)" using t(3) by (simp add: distinct_map)
    ultimately have "(i, spec i) = (j, spec j)" by (metis comp_apply inj_onD mem snd_conv)
    then show "i = j" by simp
  qed
  moreover have "\<forall>i. in_kind (spec i) = Int64ObservableGauge \<longleftrightarrow> i \<in> set (observed_gauges @ [LatencyAuthrpcJwt])"
    using t(4) mem by blast
  moreover have "(\<forall>(i, s)\<in>set table. NewInstrument lib s = None) \<longleftrightarrow> (\<forall>i. NewInstrument lib (spec i) = None)" for lib :: "'e metrics_lib"
    unfolding Ball_def split_paired_All mem by simp
  moreover have "\<exists>err st. Setup lib no_metrics = Ret (err, st) \<and>
      (err = None \<longleftrightarrow> ResourceNew lib = None \<and> PrometheusNew lib ''bproxy'' = None \<and>
         (\<forall>i. NewInstrument lib (spec i) = None) \<and>
         RegisterCallback lib ServerObserve (map Some observed_gauges) = None \<and>
         RegisterCallback lib CandlestickObserve [Some LatencyAuthrpcJwt] = None) \<and>
      (err = None \<longrightarrow> set (exports st) = UNIV \<and> distinct (exports st) \<and>
         callbacks st = [(ServerObserve, map Some observed_gauges),
                         (CandlestickObserve, [Some LatencyAuthrpcJwt])])" for lib :: "'e metrics_lib"
  proof -
    from Setup_run [OF t(1,2), of lib] calculation(3) [of lib] setup_order_all
    show ?thesis by (elim exE conjE, intro exI conjI) (assumption | simp)+
  qed
  ultimately show ?thesis by blast
qed

definition demo_metrics_lib :: "string metrics_lib" where
  "demo_metrics_lib = \<lparr>ResourceNew = None, PrometheusNew = (\<lambda>_. None), NewInstrument = (\<lambda>_. None),
     RegisterCallback = (\<lambda>_ _. None)\<rparr>"

lemma demo_Setup: "\<exists>st. Setup demo_metrics_lib no_metrics = Ret (None, st)"
proof -
  obtain table where "instrument_setups demo_metrics_lib = map (\<lambda>(i, s). create demo_metrics_lib i s) table"
      "map fst table = setup_order"
    using instrument_setups_table by blast
  from Setup_run [OF this] show ?thesis by (auto simp: demo_metrics_lib_def)
qed

theorem Setup_complete_witness:
  "\<exists>st. Setup demo_metrics_lib no_metrics = Ret (None, st) \<and> set (exports st) = UNIV"
  using Setup_complete [where 'e = string]
  apply (elim exE conjE)
  apply (drule spec [of _ demo_metrics_lib])
  apply (elim exE conjE)
  apply (simp add: demo_metrics_lib_def)
  done

end
