(* ===== verification/Program.thy ===== *)
theory Program
  imports Server Flags Metrics
begin

text \<open>
  The program as a whole: the logger (\<open>logutils/setup.go\<close>), what \<open>Run\<close> of the server and of the
  proxies starts (\<open>server/server.go\<close>, \<open>proxy/http.go\<close>, \<open>proxy/websocket.go\<close> and the wrappers), and
  the way from the command line to the exit status (\<open>cmd/main.go\<close>, \<open>cmd/serve.go\<close>). What zap,
  OpenTelemetry and the operating system answer is an input, and so is the value with which the
  loop of theory \<open>Server\<close> finishes.
\<close>

section \<open>The logger\<close>

text \<open>Both configurations are without sampling and print ISO 8601 times.\<close>

record zap_config =
  zc_development :: bool
  zc_encode_caller :: bool
  zc_level :: string

datatype 'e log_error = errLoggerInvalidMode string | errLoggerInvalidLevel string 'e | errLoggerFailedToBuild 'e

definition NewLogger :: "'e host_env \<Rightarrow> (zap_config \<Rightarrow> 'e option) \<Rightarrow> Log_config \<Rightarrow> 'e log_error + zap_config" where
  "NewLogger env build c =
     (let mode = ToLower (Mode c)
      in if mode \<noteq> ''dev'' \<and> mode \<noteq> ''prod'' then Inl (errLoggerInvalidMode (Mode c))
         else case ParseAtomicLevel env (Level c) of
           Some e \<Rightarrow> Inl (errLoggerInvalidLevel (Level c) e)
         | None \<Rightarrow>
             let z = \<lparr>zc_development = (mode = ''dev''), zc_encode_caller = (mode = ''prod''), zc_level = Level c\<rparr>
             in case build z of Some e \<Rightarrow> Inl (errLoggerFailedToBuild e) | None \<Rightarrow> Inr z)"

section \<open>What is started\<close>

datatype goroutine =
    ServeMetrics string
  | PruneSeenHeads
  | ServeProxy string string bool
  | ProxyLoop string bool
  | MirrorLoop string string bool
  | HealthcheckLoop string

text \<open>The healthcheck is run where its URL is configured; on a nil one its goroutine panics.\<close>

definition run_healthcheck :: "string \<Rightarrow> string \<Rightarrow> healthcheck option \<Rightarrow> goroutine list go" where
  "run_healthcheck name url h =
     (if url \<noteq> [] then (case h of None \<Rightarrow> Panic | Some _ \<Rightarrow> Ret [HealthcheckLoop name]) else Ret [])"

definition HTTP_Run :: "goroutine list \<Rightarrow> 'u HTTP option \<Rightarrow> goroutine list go" where
  "HTTP_Run run_hook proxy =
     (case proxy of
        None \<Rightarrow> Ret []
      | Some p \<Rightarrow>
          let name = cfg_name (cfg p); prio = UsePriorityQueue (cfg p)
          in go_map (\<lambda>hc. run_hook @
               [ServeProxy name (ListenAddress (cfg p)) (TLSCertificate (cfg p) \<noteq> [] \<and> TLSKey (cfg p) \<noteq> []),
                ProxyLoop name prio] @
               map (\<lambda>(host, uri). MirrorLoop name host prio) (peerURIs p) @ hc)
             (run_healthcheck name (URL (HealthcheckCfg (cfg p))) (hcheck p)))"

definition Websocket_Run :: "Websocket option \<Rightarrow> goroutine list go" where
  "Websocket_Run proxy =
     (case proxy of
        None \<Rightarrow> Ret []
      | Some p \<Rightarrow>
          let name = ws_name (ws_cfg p)
          in go_map (\<lambda>hc.
               [ServeProxy name (WsListenAddress (ws_cfg p)) (WsTLSCertificate (ws_cfg p) \<noteq> [] \<and> WsTLSKey (ws_cfg p) \<noteq> [])] @ hc)
             (run_healthcheck name (URL (WsHealthcheckCfg (ws_cfg p))) (ws_healthcheck p)))"

definition Authrpc_Run :: "('u HTTP \<times> Authrpc) option \<Rightarrow> goroutine list go" where
  "Authrpc_Run proxy = (case proxy of None \<Rightarrow> Ret [] | Some (p, _) \<Rightarrow> HTTP_Run [PruneSeenHeads] (Some p))"

definition Rpc_Run :: "'u HTTP option \<Rightarrow> goroutine list go" where
  "Rpc_Run proxy = (case proxy of None \<Rightarrow> Ret [] | Some p \<Rightarrow> HTTP_Run [] (Some p))"

definition Flashblocks_Run :: "Websocket option \<Rightarrow> goroutine list go" where
  "Flashblocks_Run proxy = (case proxy of None \<Rightarrow> Ret [] | Some p \<Rightarrow> Websocket_Run (Some p))"

text \<open>\<open>Server.Run\<close> until its loop: an error of the metrics ends it.\<close>

definition Server_start :: "'e metrics_lib \<Rightarrow> Config \<Rightarrow> 'u server_parts \<Rightarrow> ('e + goroutine list) go" where
  "Server_start lib c s =
     go_bind (Setup lib no_metrics) (\<lambda>(err, st).
       case err of
         Some e \<Rightarrow> Ret (Inl e)
       | None \<Rightarrow>
           go_bind (Authrpc_Run (authrpc s)) (\<lambda>a.
           go_bind (Flashblocks_Run (flashblocks s)) (\<lambda>f.
           go_map (\<lambda>r. Inr (ServeMetrics (MetricsListenAddress c) # a @ f @ r)) (Rpc_Run (rpc s)))))"

section \<open>From the command line to the exit status\<close>

datatype 'e main_error =
    LoggerError "'e log_error"
  | ConfigError "'e goerr"
  | NewError
  | RunError "'e flat"

datatype 'e exit = ExitSuccess | ExitFailure "'e main_error" | Crash

definition program :: "'e host_env \<Rightarrow> (zap_config \<Rightarrow> 'e option) \<Rightarrow> (string \<Rightarrow> string \<Rightarrow> bool) \<Rightarrow>
    (string \<Rightarrow> (string \<times> 'u) option) \<Rightarrow> 'e metrics_lib \<Rightarrow> Config \<Rightarrow> 'e flat \<Rightarrow> 'e exit" where
  "program env build tls_loads parse lib c finished =
     (case NewLogger env build (cfgLog c) of
        Inl e \<Rightarrow> ExitFailure (LoggerError e)
      | Inr logger \<Rightarrow>
          (case serve_before env c of
             Panic \<Rightarrow> Crash
           | Ret (Some e, c') \<Rightarrow> ExitFailure (ConfigError e)
           | Ret (None, c') \<Rightarrow>
               (case Server_New tls_loads parse c' of
                  Panic \<Rightarrow> Crash
                | Ret None \<Rightarrow> ExitFailure NewError
                | Ret (Some s) \<Rightarrow>
                    (case Server_start lib c' s of
                       Panic \<Rightarrow> Crash
                     | Ret (Inl e) \<Rightarrow> ExitFailure (RunError (OneError e))
                     | Ret (Inr goroutines) \<Rightarrow>
                         if finished = NoError then ExitSuccess else ExitFailure (RunError finished)))))"

section \<open>Starting what was built\<close>

lemma newHTTP_healthcheck:
  "newHTTP ok parse c = Ret (Some p) \<Longrightarrow> URL (HealthcheckCfg (cfg p)) \<noteq> [] \<Longrightarrow> hcheck p \<noteq> None"
  by (auto simp: newHTTP_def go_bind_Ret_iff split: if_splits option.splits)

lemma newWebsocket_SomeD:
  assumes "newWebsocket ok uri c = Ret (Some p)"
  shows "ws_cfg p = c \<and> (URL (WsHealthcheckCfg c) \<noteq> [] \<longrightarrow> ws_healthcheck p \<noteq> None)"
proof -
  have ite: "(if b then Ret None else x) = Ret (Some p) \<longleftrightarrow> \<not> b \<and> x = Ret (Some p)" for b and x :: "Websocket option go"
    by simp
  have built: "go_map (case_option None (\<lambda>x. Some (f x))) m = Ret (Some p) \<longleftrightarrow> (\<exists>x. m = Ret (Some x) \<and> p = f x)"
    for f :: "healthcheck \<Rightarrow> Websocket" and m
    by (cases m) (auto split: option.splits)
  show ?thesis
  proof (cases "URL (WsHealthcheckCfg c) = []")
    case True
    then show ?thesis using assms unfolding newWebsocket_def Let_def ite by force
  next
    case False
    then show ?thesis using assms unfolding newWebsocket_def Let_def ite by (auto simp: built)
  qed
qed

lemma Server_New_steps:
  assumes "Server_New tls parse c = Ret (Some s)"
  shows "(if ProxyEnabled (AuthrpcProxy (cfgAuthrpc c))
      then \<exists>ok p. NewAuthrpc_proxy ok parse (cfgAuthrpc c) = Ret (Some p) \<and> authrpc s = Some p else authrpc s = None) \<and>
    (if WsProxyEnabled (cfgFlashblocks c)
      then \<exists>ok uri p. NewFlashblocks ok uri (cfgFlashblocks c) = Ret (Some p) \<and> flashblocks s = Some p else flashblocks s = None) \<and>
    (if ProxyEnabled (cfgRpc c)
      then \<exists>ok p. NewRpc ok parse (cfgRpc c) = Ret (Some p) \<and> rpc s = Some p else rpc s = None)"
proof -
  have enabled: "(if b then go_map (map_option Some) m else Ret (Some None)) = Ret (Some x) \<longleftrightarrow>
      (if b then \<exists>y. m = Ret (Some y) \<and> x = Some y else x = None)" for b and m :: "'z option go" and x
    by (cases m) auto
  obtain a f r where "s = \<lparr>authrpc = a, flashblocks = f, rpc = r\<rparr>" by (cases s) auto
  with assms show ?thesis
    unfolding Server_New_def Let_def
    by (auto simp: go_bind_Ret_iff enabled split: option.split_asm if_split_asm)
qed

lemma Server_New_parts:
  assumes "Server_New tls parse c = Ret (Some s)"
  shows "rpc s = Some p \<Longrightarrow> \<exists>ok. newHTTP ok parse (HttpProxy.extend (cfgRpc c) (httpConfig.fields ''bproxy-rpc'')) = Ret (Some p)"
    and "authrpc s = Some (p, ap) \<Longrightarrow>
      \<exists>ok. newHTTP ok parse (HttpProxy.extend (AuthrpcProxy (cfgAuthrpc c)) (httpConfig.fields ''bproxy-authrpc'')) = Ret (Some p)"
    and "flashblocks s = Some w \<Longrightarrow>
      \<exists>ok uri. newWebsocket ok uri (WebsocketProxy.extend (cfgFlashblocks c) (websocketConfig.fields ''bproxy-flashblocks'')) = Ret (Some w)"
proof -
  note steps = Server_New_steps [OF assms]
  show "rpc s = Some p \<Longrightarrow> \<exists>ok. newHTTP ok parse (HttpProxy.extend (cfgRpc c) (httpConfig.fields ''bproxy-rpc'')) = Ret (Some p)"
    using steps by (auto simp: NewRpc_def new_http_def split: if_split_asm)
  show "authrpc s = Some (p, ap) \<Longrightarrow>
      \<exists>ok. newHTTP ok parse (HttpProxy.extend (AuthrpcProxy (cfgAuthrpc c)) (httpConfig.fields ''bproxy-authrpc'')) = Ret (Some p)"
    using conjunct1 [OF steps]
    by (auto simp: NewAuthrpc_proxy_def new_http_def go_map_Ret_iff eq_commute [of "Some _" "map_option _ _"] split: if_split_asm)
  show "flashblocks s = Some w \<Longrightarrow>
      \<exists>ok uri. newWebsocket ok uri (WebsocketProxy.extend (cfgFlashblocks c) (websocketConfig.fields ''bproxy-flashblocks'')) = Ret (Some w)"
    using steps by (auto simp: NewFlashblocks_def split: if_split_asm)
qed

lemma HTTP_Run_starts:
  assumes "newHTTP ok parse (HttpProxy.extend c (httpConfig.fields name)) = Ret (Some p)"
  shows "\<exists>hc. HTTP_Run hook (Some p) = Ret (hook @
      [ServeProxy name (ListenAddress c) (TLSCertificate c \<noteq> [] \<and> TLSKey c \<noteq> []), ProxyLoop name (UsePriorityQueue c)] @
      map (\<lambda>(host, uri). MirrorLoop name host (UsePriorityQueue c)) (peerURIs p) @ hc) \<and>
    hc = (if URL (HealthcheckCfg c) \<noteq> [] then [HealthcheckLoop name] else [])"
proof -
  have "cfg p = HttpProxy.extend c (httpConfig.fields name)" using newHTTP_SomeD [OF assms] by blast
  moreover from this newHTTP_healthcheck [OF assms] have "URL (HealthcheckCfg c) \<noteq> [] \<Longrightarrow> hcheck p \<noteq> None"
    by (simp add: HttpProxy.extend_def)
  ultimately show ?thesis
    by (auto simp: HTTP_Run_def run_healthcheck_def Let_def HttpProxy.extend_def httpConfig.fields_def)
qed

lemma Websocket_Run_starts:
  assumes "newWebsocket ok uri (WebsocketProxy.extend c (websocketConfig.fields name)) = Ret (Some p)"
  shows "\<exists>hc. Websocket_Run (Some p) = Ret (ServeProxy name (WsListenAddress c) (WsTLSCertificate c \<noteq> [] \<and> WsTLSKey c \<noteq> []) # hc) \<and>
    hc = (if URL (WsHealthcheckCfg c) \<noteq> [] then [HealthcheckLoop name] else [])"
  using newWebsocket_SomeD [OF assms]
  by (auto simp: Websocket_Run_def run_healthcheck_def Let_def WebsocketProxy.extend_def websocketConfig.fields_def)


text \<open>The loops over the queues of an HTTP proxy: one for its own, one for each peer's.\<close>

definition http_loops :: "HttpProxy \<Rightarrow> string \<Rightarrow> 'u HTTP \<Rightarrow> goroutine list" where
  "http_loops c name p = ProxyLoop name (UsePriorityQueue c) #
     map (\<lambda>(host, uri). MirrorLoop name host (UsePriorityQueue c)) (peerURIs p)"

definition is_loop :: "goroutine \<Rightarrow> bool" where
  "is_loop g \<longleftrightarrow> (case g of ProxyLoop n u \<Rightarrow> True | MirrorLoop n h u \<Rightarrow> True | _ \<Rightarrow> False)"

lemma filter_loops: "filter is_loop (map (\<lambda>(host, uri). MirrorLoop n host u) ps) = map (\<lambda>(host, uri). MirrorLoop n host u) ps"
  by (induction ps) (auto simp: is_loop_def)

lemma Run_loops:
  assumes "Server_New tls parse c = Ret (Some s)"
  shows "\<exists>a f r. Authrpc_Run (authrpc s) = Ret a \<and> Flashblocks_Run (flashblocks s) = Ret f \<and> Rpc_Run (rpc s) = Ret r \<and>
    filter is_loop a = (case authrpc s of None \<Rightarrow> [] | Some (p, _) \<Rightarrow> http_loops (AuthrpcProxy (cfgAuthrpc c)) ''bproxy-authrpc'' p) \<and>
    filter is_loop f = [] \<and>
    filter is_loop r = (case rpc s of None \<Rightarrow> [] | Some p \<Rightarrow> http_loops (cfgRpc c) ''bproxy-rpc'' p)"
proof -
  note parts = Server_New_parts [OF assms]
  have "\<exists>a. Authrpc_Run (authrpc s) = Ret a \<and>
      filter is_loop a = (case authrpc s of None \<Rightarrow> [] | Some (p, _) \<Rightarrow> http_loops (AuthrpcProxy (cfgAuthrpc c)) ''bproxy-authrpc'' p)"
  proof (cases "authrpc s")
    case (Some x)
    then obtain p ap where "authrpc s = Some (p, ap)" by (cases x) auto
    with parts(2) [OF this] HTTP_Run_starts [where hook = "[PruneSeenHeads]"] show ?thesis
      by (fastforce simp: Authrpc_Run_def http_loops_def filter_loops is_loop_def)
  qed (simp add: Authrpc_Run_def)
  moreover have "\<exists>f. Flashblocks_Run (flashblocks s) = Ret f \<and> filter is_loop f = []"
  proof (cases "flashblocks s")
    case (Some w)
    with parts(3) [OF this] Websocket_Run_starts show ?thesis
      by (fastforce simp: Flashblocks_Run_def is_loop_def)
  qed (simp add: Flashblocks_Run_def)
  moreover have "\<exists>r. Rpc_Run (rpc s) = Ret r \<and>
      filter is_loop r = (case rpc s of None \<Rightarrow> [] | Some p \<Rightarrow> http_loops (cfgRpc c) ''bproxy-rpc'' p)"
  proof (cases "rpc s")
    case (Some p)
    with parts(1) [OF this] HTTP_Run_starts [where hook = "[]"] show ?thesis
      by (fastforce simp: Rpc_Run_def http_loops_def filter_loops is_loop_def)
  qed (simp add: Rpc_Run_def)
  ultimately show ?thesis by blast
qed

section \<open>From an accepted configuration\<close>

lemma newWebsocket_no_panic: "0 < Interval (WsHealthcheckCfg c) \<Longrightarrow> newWebsocket tls uri_ok c \<noteq> Panic"
  by (auto simp: newWebsocket_def newHealthcheck_def Let_def)

lemma injected_sleep_ok:
  assumes "chaos_ok ch"
  shows "\<exists>s. injected_sleep (settled ch) draw elapsed = Ret s \<and> 0 \<le> s \<and> (0 \<le> elapsed \<longrightarrow> s \<le> Minute)"
proof -
  let ?n = "MaxInjectedLatency (settled ch) + 1"
  have n: "0 < ?n" "?n \<le> Minute + 1" using assms by (auto simp: chaos_ok_def settled_def)
  moreover have "draw mod ?n < ?n" using n(1) by (rule pos_mod_bound)
  moreover have "MinInjectedLatency (settled ch) \<le> Minute" using assms by (auto simp: chaos_ok_def settled_def)
  ultimately show ?thesis by (auto simp: injected_sleep_def Let_def)
qed

lemma ws_injected_sleep_ok:
  assumes "ws_chaos_ok (WsChaos p)"
  shows "\<exists>s. ws_injected_sleep (WsChaos (snd (validate_ws_field env p))) draw elapsed = Ret s \<and> 0 \<le> s \<and>
    (0 \<le> elapsed \<longrightarrow> s \<le> Minute)"
proof -
  define ch where "ch = WsChaos (snd (validate_ws_field env p))"
  have ch: "0 \<le> WsMaxInjectedLatency ch" "WsMaxInjectedLatency ch \<le> Minute" "WsMinInjectedLatency ch \<le> Minute"
    using assms by (auto simp: ch_def validate_ws_field_def ChaosWebsocket_Validate_def ws_chaos_ok_def Let_def)
  have "draw mod (WsMaxInjectedLatency ch + 1) < WsMaxInjectedLatency ch + 1" using ch by (intro pos_mod_bound) simp
  with ch show ?thesis unfolding ch_def [symmetric] by (auto simp: ws_injected_sleep_def Let_def)
qed

lemma accepted_New:
  assumes "Config_Validate env c = Ret (None, c')"
  shows "Server_New tls parse c' \<noteq> Panic"
proof -
  note acc = accepted_config [OF assms]
  have i: "0 < Interval (HealthcheckCfg (AuthrpcProxy (cfgAuthrpc c')))" "0 < Interval (HealthcheckCfg (cfgRpc c'))"
      "0 < Interval (WsHealthcheckCfg (cfgFlashblocks c'))"
    using acc by (auto simp: http_ok_def ws_ok_def healthcheck_ok_def normal_def validate_ws_field_def Let_def split: prod.splits)
  have "new_http a parse n (AuthrpcProxy (cfgAuthrpc c')) \<noteq> Panic" "new_http a parse n (cfgRpc c') \<noteq> Panic"
      "newWebsocket a u (WebsocketProxy.extend (cfgFlashblocks c') w) \<noteq> Panic" for a n u w
    unfolding new_http_def by (intro newHTTP_no_panic newWebsocket_no_panic,
        simp add: HttpProxy.extend_def WebsocketProxy.extend_def i)+
  then show ?thesis
    by (auto simp: Server_New_def Let_def go_bind_Panic_iff go_map_Panic_iff NewAuthrpc_proxy_def NewRpc_def
        NewFlashblocks_def split: if_splits option.splits)
qed

lemma Server_start_total:
  assumes "Server_New tls parse c = Ret (Some s)"
  shows "Server_start lib c s \<noteq> Panic \<and>
    ((\<exists>gs. Server_start lib c s = Ret (Inr gs)) \<longleftrightarrow> (\<exists>st. Setup lib no_metrics = Ret (None, st)))"
proof -
  obtain err st where "Setup lib no_metrics = Ret (err, st)" using Setup_no_panic by blast
  with Run_loops [OF assms] show ?thesis by (cases err) (auto simp: Server_start_def)
qed

lemma ToLower_modes: "ToLower ''dev'' = ''dev''" "ToLower ''prod'' = ''prod''"
  by code_simp+

lemma accepted_logger:
  assumes "Config_Validate env c = Ret (None, c')" "\<forall>z. build z = None"
  shows "\<exists>z. NewLogger env build (cfgLog c) = Inr z"
proof -
  have "log_ok env (cfgLog c)" using assms(1) Config_Validate_iff [of env c] by blast
  then have "Mode (cfgLog c) = ''dev'' \<or> Mode (cfgLog c) = ''prod''" "ParseAtomicLevel env (Level (cfgLog c)) = None"
    by (simp_all add: log_ok_def)
  then show ?thesis using assms(2) by (elim disjE) (simp_all add: NewLogger_def Let_def ToLower_modes del: ToLower.simps)
qed

text \<open>
  C9: When the logger can be built, the program ends successfully exactly if its configuration is
  accepted, the server can be constructed from what validation made of it, the metrics are set
  up, and the loop of the server ends without a failure. With an accepted configuration, nothing
  until the loop panics, and the logger is not what fails.
\<close>

theorem program_succeeds:
  assumes "\<forall>z. build z = None"
  shows "(program env build tls parse lib c finished = ExitSuccess \<longleftrightarrow>
      (\<exists>c' s st. Config_Validate env c = Ret (None, c') \<and> Server_New tls parse c' = Ret (Some s) \<and>
         Setup lib no_metrics = Ret (None, st) \<and> finished = NoError)) \<and>
    (\<forall>c'. Config_Validate env c = Ret (None, c') \<longrightarrow>
       program env build tls parse lib c finished \<in> {ExitSuccess, ExitFailure NewError} \<union> range (\<lambda>e. ExitFailure (RunError e)))"
proof (cases "\<exists>c'. Config_Validate env c = Ret (None, c')")
  case True
  then obtain c' where c': "Config_Validate env c = Ret (None, c')" by blast
  obtain z where z: "NewLogger env build (cfgLog c) = Inr z" using accepted_logger [OF c' assms] by blast
  from accepted_New [OF c'] obtain r where r: "Server_New tls parse c' = Ret r" by (cases "Server_New tls parse c'") auto
  show ?thesis
  proof (cases r)
    case None
    with r c' z show ?thesis by (simp add: program_def serve_before_def)
  next
    case (Some s)
    from Server_start_total [of tls parse c' s lib] r Some
    obtain x where x: "Server_start lib c' s = Ret x" "(\<exists>gs. x = Inr gs) \<longleftrightarrow> (\<exists>st. Setup lib no_metrics = Ret (None, st))"
      by (cases "Server_start lib c' s") auto
    with Some r c' z show ?thesis by (cases x) (auto simp: program_def serve_before_def)
  qed
next
  case False
  then show ?thesis
    by (auto simp: program_def serve_before_def split: sum.splits go.splits option.splits prod.splits)
qed

lemma distinct_mirror_loops: "distinct (map fst ps) \<Longrightarrow> distinct (map (\<lambda>(host, uri). MirrorLoop n host u) ps)"
  by (induction ps) (auto, force)

lemma distinct_http_loops: "distinct (map fst (peerURIs p)) \<Longrightarrow> distinct (http_loops c n p)"
  by (auto simp: http_loops_def distinct_mirror_loops)

lemma http_loops_disjoint:
  "g \<in> set (http_loops c ''bproxy-authrpc'' p) \<Longrightarrow> g \<notin> set (http_loops c' ''bproxy-rpc'' p')"
  by (auto simp: http_loops_def)

text \<open>
  C29: Once the server has started, every job queue has exactly one goroutine that takes from it:
  for each enabled HTTP proxy one for its own pair of queues and one for the pair of each peer,
  with the priority configured, and there is no other.
\<close>

theorem one_loop_per_queue:
  assumes "Server_New tls parse c = Ret (Some s)" "Server_start lib c s = Ret (Inr gs)"
  shows "filter is_loop gs =
      (case authrpc s of None \<Rightarrow> [] | Some (p, _) \<Rightarrow> http_loops (AuthrpcProxy (cfgAuthrpc c)) ''bproxy-authrpc'' p) @
      (case rpc s of None \<Rightarrow> [] | Some p \<Rightarrow> http_loops (cfgRpc c) ''bproxy-rpc'' p) \<and>
    distinct (filter is_loop gs)"
proof -
  have loops: "filter is_loop gs =
      (case authrpc s of None \<Rightarrow> [] | Some (p, _) \<Rightarrow> http_loops (AuthrpcProxy (cfgAuthrpc c)) ''bproxy-authrpc'' p) @
      (case rpc s of None \<Rightarrow> [] | Some p \<Rightarrow> http_loops (cfgRpc c) ''bproxy-rpc'' p)"
    using Run_loops [OF assms(1)] assms(2)
    by (auto simp: Server_start_def go_bind_Ret_iff go_map_Ret_iff is_loop_def split: option.splits)
  have rpc: "distinct (http_loops (cfgRpc c) ''bproxy-rpc'' p)" if "rpc s = Some p" for p
    using Server_New_parts(1) [OF assms(1) that] newHTTP_peers_distinct distinct_http_loops by blast
  have authrpc: "distinct (http_loops (AuthrpcProxy (cfgAuthrpc c)) ''bproxy-authrpc'' p)" if "authrpc s = Some (p, ap)" for p ap
    using Server_New_parts(2) [OF assms(1) that] newHTTP_peers_distinct distinct_http_loops by blast
  show ?thesis using loops rpc authrpc by (auto split: option.splits dest: http_loops_disjoint)
qed

section \<open>A run of the program\<close>

abbreviation demo_uri :: "string \<Rightarrow> (string \<times> string) option" where
  "demo_uri u \<equiv> Some (u, u)"

lemma parse_peers_total: "parse_peers demo_uri urls uris \<noteq> None"
  by (induction demo_uri urls uris rule: parse_peers.induct) simp_all

lemma newHTTP_total: "newHTTP True demo_uri c \<noteq> Ret None"
  using parse_peers_total [of "PeerURLs c" "[]"] by (auto simp: newHTTP_def newHealthcheck_def go_bind_Ret_iff split: if_split_asm)

lemma newWebsocket_total: "newWebsocket True (\<lambda>u. demo_uri u \<noteq> None) c \<noteq> Ret None"
  by (auto simp: newWebsocket_def newHealthcheck_def Let_def)

lemma Server_New_total: "Server_New (\<lambda>_ _. True) demo_uri c \<noteq> Ret None"
  using newHTTP_total newWebsocket_total
  by (auto simp: Server_New_def Let_def go_bind_Ret_iff go_map_Ret_iff NewAuthrpc_proxy_def NewRpc_def new_http_def
      NewFlashblocks_def split: option.split_asm if_split_asm)

lemma demo_New:
  "\<exists>c' s. Config_Validate demo_host (demo_cfg ''http://b'') = Ret (None, c') \<and> Server_New (\<lambda>_ _. True) demo_uri c' = Ret (Some s)"
proof -
  obtain c' where c': "Config_Validate demo_host (demo_cfg ''http://b'') = Ret (None, c')" using demo_accepted by blast
  obtain r where r: "Server_New (\<lambda>_ _. True) demo_uri c' = Ret r"
    using accepted_New [OF c'] by (cases "Server_New (\<lambda>_ _. True) demo_uri c'") auto
  with Server_New_total [of c'] have "r \<noteq> None" by auto
  with c' r show ?thesis by auto
qed

theorem program_succeeds_witness:
  "program demo_host (\<lambda>_. None) (\<lambda>_ _. True) demo_uri demo_metrics_lib (demo_cfg ''http://b'') NoError = ExitSuccess"
  using program_succeeds [of "\<lambda>_. None" demo_host "\<lambda>_ _. True" demo_uri demo_metrics_lib "demo_cfg ''http://b''" NoError]
    demo_New demo_Setup by blast

theorem one_loop_per_queue_witness:
  "\<exists>c s gs. Server_New (\<lambda>_ _. True) demo_uri c = Ret (Some s) \<and> Server_start demo_metrics_lib c s = Ret (Inr gs) \<and>
     distinct (filter is_loop gs)"
proof -
  obtain c s where s: "Server_New (\<lambda>_ _. True) demo_uri c = Ret (Some s)" using demo_New by blast
  moreover obtain gs where "Server_start demo_metrics_lib c s = Ret (Inr gs)"
    using Server_start_total [OF s, of demo_metrics_lib] demo_Setup by blast
  ultimately show ?thesis using one_loop_per_queue by blast
qed

end
