(* ===== verification/Job_Queues.thy ===== *)
theory Job_Queues
  imports Http_Jobs
begin

text \<open>
  The queues of one HTTP proxy together: requests arriving in any number and order
  (\<open>newProxyJob\<close>, then the scheduling part of \<open>receive\<close>) and the job loops of \<open>Run\<close> taking jobs. Each
  channel operation is a step of its own: handlers and loops interleave between any two of them. What
  every job in a queue is like is stated as a typing of the queues: it holds at the start, every
  step keeps it, and typed queues are not stuck.
\<close>

section \<open>Typed channels\<close>

context bounded_queue
begin

definition holds :: "('v \<Rightarrow> bool) \<Rightarrow> 'q \<Rightarrow> bool" where
  "holds P q \<longleftrightarrow> length (list q) \<le> bound q \<and> (\<forall>v\<in>set (list q). P v)"

lemma holds_send: "holds P q \<Longrightarrow> P v \<Longrightarrow> try_send v q = Some q' \<Longrightarrow> holds P q' \<and> bound q' = bound q"
  using try_send_SomeD [of v q q'] by (auto simp: holds_def)

lemma holds_recv: "holds P q \<Longrightarrow> recv q = Some (v, q') \<Longrightarrow> P v \<and> holds P q' \<and> bound q' = bound q"
  using recv_SomeD [of q v q'] by (auto simp: holds_def)

lemma holds_progress: "holds P q \<Longrightarrow> list q \<noteq> [] \<Longrightarrow> \<exists>v q'. recv q = Some (v, q') \<and> P v"
  using recv_law [of q] by (cases "list q") (force simp: holds_def)+

end

section \<open>The steps\<close>

text \<open>The operations of \<open>receive\<close>: the send of the proxy job, and one send, or drop, for each peer.\<close>

definition send_proxy :: "'u proxy_job \<Rightarrow> 'u queues \<Rightarrow> 'u queues option" where
  "send_proxy pj q =
     (if Prioritise (pj_triage pj) then map_option (\<lambda>c. q\<lparr>queueProxyHi := c\<rparr>) (chan_send pj (queueProxyHi q))
      else map_option (\<lambda>c. q\<lparr>queueProxyLo := c\<rparr>) (chan_send pj (queueProxyLo q)))"

definition mirror_one :: "'u HTTP \<Rightarrow> 'u http_request \<Rightarrow> 'u proxy_job \<Rightarrow> string \<times> 'u \<Rightarrow> 'u queues \<Rightarrow> 'u queues" where
  "mirror_one p ctx pj peer q =
     (let mj = newMirrorJob p ctx pj peer
      in if Prioritise (pj_triage pj) then q\<lparr>queueMirrorHi := fst (mirror_send (fst peer) mj (queueMirrorHi q))\<rparr>
         else q\<lparr>queueMirrorLo := fst (mirror_send (fst peer) mj (queueMirrorLo q))\<rparr>)"

text \<open>
  Beside the queues the state has the handlers that are past their first send, each with the peers
  it has still to mirror to; the range over the map of peers takes them in any order.
\<close>

type_synonym 'u mirroring = "'u http_request \<times> 'u proxy_job \<times> (string \<times> 'u) list"
type_synonym 'u queue_state = "'u queues \<times> 'u mirroring list"

inductive queue_step :: "'u HTTP \<Rightarrow> 'u queue_state \<Rightarrow> 'u queue_state \<Rightarrow> bool" for p :: "'u HTTP" where
  schedule: "pj = newProxyJob p draws triaged ctx \<Longrightarrow> send_proxy pj q = Some q' \<Longrightarrow>
    queue_step p (q, hs) (q', hs @ [(ctx, pj, if Mirror (pj_triage pj) then peerURIs p else [])])"
| mirror: "queue_step p (q, hs @ (ctx, pj, ps @ peer # ps') # hs') (mirror_one p ctx pj peer q, hs @ (ctx, pj, ps @ ps') # hs')"
| take_hi: "chan_recv (queueProxyHi q) = Some (j, c) \<Longrightarrow> queue_step p (q, hs) (q\<lparr>queueProxyHi := c\<rparr>, hs)"
| take_lo: "chan_recv (queueProxyLo q) = Some (j, c) \<Longrightarrow> queue_step p (q, hs) (q\<lparr>queueProxyLo := c\<rparr>, hs)"
| take_mirror_hi: "map_of (queueMirrorHi q) host = Some c \<Longrightarrow> chan_recv c = Some (mj, c') \<Longrightarrow>
    queue_step p (q, hs) (q\<lparr>queueMirrorHi := AList.update host c' (queueMirrorHi q)\<rparr>, hs)"
| take_mirror_lo: "map_of (queueMirrorLo q) host = Some c \<Longrightarrow> chan_recv c = Some (mj, c') \<Longrightarrow>
    queue_step p (q, hs) (q\<lparr>queueMirrorLo := AList.update host c' (queueMirrorLo q)\<rparr>, hs)"

inductive queue_run :: "'u HTTP \<Rightarrow> 'u queue_state \<Rightarrow> bool" for p :: "'u HTTP" where
  start: "queue_run p (new_queues p, [])"
| step: "queue_run p s \<Longrightarrow> queue_step p s s' \<Longrightarrow> queue_run p s'"

text \<open>With nothing in between, the steps of a handler are what \<open>receive_schedule\<close> does.\<close>

lemma mirror_all_steps:
  "queue_run p (q, hs @ [(ctx, pj, peers)]) \<Longrightarrow> queue_run p
     (if Prioritise (pj_triage pj) then q\<lparr>queueMirrorHi := fst (mirror_all p ctx pj peers (queueMirrorHi q))\<rparr>
      else q\<lparr>queueMirrorLo := fst (mirror_all p ctx pj peers (queueMirrorLo q))\<rparr>, hs @ [(ctx, pj, [])])"
proof (induction peers arbitrary: q)
  case (Cons peer peers)
  have run: "queue_run p (mirror_one p ctx pj peer q, hs @ [(ctx, pj, peers)])"
    using queue_run.step [OF Cons.prems] queue_step.mirror [of p q hs ctx pj "[]" peer peers "[]"] by simp
  have all: "fst (mirror_all p ctx pj (peer # peers) qs) =
      fst (mirror_all p ctx pj peers (fst (mirror_send (fst peer) (newMirrorJob p ctx pj peer) qs)))" for qs
    using mirror_all_Cons(1) [OF prod.collapse [symmetric]] .
  show ?case using Cons.IH [OF run] by (simp add: all mirror_one_def Let_def split: if_splits)
qed simp

lemma receive_schedule_steps:
  assumes "queue_run p (q, hs)" "receive_schedule p ctx (newProxyJob p draws triaged ctx) q = Some (q', ms)"
  shows "queue_run p (q', hs @ [(ctx, newProxyJob p draws triaged ctx, [])])"
proof -
  let ?pj = "newProxyJob p draws triaged ctx"
  obtain q1 where q1: "send_proxy ?pj q = Some q1" "Mirror (pj_triage ?pj) \<longrightarrow> q' =
      (if Prioritise (pj_triage ?pj) then q1\<lparr>queueMirrorHi := fst (mirror_all p ctx ?pj (peerURIs p) (queueMirrorHi q1))\<rparr>
       else q1\<lparr>queueMirrorLo := fst (mirror_all p ctx ?pj (peerURIs p) (queueMirrorLo q1))\<rparr>)" "\<not> Mirror (pj_triage ?pj) \<longrightarrow> q' = q1"
    using assms(2) by (auto simp: receive_schedule_def send_proxy_def Let_def split: option.splits if_splits prod.splits)
  note run = queue_run.step [OF assms(1) queue_step.schedule [OF refl q1(1)]]
  show ?thesis
  proof (cases "Mirror (pj_triage ?pj)")
    case True
    then have "queue_run p (q1, hs @ [(ctx, ?pj, peerURIs p)])" using run by simp
    from mirror_all_steps [OF this] q1(2) True show ?thesis by simp
  qed (use run q1(3) in simp)
qed

section \<open>The typing\<close>

text \<open>
  A proxy job goes to the backend, with the class of its queue; the backend is asked exactly when
  the job is to be proxied, and otherwise a reply is made up, injected only if chaos is on.
\<close>

definition proxy_typed :: "'u HTTP \<Rightarrow> bool \<Rightarrow> 'u proxy_job \<Rightarrow> bool" where
  "proxy_typed p prio j \<longleftrightarrow> Prioritise (pj_triage j) = prio \<and> rq_URI (pj_req j) = Some (backendURI p) \<and>
     (pj_proxy j = BackendDo) = Proxy (pj_triage j) \<and>
     (pj_proxy j \<in> {BackendDo, FakeResponse} \<or> Enabled (Chaos (cfg p)) \<and> \<not> Mirror (pj_triage j))"

definition mirror_typed :: "'u HTTP \<Rightarrow> string \<Rightarrow> 'u mirror_job \<Rightarrow> bool" where
  "mirror_typed p host mj \<longleftrightarrow> mj_host mj = host \<and> (\<exists>uri. (host, uri) \<in> set (peerURIs p) \<and> rq_URI (mj_req mj) = Some uri)"

definition peers_typed :: "'u HTTP \<Rightarrow> (string \<times> 'u mirror_job channel) list \<Rightarrow> bool" where
  "peers_typed p qs \<longleftrightarrow> map fst qs = map fst (peerURIs p) \<and>
     (\<forall>host c. map_of qs host = Some c \<longrightarrow> ch.holds (mirror_typed p host) c \<and> ch_cap c = 512)"

definition queues_typed :: "'u HTTP \<Rightarrow> 'u queues \<Rightarrow> bool" where
  "queues_typed p q \<longleftrightarrow>
     ch.holds (proxy_typed p True) (queueProxyHi q) \<and> ch_cap (queueProxyHi q) = 512 \<and>
     ch.holds (proxy_typed p False) (queueProxyLo q) \<and> ch_cap (queueProxyLo q) = 512 \<and>
     peers_typed p (queueMirrorHi q) \<and> peers_typed p (queueMirrorLo q)"

lemma newProxyJob_typed:
  "proxy_typed p (Prioritise (pj_triage (newProxyJob p draws triaged ctx))) (newProxyJob p draws triaged ctx)"
  by (auto simp: proxy_typed_def newProxyJob_def forwarded_def chaos_action_def Let_def split: prod.splits if_splits)

lemma new_peers_typed: "peers_typed p (map (\<lambda>(host, uri). (host, make_chan 512)) (peerURIs p))"
proof -
  have "map_of (map (\<lambda>(host, uri). (host, make_chan 512)) ps) host = Some c \<Longrightarrow> c = make_chan 512"
    for ps :: "(string \<times> 'a) list" and host and c :: "'a mirror_job channel"
    by (induction ps) (auto split: if_splits)
  moreover have "map fst (map (\<lambda>(host, uri). (host, make_chan 512 :: 'a mirror_job channel)) ps) = map fst ps"
    for ps :: "(string \<times> 'a) list"
    by (induction ps) auto
  ultimately show ?thesis by (force simp: peers_typed_def ch.holds_def make_chan_def)
qed

lemma new_chan_typed: "ch.holds P (make_chan n) \<and> ch_cap (make_chan n) = n"
  by (simp add: ch.holds_def make_chan_def)

lemma new_queues_typed: "queues_typed p (new_queues p)"
  by (simp only: queues_typed_def new_queues_def queues.select_convs new_chan_typed new_peers_typed simp_thms)

lemma peers_typed_update:
  assumes "peers_typed p qs" "map_of qs host = Some c" "ch.holds (mirror_typed p host) c'" "ch_cap c' = 512"
  shows "peers_typed p (AList.update host c' qs)"
proof -
  have "host \<in> set (map fst qs)" using map_of_SomeD [OF assms(2)] by force
  then have "map fst (AList.update host c' qs) = map fst qs" by (simp add: update_keys)
  then show ?thesis
    using assms by (auto simp: peers_typed_def update_conv')
qed

lemma mirror_send_typed:
  assumes "peers_typed p qs" "peer \<in> set (peerURIs p)"
  shows "peers_typed p (fst (mirror_send (fst peer) (newMirrorJob p ctx pj peer) qs))"
proof -
  let ?mj = "newMirrorJob p ctx pj peer"
  have job: "mirror_typed p (fst peer) ?mj"
    using assms(2) by (cases peer) (auto simp: mirror_typed_def newMirrorJob_def forwarded_def)
  show ?thesis
  proof (cases "Option.bind (map_of qs (fst peer)) (chan_send ?mj)")
    case None
    with assms(1) show ?thesis by (simp add: mirror_send_def)
  next
    case (Some c')
    then obtain c where c: "map_of qs (fst peer) = Some c" "chan_send ?mj c = Some c'"
      by (auto simp: bind_eq_Some_conv)
    with assms(1) have "ch.holds (mirror_typed p (fst peer)) c" "ch_cap c = 512"
      by (auto simp: peers_typed_def)
    with ch.holds_send [of "mirror_typed p (fst peer)" c ?mj, OF _ job c(2)] peers_typed_update [OF assms(1) c(1)] Some show ?thesis
      by (auto simp: mirror_send_def)
  qed
qed

section \<open>Preservation and progress\<close>

lemma send_proxy_typed:
  assumes "queues_typed p q" "proxy_typed p (Prioritise (pj_triage pj)) pj" "send_proxy pj q = Some q'"
  shows "queues_typed p q'"
proof (cases "Prioritise (pj_triage pj)")
  case True
  with assms(3) obtain c where c: "chan_send pj (queueProxyHi q) = Some c" "q' = q\<lparr>queueProxyHi := c\<rparr>"
    by (auto simp: send_proxy_def)
  with assms(1) ch.holds_send [of "proxy_typed p True", OF _ _ c(1)] assms(2) True show ?thesis by (simp add: queues_typed_def)
next
  case False
  with assms(3) obtain c where c: "chan_send pj (queueProxyLo q) = Some c" "q' = q\<lparr>queueProxyLo := c\<rparr>"
    by (auto simp: send_proxy_def)
  with assms(1) ch.holds_send [of "proxy_typed p False", OF _ _ c(1)] assms(2) False show ?thesis by (simp add: queues_typed_def)
qed

lemma mirror_one_typed: "queues_typed p q \<Longrightarrow> peer \<in> set (peerURIs p) \<Longrightarrow> queues_typed p (mirror_one p ctx pj peer q)"
  by (simp add: mirror_one_def queues_typed_def mirror_send_typed Let_def)

lemma take_peer_typed:
  assumes "peers_typed p qs" "map_of qs host = Some c" "chan_recv c = Some (mj, c')"
  shows "mirror_typed p host mj \<and> peers_typed p (AList.update host c' qs)"
proof -
  have "ch.holds (mirror_typed p host) c" "ch_cap c = 512" using assms(1,2) by (auto simp: peers_typed_def)
  with ch.holds_recv [OF this(1) assms(3)] peers_typed_update [OF assms(1,2), of c'] show ?thesis by simp
qed

definition state_typed :: "'u HTTP \<Rightarrow> 'u queue_state \<Rightarrow> bool" where
  "state_typed p s \<longleftrightarrow> queues_typed p (fst s) \<and>
     (\<forall>(ctx, pj, peers)\<in>set (snd s). set peers \<subseteq> set (peerURIs p) \<and> (peers \<noteq> [] \<longrightarrow> Mirror (pj_triage pj)))"

lemma queue_step_typed: "queue_step p s s' \<Longrightarrow> state_typed p s \<Longrightarrow> state_typed p s'"
proof (induction rule: queue_step.induct)
  case (schedule pj draws triaged ctx q q' hs)
  have "queues_typed p q'"
    by (rule send_proxy_typed [OF _ _ schedule(2)]) (use schedule(1,3) newProxyJob_typed in \<open>simp_all add: state_typed_def\<close>)
  with schedule(3) show ?case by (simp add: state_typed_def)
next
  case (mirror q hs ctx pj ps peer ps' hs')
  then have "queues_typed p (mirror_one p ctx pj peer q)" by (intro mirror_one_typed) (simp_all add: state_typed_def)
  with mirror show ?case by (simp add: state_typed_def)
next
  case (take_hi q j c hs)
  with ch.holds_recv [OF _ take_hi(1), of "proxy_typed p True"] show ?case by (simp add: state_typed_def queues_typed_def)
next
  case (take_lo q j c hs)
  with ch.holds_recv [OF _ take_lo(1), of "proxy_typed p False"] show ?case by (simp add: state_typed_def queues_typed_def)
qed (auto simp: state_typed_def queues_typed_def dest: take_peer_typed)

text \<open>
  C13: However requests arrive and loops take jobs, every job in a queue is what the queue says: a
  proxy job has its class and the backend's address, and calls the backend exactly if it is to be
  proxied; a job in a peer's queue is for that peer. The queues for mirroring are exactly those of
  the peers, of size 512, and no handler mirrors to anyone else, or a request that is not to be mirrored. So
  nothing is stuck: a new request is accepted unless the queue of its
  class is full, and whatever is in a queue can be taken from it.
\<close>

theorem queues_well_typed:
  assumes "queue_run p (q, hs)"
  shows "queues_typed p q \<and>
    (\<forall>(ctx, pj, peers) \<in> set hs. set peers \<subseteq> set (peerURIs p) \<and> (peers \<noteq> [] \<longrightarrow> Mirror (pj_triage pj))) \<and>
    (\<forall>ctx pj. receive_schedule p ctx pj q = None \<longleftrightarrow>
       length (ch_buf (if Prioritise (pj_triage pj) then queueProxyHi q else queueProxyLo q)) = 512) \<and>
    (\<forall>host \<in> fst ` set (peerURIs p). \<forall>qs \<in> {queueMirrorHi q, queueMirrorLo q}. \<exists>c. map_of qs host = Some c \<and>
       (ch_buf c \<noteq> [] \<longrightarrow> (\<exists>mj c'. chan_recv c = Some (mj, c') \<and> mirror_typed p host mj)))"
proof -
  have "state_typed p (q, hs)"
    using assms
  proof (induction rule: queue_run.induct)
    case start
    show ?case by (simp add: state_typed_def new_queues_typed)
  qed (rule queue_step_typed)
  then have typed: "queues_typed p q"
      and handlers: "\<forall>(ctx, pj, peers)\<in>set hs. set peers \<subseteq> set (peerURIs p) \<and> (peers \<noteq> [] \<longrightarrow> Mirror (pj_triage pj))"
    by (simp_all add: state_typed_def)
  have "length (ch_buf (queueProxyHi q)) \<le> 512 \<and> ch_cap (queueProxyHi q) = 512"
      "length (ch_buf (queueProxyLo q)) \<le> 512 \<and> ch_cap (queueProxyLo q) = 512"
    using typed by (auto simp: queues_typed_def ch.holds_def)
  then have "receive_schedule p ctx pj q = None \<longleftrightarrow>
      length (ch_buf (if Prioritise (pj_triage pj) then queueProxyHi q else queueProxyLo q)) = 512" for ctx pj
    by (auto simp: receive_schedule_def chan_send_def Let_def split: prod.splits)
  moreover have "\<exists>c. map_of qs host = Some c \<and>
      (ch_buf c \<noteq> [] \<longrightarrow> (\<exists>mj c'. chan_recv c = Some (mj, c') \<and> mirror_typed p host mj))"
    if "host \<in> fst ` set (peerURIs p)" "peers_typed p qs" for host qs
  proof -
    have "host \<in> set (map fst qs)" using that by (simp add: peers_typed_def)
    then obtain c where c: "map_of qs host = Some c" by (metis map_of_eq_None_iff list.set_map not_Some_eq)
    with that(2) have "ch.holds (mirror_typed p host) c" by (simp add: peers_typed_def)
    from ch.holds_progress [OF this] c show ?thesis by blast
  qed
  moreover have "\<forall>qs \<in> {queueMirrorHi q, queueMirrorLo q}. peers_typed p qs" using typed by (simp add: queues_typed_def)
  ultimately show ?thesis using typed handlers by blast
qed

theorem queues_well_typed_witness:
  "\<exists>q hs. queue_run (demo_http no_chaos) (q, hs) \<and> queueProxyHi q \<noteq> make_chan 512 \<and> queues_typed (demo_http no_chaos) q"
proof -
  let ?p = "demo_http no_chaos"
  let ?pj = "newProxyJob ?p (0, 0, 0) (zero_Request\<lparr>Proxy := True, Prioritise := True\<rparr>, AcquireResponse) (demo_ctx [])"
  have "\<exists>q' ms. receive_schedule ?p (demo_ctx []) ?pj (new_queues ?p) = Some (q', ms) \<and> queueProxyHi q' \<noteq> make_chan 512"
    by (simp add: receive_schedule_def newProxyJob_def new_queues_def make_chan_def chan_send_def no_chaos_def
        chaos_action_def demo_http_def demo_config_def Let_def)
  then obtain q' ms where q': "receive_schedule ?p (demo_ctx []) ?pj (new_queues ?p) = Some (q', ms)" "queueProxyHi q' \<noteq> make_chan 512"
    by blast
  from queues_well_typed [OF receive_schedule_steps [OF queue_run.start q'(1)]] receive_schedule_steps [OF queue_run.start q'(1)] q'(2)
  show ?thesis by blast
qed

end
