(* ===== verification/Proxy_System.thy ===== *)
theory Proxy_System
  imports Http_Replies "HOL-Library.Sublist" "HOL-Library.Multiset"
begin

text \<open>
  An HTTP proxy from request to reply (\<open>receive\<close>, the job loop of \<open>Run\<close> and \<open>execProxyJob\<close> of
  \<open>proxy/http.go\<close> together): any number of handlers, each of which makes a job of its request,
  sends it to the queue of its class, waits, and replies; and the loop. Each handler is a goroutine of
  its own, so between the end of its job and its reply any other may go first. A handler is known by a
  number; what it sends carries the number in place of the job's wait group, which the loop
  releases when it has executed the job. The peers' queues are in theory \<open>Job_Queues\<close>.
\<close>

section \<open>The system\<close>

type_synonym 'u numbered_job = "nat \<times> 'u proxy_job"

record 'u proxy_system =
  jobs :: "'u numbered_job dispatch"
  handlers :: "(nat \<times> 'u http_request \<times> 'u proxy_job) list"
  executed :: "('u numbered_job \<times> exec_result) list"
    \<comment> \<open>jobs done and their results, in the order of the loop: their wait groups are released\<close>
  replies :: "('u numbered_job \<times> Response) list"
    \<comment> \<open>what the handlers gave their clients, in the order of the replies\<close>

definition new_system :: "'u proxy_system" where
  "new_system = \<lparr>jobs = new_dispatch, handlers = [], executed = [], replies = []\<rparr>"

definition scheduled :: "'u proxy_system \<Rightarrow> nat set" where
  "scheduled s = fst ` (set (sentHi (jobs s)) \<union> set (sentLo (jobs s)))"

definition answered :: "'u proxy_system \<Rightarrow> nat set" where
  "answered s = fst ` fst ` set (replies s)"

definition prioritised :: "'u numbered_job \<Rightarrow> bool" where
  "prioritised j \<longleftrightarrow> Prioritise (pj_triage (snd j))"

text \<open>
  \<open>triage\<close> relates a request to what its triage may give (the engine API proxy's depends on the calls
  before it; one that panics gives nothing). Steps: a request arrives and is triaged; its handler
  sends the job, waiting for room; the loop goes on to a job; the loop executes the job, which ends with
  the release of its wait group; and, some time after that, its handler copies the result to the client.
  Draws and elapsed time are any; \<open>backend n\<close> is how the backend would answer the request of handler \<open>n\<close>.
\<close>

inductive system_step :: "'tx env \<Rightarrow> ('u http_request \<Rightarrow> Request \<times> Response \<Rightarrow> bool) \<Rightarrow> 'u HTTP \<Rightarrow>
    (nat \<Rightarrow> 'u backend) \<Rightarrow> 'u proxy_system \<Rightarrow> 'u proxy_system \<Rightarrow> bool"
  for e :: "'tx env" and triage :: "'u http_request \<Rightarrow> Request \<times> Response \<Rightarrow> bool" and p :: "'u HTTP"
    and backend :: "nat \<Rightarrow> 'u backend" where
  request: "n \<notin> fst ` set (handlers s) \<Longrightarrow> triage ctx triaged \<Longrightarrow>
    system_step e triage p backend s (s\<lparr>handlers := handlers s @ [(n, ctx, newProxyJob p draws triaged ctx)]\<rparr>)"
| schedule_hi: "(n, ctx, pj) \<in> set (handlers s) \<Longrightarrow> n \<notin> scheduled s \<Longrightarrow> prioritised (n, pj) \<Longrightarrow>
    chan_send (n, pj) (queueHi (jobs s)) = Some q \<Longrightarrow>
    system_step e triage p backend s (s\<lparr>jobs := (jobs s)\<lparr>queueHi := q, sentHi := sentHi (jobs s) @ [(n, pj)]\<rparr>\<rparr>)"
| schedule_lo: "(n, ctx, pj) \<in> set (handlers s) \<Longrightarrow> n \<notin> scheduled s \<Longrightarrow> \<not> prioritised (n, pj) \<Longrightarrow>
    chan_send (n, pj) (queueLo (jobs s)) = Some q \<Longrightarrow>
    system_step e triage p backend s (s\<lparr>jobs := (jobs s)\<lparr>queueLo := q, sentLo := sentLo (jobs s) @ [(n, pj)]\<rparr>\<rparr>)"
| take: "dispatch_step (UsePriorityQueue (cfg p)) False (jobs s) d \<Longrightarrow> \<forall>j. worker (jobs s) \<noteq> Running j \<Longrightarrow>
    sentHi d = sentHi (jobs s) \<Longrightarrow> sentLo d = sentLo (jobs s) \<Longrightarrow>
    system_step e triage p backend s (s\<lparr>jobs := d\<rparr>)"
| execute: "worker (jobs s) = Running (n, pj) \<Longrightarrow> execProxyJob e p (backend n) draw elapsed pj = Ret r \<Longrightarrow>
    system_step e triage p backend s
      (s\<lparr>jobs := (jobs s)\<lparr>worker := Polling\<rparr>, executed := executed s @ [((n, pj), r)]\<rparr>)"
| reply: "((n, pj), r) \<in> set (executed s) \<Longrightarrow> n \<notin> answered s \<Longrightarrow>
    system_step e triage p backend s (s\<lparr>replies := replies s @ [((n, pj), ex_res r)]\<rparr>)"

inductive system_run :: "'tx env \<Rightarrow> ('u http_request \<Rightarrow> Request \<times> Response \<Rightarrow> bool) \<Rightarrow> 'u HTTP \<Rightarrow>
    (nat \<Rightarrow> 'u backend) \<Rightarrow> 'u proxy_system \<Rightarrow> 'u proxy_system \<Rightarrow> bool"
  for e :: "'tx env" and triage :: "'u http_request \<Rightarrow> Request \<times> Response \<Rightarrow> bool" and p :: "'u HTTP"
    and backend :: "nat \<Rightarrow> 'u backend" where
  here: "system_run e triage p backend s s"
| further: "system_run e triage p backend s s1 \<Longrightarrow> system_step e triage p backend s1 s2 \<Longrightarrow> system_run e triage p backend s s2"

section \<open>Every reply is that of its own request\<close>

definition running :: "'a dispatch \<Rightarrow> 'a list" where
  "running d = (case worker d of Running j \<Rightarrow> [j] | _ \<Rightarrow> [])"

text \<open>What made a job of a request, and what may have come of executing it.\<close>

definition made_from :: "('u http_request \<Rightarrow> Request \<times> Response \<Rightarrow> bool) \<Rightarrow> 'u HTTP \<Rightarrow> 'u http_request \<Rightarrow> 'u proxy_job \<Rightarrow> bool" where
  "made_from triage p ctx pj \<longleftrightarrow> (\<exists>draws triaged. triage ctx triaged \<and> pj = newProxyJob p draws triaged ctx)"

definition outcome_of :: "'tx env \<Rightarrow> 'u HTTP \<Rightarrow> 'u backend \<Rightarrow> 'u proxy_job \<Rightarrow> Response \<Rightarrow> bool" where
  "outcome_of e p answer pj res \<longleftrightarrow> (\<exists>draw elapsed r. execProxyJob e p answer draw elapsed pj = Ret r \<and> res = ex_res r)"

definition system_inv :: "'tx env \<Rightarrow> ('u http_request \<Rightarrow> Request \<times> Response \<Rightarrow> bool) \<Rightarrow> 'u HTTP \<Rightarrow>
    (nat \<Rightarrow> 'u backend) \<Rightarrow> 'u proxy_system \<Rightarrow> bool" where
  "system_inv e triage p backend s \<longleftrightarrow>
     loop_inv (UsePriorityQueue (cfg p)) (jobs s) \<and>
     distinct (map fst (handlers s)) \<and> (\<forall>(n, ctx, pj)\<in>set (handlers s). made_from triage p ctx pj) \<and>
     distinct (map fst (sentHi (jobs s) @ sentLo (jobs s))) \<and>
     (\<forall>(n, pj)\<in>set (sentHi (jobs s)) \<union> set (sentLo (jobs s)). \<exists>ctx. (n, ctx, pj) \<in> set (handlers s)) \<and>
     (\<forall>j\<in>set (sentHi (jobs s)). prioritised j) \<and> (\<forall>j\<in>set (sentLo (jobs s)). \<not> prioritised j) \<and>
     filter prioritised (map fst (executed s) @ running (jobs s)) = startedHi (jobs s) \<and>
     filter (\<lambda>j. \<not> prioritised j) (map fst (executed s) @ running (jobs s)) = startedLo (jobs s) \<and>
     (\<forall>((n, pj), r)\<in>set (executed s). outcome_of e p (backend n) pj (ex_res r)) \<and>
     set (replies s) \<subseteq> map_prod id ex_res ` set (executed s) \<and> distinct (map (fst \<circ> fst) (replies s))"

lemma system_inv_new: "system_inv e triage p backend new_system"
  using loop_inv_new by (simp add: system_inv_def new_system_def new_dispatch_def running_def)

lemma took:
  assumes "dispatch_step prio False d d'" "\<forall>j. worker d \<noteq> Running j" "sentHi d' = sentHi d" "sentLo d' = sentLo d"
  shows "(startedHi d' = startedHi d @ running d' \<and> startedLo d' = startedLo d \<or>
          startedHi d' = startedHi d \<and> startedLo d' = startedLo d @ running d') \<and> running d = []"
  using assms by (cases rule: dispatch_step.cases) (auto simp: running_def split: worker.splits)

lemma loop_inv_sent:
  "loop_inv prio d \<Longrightarrow> sentHi d = startedHi d @ ch_buf (queueHi d) \<and> sentLo d = startedLo d @ ch_buf (queueLo d)"
  by (simp add: loop_inv_def dispatch_inv_def ch.conserves_def)

lemma system_inv_take:
  assumes inv: "system_inv e triage p backend s"
    and d: "dispatch_step (UsePriorityQueue (cfg p)) False (jobs s) d" "\<forall>j. worker (jobs s) \<noteq> Running j"
      "sentHi d = sentHi (jobs s)" "sentLo d = sentLo (jobs s)"
  shows "system_inv e triage p backend (s\<lparr>jobs := d\<rparr>)"
proof -
  have loop: "loop_inv (UsePriorityQueue (cfg p)) d"
    using loop_inv_step [OF d(1)] inv by (simp add: system_inv_def)
  note sent = loop_inv_sent [OF loop]
  from took [OF d] have run: "running (jobs s) = []" by simp
  from took [OF d] show ?thesis
  proof (elim conjE disjE)
    assume hi: "startedHi d = startedHi (jobs s) @ running d" "startedLo d = startedLo (jobs s)"
    with sent d(3) inv have "\<forall>j\<in>set (running d). prioritised j" by (auto simp: system_inv_def)
    then have "filter prioritised (running d) = running d" "filter (\<lambda>j. \<not> prioritised j) (running d) = []"
      by (auto intro: filter_True filter_False)
    with inv loop hi d run show ?thesis by (simp add: system_inv_def)
  next
    assume lo: "startedHi d = startedHi (jobs s)" "startedLo d = startedLo (jobs s) @ running d"
    with sent d(4) inv have "\<forall>j\<in>set (running d). \<not> prioritised j" by (auto simp: system_inv_def)
    then have "filter prioritised (running d) = []" "filter (\<lambda>j. \<not> prioritised j) (running d) = running d"
      by (auto intro: filter_True filter_False)
    with inv loop lo d run show ?thesis by (simp add: system_inv_def)
  qed
qed

lemma system_inv_step:
  assumes "system_step e triage p backend s s'" "system_inv e triage p backend s"
  shows "system_inv e triage p backend s'"
  using assms
proof (cases rule: system_step.cases)
  case (request n ctx triaged draws)
  moreover from this have "made_from triage p ctx (newProxyJob p draws triaged ctx)" unfolding made_from_def by blast
  ultimately show ?thesis using assms(2) by (simp add: system_inv_def) blast
next
  case (schedule_hi n ctx pj q)
  then have "loop_inv (UsePriorityQueue (cfg p)) (jobs s')"
    using loop_inv_step [OF dispatch_step.send_hi [of "(n, pj)" "jobs s" q _ False]] assms(2)
    by (simp add: system_inv_def)
  with schedule_hi assms(2) show ?thesis by (auto simp: system_inv_def running_def scheduled_def)
next
  case (schedule_lo n ctx pj q)
  then have "loop_inv (UsePriorityQueue (cfg p)) (jobs s')"
    using loop_inv_step [OF dispatch_step.send_lo [of "(n, pj)" "jobs s" q _ False]] assms(2)
    by (simp add: system_inv_def)
  with schedule_lo assms(2) show ?thesis by (auto simp: system_inv_def running_def scheduled_def)
next
  case (take d)
  with assms(2) system_inv_take show ?thesis by blast
next
  case (execute n pj draw elapsed r)
  then have "loop_inv (UsePriorityQueue (cfg p)) (jobs s')"
    using loop_inv_step [OF dispatch_step.finish [of "jobs s" "(n, pj)" _ False]] assms(2)
    by (simp add: system_inv_def)
  with execute assms(2) show ?thesis by (auto simp: system_inv_def running_def outcome_of_def)
next
  case (reply n pj r)
  then have "((n, pj), ex_res r) \<in> map_prod id ex_res ` set (executed s)" by force
  with reply assms(2) show ?thesis by (auto simp: system_inv_def running_def answered_def image_image)
qed

lemma system_inv_run: "system_run e triage p backend s s' \<Longrightarrow> system_inv e triage p backend s \<Longrightarrow> system_inv e triage p backend s'"
  by (induction rule: system_run.induct) (auto intro: system_inv_step)

lemma system_invD:
  assumes "system_inv e triage p backend s"
  shows "loop_inv (UsePriorityQueue (cfg p)) (jobs s)"
    and "\<forall>(n, ctx, pj)\<in>set (handlers s). made_from triage p ctx pj"
    and "\<forall>((n, pj), r)\<in>set (executed s). outcome_of e p (backend n) pj (ex_res r)"
    and "\<forall>(n, pj)\<in>set (sentHi (jobs s)) \<union> set (sentLo (jobs s)). \<exists>ctx. (n, ctx, pj) \<in> set (handlers s)"
    and "distinct (map fst (handlers s))" "distinct (map fst (sentHi (jobs s) @ sentLo (jobs s)))"
    and "set (replies s) \<subseteq> map_prod id ex_res ` set (executed s)" "distinct (map (fst \<circ> fst) (replies s))"
  using assms by (simp_all add: system_inv_def)

lemma executed_prefix:
  assumes "system_inv e triage p backend s"
  shows "prefix (filter prioritised (map fst (executed s))) (sentHi (jobs s)) \<and>
    prefix (filter (\<lambda>j. \<not> prioritised j) (map fst (executed s))) (sentLo (jobs s))"
proof -
  note sent = loop_inv_sent [OF system_invD(1) [OF assms]]
  have started: "startedHi (jobs s) = filter prioritised (map fst (executed s)) @ filter prioritised (running (jobs s))"
      "startedLo (jobs s) = filter (\<lambda>j. \<not> prioritised j) (map fst (executed s)) @ filter (\<lambda>j. \<not> prioritised j) (running (jobs s))"
    using assms unfolding system_inv_def filter_append by metis+
  from sent show ?thesis unfolding started prefix_def append_assoc by blast
qed

lemma executed_handler:
  assumes "system_inv e triage p backend s" "((n, pj), r) \<in> set (executed s)"
  shows "\<exists>ctx. (n, ctx, pj) \<in> set (handlers s)"
proof -
  have "(n, pj) \<in> set (map fst (executed s))" using assms(2) by force
  then have "(n, pj) \<in> set (filter prioritised (map fst (executed s))) \<union> set (filter (\<lambda>j. \<not> prioritised j) (map fst (executed s)))"
    by (cases "prioritised (n, pj)") simp_all
  then have "(n, pj) \<in> set (sentHi (jobs s)) \<union> set (sentLo (jobs s))"
    using executed_prefix [OF assms(1)] set_mono_prefix by blast
  with system_invD(4) [OF assms(1)] show ?thesis by blast
qed

text \<open>
  C2: However requests, handlers and the job loop of an HTTP proxy interleave, with any backend
  and any chaos: no request is answered twice; every answer goes to the handler whose request the
  job was made of, and is what executing that very job gave, which was done before; and in each class of
  priority the jobs are executed in the order they were queued, none skipped. The replies themselves, each
  by a goroutine of its own, may leave in any order.
\<close>

theorem replies_match_requests:
  assumes "system_run e triage p backend new_system s"
  shows "distinct (map (fst \<circ> fst) (replies s)) \<and>
    (\<forall>n pj res. ((n, pj), res) \<in> set (replies s) \<longrightarrow>
       (\<exists>ctx. (n, ctx, pj) \<in> set (handlers s) \<and> made_from triage p ctx pj) \<and>
       (\<exists>r. ((n, pj), r) \<in> set (executed s) \<and> res = ex_res r) \<and> outcome_of e p (backend n) pj res) \<and>
    prefix (filter prioritised (map fst (executed s))) (sentHi (jobs s)) \<and>
    prefix (filter (\<lambda>j. \<not> prioritised j) (map fst (executed s))) (sentLo (jobs s))"
proof -
  note inv = system_inv_run [OF assms system_inv_new]
  have "(\<exists>ctx. (n, ctx, pj) \<in> set (handlers s) \<and> made_from triage p ctx pj) \<and>
      (\<exists>r. ((n, pj), r) \<in> set (executed s) \<and> res = ex_res r) \<and> outcome_of e p (backend n) pj res"
    if res: "((n, pj), res) \<in> set (replies s)" for n pj res
  proof -
    obtain r where "((n, pj), r) \<in> set (executed s)" "res = ex_res r"
      using system_invD(7) [OF inv] res by fastforce
    with executed_handler [OF inv] system_invD(2,3) [OF inv] show ?thesis by fast
  qed
  with system_invD(8) [OF inv] executed_prefix [OF inv] show ?thesis by blast
qed

section \<open>Every request is answered\<close>

text \<open>What keeps a job from panicking: of the libraries where it is decoded for the log, of \<open>rand.Int64N\<close> under chaos.\<close>

definition log_ok :: "'tx env \<Rightarrow> 'u HTTP \<Rightarrow> bool" where
  "log_ok e p \<longleftrightarrow> LogRequests (cfg p) \<or> LogResponses (cfg p) \<longrightarrow> no_panic (env_eth e)"

definition latency_ok :: "chaos_config \<Rightarrow> bool" where
  "latency_ok ch \<longleftrightarrow> Enabled ch \<longrightarrow> 0 \<le> MaxInjectedLatency ch \<and> MaxInjectedLatency ch \<le> Minute"

lemma Sanitize_total: "no_panic eth \<Longrightarrow> Unmarshal_any b = Some j \<Longrightarrow> \<exists>j'. Sanitize eth j = Ret j'"
  by (simp add: Sanitize_by_rewriting json_distinct_Unmarshal_any)

lemma log_body_total: "no_panic eth \<Longrightarrow> \<exists>fs. log_body eth w b = Ret fs"
  using Sanitize_total by (fastforce simp: log_body_def split: option.split)

lemma execProxyJob_total:
  assumes "log_ok e p" "latency_ok (Chaos (cfg p))"
  shows "\<exists>r. execProxyJob e p answer draw elapsed job = Ret r"
proof -
  have req: "\<exists>fs. log_request (env_eth e) p m b = Ret fs" for m b
    using assms(1) Sanitize_total by (fastforce simp: log_ok_def log_request_def split: option.split)
  have resp: "\<exists>fs. log_response (env_eth e) g p m res = Ret fs" for g m res
    using assms(1) log_body_total
    by (cases "LogResponses (cfg p)")
      (auto simp: log_ok_def log_response_def go_map_Ret_iff split: prod.split option.split)
  have "\<exists>s. injected_sleep (Chaos (cfg p)) draw elapsed = Ret s"
  proof (cases "Enabled (Chaos (cfg p))")
    case True
    then have "wrap64 (MaxInjectedLatency (Chaos (cfg p)) + 1) = MaxInjectedLatency (Chaos (cfg p)) + 1"
      using assms(2) by (intro wrap64_id) (simp_all add: latency_ok_def)
    with True assms(2) show ?thesis by (simp add: injected_sleep_def Let_def latency_ok_def)
  qed (simp add: injected_sleep_def)
  with req resp show ?thesis by (fastforce simp: execProxyJob_def Let_def go_bind_Ret_iff split: prod.split)
qed

text \<open>The steps other than the arrival of a request, and how many are left at most.\<close>

definition serves :: "'tx env \<Rightarrow> ('u http_request \<Rightarrow> Request \<times> Response \<Rightarrow> bool) \<Rightarrow> 'u HTTP \<Rightarrow>
    (nat \<Rightarrow> 'u backend) \<Rightarrow> 'u proxy_system \<Rightarrow> 'u proxy_system \<Rightarrow> bool" where
  "serves e triage p backend s s' \<longleftrightarrow> system_step e triage p backend s s' \<and> handlers s' = handlers s"

definition all_answered :: "'u proxy_system \<Rightarrow> bool" where
  "all_answered s \<longleftrightarrow> (\<forall>n ctx pj. (n, ctx, pj) \<in> set (handlers s) \<longrightarrow> (\<exists>res. ((n, pj), res) \<in> set (replies s)))"

definition loop_work :: "'a dispatch \<Rightarrow> nat" where
  "loop_work d = 4 * waiting d + (case worker d of Running j \<Rightarrow> 3 | Polling \<Rightarrow> 1 | Blocked \<Rightarrow> 0)"

definition system_work :: "'u proxy_system \<Rightarrow> nat" where
  "system_work s = 5 * card (fst ` set (handlers s) - scheduled s) + loop_work (jobs s) +
     card (fst ` set (handlers s) - answered s)"

lemma loop_work_take:
  assumes "dispatch_step prio False d d'" "\<forall>j. worker d \<noteq> Running j" "sentHi d' = sentHi d" "sentLo d' = sentLo d"
  shows "loop_work d' < loop_work d"
  using assms
  by (cases rule: dispatch_step.cases) (auto simp: loop_work_def waiting_def chan_recv_def split: list.splits if_splits worker.splits)

lemma card_less: "n \<in> A \<Longrightarrow> n \<notin> B \<Longrightarrow> finite A \<Longrightarrow> card (A - insert n B) < card (A - B)"
  by (rule psubset_card_mono) auto

lemma waiting_send: "chan_send j (queueHi d) = Some q \<Longrightarrow> waiting (d\<lparr>queueHi := q, sentHi := x\<rparr>) = Suc (waiting d)"
  "chan_send j (queueLo d) = Some q \<Longrightarrow> waiting (d\<lparr>queueLo := q, sentLo := x\<rparr>) = Suc (waiting d)"
  by (auto simp: waiting_def chan_send_def split: if_splits)

lemma serves_work:
  assumes "serves e triage p backend s s'" "system_inv e triage p backend s"
  shows "system_work s' < system_work s \<and> prefix (replies s) (replies s')"
proof -
  have step: "system_step e triage p backend s s'" and hs: "handlers s' = handlers s"
    using assms(1) by (simp_all add: serves_def)
  show ?thesis
    using step
  proof (cases rule: system_step.cases)
    case request
    with hs show ?thesis by simp
  next
    case (schedule_hi n ctx pj q)
    have "scheduled s' = insert n (scheduled s)" "answered s' = answered s"
      using schedule_hi(1) by (simp_all add: scheduled_def answered_def)
    moreover have "n \<in> fst ` set (handlers s)" using schedule_hi(2) by force
    moreover have "loop_work (jobs s') = loop_work (jobs s) + 4"
      using waiting_send(1) [OF schedule_hi(5)] schedule_hi(1) by (simp add: loop_work_def)
    ultimately show ?thesis
      using card_less [of n "fst ` set (handlers s)" "scheduled s"] schedule_hi(1,3) hs by (simp add: system_work_def)
  next
    case (schedule_lo n ctx pj q)
    have "scheduled s' = insert n (scheduled s)" "answered s' = answered s"
      using schedule_lo(1) by (simp_all add: scheduled_def answered_def)
    moreover have "n \<in> fst ` set (handlers s)" using schedule_lo(2) by force
    moreover have "loop_work (jobs s') = loop_work (jobs s) + 4"
      using waiting_send(2) [OF schedule_lo(5)] schedule_lo(1) by (simp add: loop_work_def)
    ultimately show ?thesis
      using card_less [of n "fst ` set (handlers s)" "scheduled s"] schedule_lo(1,3) hs by (simp add: system_work_def)
  next
    case (take d)
    with loop_work_take [OF take(2-5)] show ?thesis by (simp add: system_work_def scheduled_def answered_def)
  next
    case (execute n pj draw elapsed r)
    then show ?thesis by (simp add: system_work_def scheduled_def answered_def loop_work_def waiting_def)
  next
    case (reply n pj r)
    have "n \<in> fst ` set (handlers s)" using executed_handler [OF assms(2) reply(2)] by force
    then show ?thesis
      using card_less [of n "fst ` set (handlers s)" "answered s"] reply(1,3)
      by (simp add: system_work_def scheduled_def answered_def)
  qed
qed

text \<open>As long as a request is unanswered, the loop or a handler can go on.\<close>

lemma loop_can_take:
  assumes "loop_inv prio d" "waiting d \<noteq> 0" "\<forall>j. worker d \<noteq> Running j"
  shows "\<exists>d'. dispatch_step prio False d d' \<and> sentHi d' = sentHi d \<and> sentLo d' = sentLo d"
proof (cases "prio \<and> worker d = Polling")
  case True
  show ?thesis
  proof (cases "chan_recv (queueHi d)")
    case None
    with True dispatch_step.poll_default [of prio d False] show ?thesis by fastforce
  next
    case (Some jq)
    with True dispatch_step.poll_hi [of prio d "fst jq" "snd jq" False] show ?thesis by fastforce
  qed
next
  case False
  then have w: "worker d = (if prio then Blocked else Polling)"
    using assms(1,3) by (cases "worker d") (auto simp: loop_inv_def)
  show ?thesis
  proof (cases "chan_recv (queueHi d)")
    case (Some jq)
    with w dispatch_step.select_hi [of d prio "fst jq" "snd jq" False] show ?thesis by fastforce
  next
    case None
    with assms(2) obtain j q where "chan_recv (queueLo d) = Some (j, q)"
      by (cases "ch_buf (queueLo d)") (auto simp: waiting_def chan_recv_def split: list.splits)
    with w dispatch_step.select_lo [of d prio j q False] show ?thesis by fastforce
  qed
qed

lemma idle_executed:
  assumes "system_inv e triage p backend s" "waiting (jobs s) = 0" "\<forall>j. worker (jobs s) \<noteq> Running j" "n \<in> scheduled s"
  shows "\<exists>pj r. ((n, pj), r) \<in> set (executed s)"
proof -
  have "running (jobs s) = []" using assms(3) by (simp add: running_def split: worker.splits)
  then have "sentHi (jobs s) = filter prioritised (map fst (executed s))"
      "sentLo (jobs s) = filter (\<lambda>j. \<not> prioritised j) (map fst (executed s))"
    using loop_inv_sent [OF system_invD(1) [OF assms(1)]] assms(1,2) by (simp_all add: system_inv_def waiting_def)
  with assms(4) show ?thesis by (fastforce simp: scheduled_def)
qed

lemma idle_schedules:
  assumes "system_inv e triage p backend s" "waiting (jobs s) = 0" "(n, ctx, pj) \<in> set (handlers s)" "n \<notin> scheduled s"
  shows "\<exists>s'. serves e triage p backend s s'"
proof -
  have "ch_cap (queueHi (jobs s)) = 512" "ch_cap (queueLo (jobs s)) = 512"
    using system_invD(1) [OF assms(1)] by (simp_all add: loop_inv_def dispatch_inv_def)
  with assms(2) obtain hi lo where q: "chan_send (n, pj) (queueHi (jobs s)) = Some hi" "chan_send (n, pj) (queueLo (jobs s)) = Some lo"
    by (simp add: waiting_def chan_send_def)
  show ?thesis
    using system_step.schedule_hi [OF assms(3,4) _ q(1), of e triage p backend]
      system_step.schedule_lo [OF assms(3,4) _ q(2), of e triage p backend]
    unfolding serves_def by (cases "prioritised (n, pj)") fastforce+
qed

lemma serves_unless_answered:
  assumes inv: "system_inv e triage p backend s"
    and total: "\<And>n pj. \<exists>r. execProxyJob e p (backend n) draw elapsed pj = Ret r"
    and "\<not> all_answered s"
  shows "\<exists>s'. serves e triage p backend s s'"
proof (cases "\<exists>j. worker (jobs s) = Running j")
  case True
  then obtain n pj where w: "worker (jobs s) = Running (n, pj)" by (metis surj_pair)
  obtain r where "execProxyJob e p (backend n) draw elapsed pj = Ret r" using total by blast
  from system_step.execute [where backend = backend and triage = triage, OF w this] show ?thesis
    unfolding serves_def by fastforce
next
  case idle: False
  show ?thesis
  proof (cases "waiting (jobs s) = 0")
    case False
    with loop_can_take [OF system_invD(1) [OF inv] False] idle system_step.take [of p s _ e triage backend]
    show ?thesis unfolding serves_def by fastforce
  next
    case True
    obtain n ctx pj where n: "(n, ctx, pj) \<in> set (handlers s)" "\<forall>res. ((n, pj), res) \<notin> set (replies s)"
      using assms(3) unfolding all_answered_def by blast
    show ?thesis
    proof (cases "n \<in> scheduled s")
      case sent: True
      obtain pj' r where r: "((n, pj'), r) \<in> set (executed s)"
        using idle_executed [OF inv True _ sent] idle by blast
      have same: "pj' = pj" if x: "((n, pj'), r') \<in> set (executed s)" for pj' r'
        using executed_handler [OF inv x] eq_key_imp_eq_value [OF system_invD(5) [OF inv] _ n(1)] by blast
      have "n \<notin> answered s"
      proof
        assume "n \<in> answered s"
        then obtain pj2 res where res: "((n, pj2), res) \<in> set (replies s)" by (auto simp: answered_def)
        with system_invD(7) [OF inv] obtain r2 where "((n, pj2), r2) \<in> set (executed s)" by fastforce
        with same n(2) res show False by blast
      qed
      from system_step.reply [OF r this, of e triage p backend] show ?thesis unfolding serves_def by fastforce
    qed (use idle_schedules [OF inv True n(1)] in blast)
  qed
qed

lemma serves_inv: "serves e triage p backend s s' \<Longrightarrow> system_inv e triage p backend s \<Longrightarrow> system_inv e triage p backend s'"
  unfolding serves_def using system_inv_step by blast

lemma serves_many:
  "(serves e triage p backend ^^ k) s s' \<Longrightarrow> system_inv e triage p backend s \<Longrightarrow>
     system_inv e triage p backend s' \<and> system_work s' + k \<le> system_work s \<and> prefix (replies s) (replies s') \<and> handlers s' = handlers s"
proof (induction k arbitrary: s')
  case (Suc k)
  from Suc.prems(1) obtain s1 where s1: "(serves e triage p backend ^^ k) s s1" "serves e triage p backend s1 s'" by auto
  with Suc have "system_inv e triage p backend s1" "system_work s1 + k \<le> system_work s" "prefix (replies s) (replies s1)"
      "handlers s1 = handlers s" by auto
  with s1(2) serves_work [OF s1(2)] serves_inv [OF s1(2)] show ?case
    by (fastforce simp: serves_def intro: prefix_order.trans)
qed simp

lemma serves_to_end:
  assumes "system_inv e triage p backend s" "\<And>n pj. \<exists>r. execProxyJob e p (backend n) draw elapsed pj = Ret r"
  shows "\<exists>k s'. (serves e triage p backend ^^ k) s s' \<and> all_answered s'"
  using assms(1)
proof (induction "system_work s" arbitrary: s rule: less_induct)
  case less
  show ?case
  proof (cases "all_answered s")
    case False
    from serves_unless_answered [OF less.prems assms(2) this] obtain s1 where s1: "serves e triage p backend s s1" by blast
    from less.hyps [OF _ serves_inv [OF s1 less.prems]] serves_work [OF s1 less.prems] obtain k s'
      where "(serves e triage p backend ^^ k) s1 s'" "all_answered s'" by blast
    with s1 show ?thesis by (metis relpowp_Suc_I2)
  qed (metis relpowp_0_I)
qed

text \<open>
  C3: From every state an HTTP proxy can reach, whatever is queued, running or not yet queued, every handler
  gets its answer, if no further requests come: in whatever order loop and handlers go on, at most \<open>system_work\<close> of
  their steps are left; where none is possible, all requests are answered; and the answers given so far stay. This is
  for requests whose triage returned, and where no job panics: that nothing of go-ethereum panics on what is
  decoded for the log, if requests or responses are logged (the sanitizer has no \<open>recover\<close>), and that the injected
  latency, if chaos is enabled, is one that validation accepts. The backend may answer or fail in any way, in its time.
\<close>

theorem every_request_answered:
  assumes "system_run e triage p backend new_system s"
    and "log_ok e p" "latency_ok (Chaos (cfg p))"
  shows "(\<forall>k s'. (serves e triage p backend ^^ k) s s' \<longrightarrow>
       k \<le> system_work s \<and> prefix (replies s) (replies s') \<and> handlers s' = handlers s \<and>
       (all_answered s' \<or> (\<exists>s''. serves e triage p backend s' s''))) \<and>
    (\<exists>k s'. (serves e triage p backend ^^ k) s s' \<and> all_answered s')"
proof -
  note inv = system_inv_run [OF assms(1) system_inv_new]
  have total: "\<And>n pj. \<exists>r. execProxyJob e p (backend n) 0 0 pj = Ret r"
    by (rule execProxyJob_total [OF assms(2,3)])
  from serves_many [OF _ inv] serves_unless_answered [where backend = backend, OF _ total] serves_to_end [OF inv total]
  show ?thesis by (metis add_leD2)
qed

section \<open>A request on its way\<close>

definition demo_arrived :: "string proxy_system" where
  "demo_arrived = new_system\<lparr>handlers := [(7, demo_ctx ''null'',
     newProxyJob (demo_http no_chaos) (0, 0, 0) (zero_Request, AcquireResponse) (demo_ctx ''null''))]\<rparr>"

definition demo_triage :: "string http_request \<Rightarrow> Request \<times> Response \<Rightarrow> bool" where
  "demo_triage ctx triaged \<longleftrightarrow> triaged = (zero_Request, AcquireResponse)"

lemma demo_arrives: "system_run demo_env demo_triage (demo_http no_chaos) backend new_system demo_arrived"
proof -
  have "system_step demo_env demo_triage (demo_http no_chaos) backend new_system (new_system\<lparr>handlers := handlers new_system @
      [(7, demo_ctx ''null'', newProxyJob (demo_http no_chaos) (0, 0, 0) (zero_Request, AcquireResponse) (demo_ctx ''null''))]\<rparr>)"
    by (rule system_step.request) (simp_all add: new_system_def demo_triage_def)
  from system_run.further [OF system_run.here this] show ?thesis by (simp add: demo_arrived_def new_system_def)
qed

lemma demo_total: "log_ok demo_env (demo_http no_chaos)" "latency_ok (Chaos (cfg (demo_http no_chaos)))"
  using no_panic_demo by (simp_all add: log_ok_def latency_ok_def demo_env_def demo_http_def demo_config_def no_chaos_def)

lemma serves_run:
  "(serves e triage p backend ^^ k) s s' \<Longrightarrow> system_run e triage p backend s0 s \<Longrightarrow> system_run e triage p backend s0 s'"
proof (induction k arbitrary: s')
  case (Suc k)
  then show ?case unfolding serves_def by (auto intro: system_run.further)
qed simp

lemma demo_served:
  "\<exists>s pj res. system_run demo_env demo_triage (demo_http no_chaos) backend new_system s \<and> ((7, pj), res) \<in> set (replies s)"
proof -
  note inv = system_inv_run [OF demo_arrives system_inv_new]
  obtain k s where s: "(serves demo_env demo_triage (demo_http no_chaos) backend ^^ k) demo_arrived s" "all_answered s"
    using serves_to_end [OF inv execProxyJob_total [OF demo_total]] by blast
  have "(7, hd (map snd (handlers demo_arrived))) \<in> set (handlers s)"
    using serves_many [OF s(1) inv] by (simp add: demo_arrived_def)
  with s(2) serves_run [OF s(1) demo_arrives] show ?thesis by (metis all_answered_def surj_pair)
qed

definition demo_backend :: "nat \<Rightarrow> string backend" where
  "demo_backend n req res = (Some ''connection refused'', res)"

theorem replies_match_requests_witness:
  "\<exists>s pj res. system_run demo_env demo_triage (demo_http no_chaos) demo_backend new_system s \<and>
     ((7, pj), res) \<in> set (replies s) \<and> outcome_of demo_env (demo_http no_chaos) (demo_backend 7) pj res"
proof -
  obtain s pj res where s: "system_run demo_env demo_triage (demo_http no_chaos) demo_backend new_system s"
      "((7, pj), res) \<in> set (replies s)"
    using demo_served by blast
  with replies_match_requests [OF s(1)] show ?thesis by blast
qed

theorem every_request_answered_witness:
  "\<exists>k s pj res. (serves demo_env demo_triage (demo_http no_chaos) demo_backend ^^ k) demo_arrived s \<and> k \<le> 7 \<and>
     ((7, pj), res) \<in> set (replies s)"
proof -
  obtain k s where s: "(serves demo_env demo_triage (demo_http no_chaos) demo_backend ^^ k) demo_arrived s"
      "k \<le> system_work demo_arrived" "all_answered s" "handlers s = handlers demo_arrived"
    using every_request_answered [OF demo_arrives demo_total] by blast
  moreover have "system_work demo_arrived = 7"
    by (simp add: system_work_def loop_work_def demo_arrived_def new_system_def new_dispatch_def scheduled_def answered_def
        waiting_def make_chan_def)
  moreover have "(7, hd (map snd (handlers demo_arrived))) \<in> set (handlers s)" using s(4) by (simp add: demo_arrived_def)
  ultimately show ?thesis by (metis all_answered_def surj_pair)
qed

end
