(* ===== verification/Ws_Stop.thy ===== *)
theory Ws_Stop
  imports Ws_Pump
begin

text \<open>
  Stopping a websocket pump (\<open>stop\<close> and \<open>run\<close> of \<open>proxy/websocket_pump.go\<close> with the goroutines of
  \<open>pumpMessages\<close>): which pumps can still come to an end of all their seven goroutines, and how one of
  these may be left behind for ever.
\<close>

section \<open>One direction on its own\<close>

definition calm_step :: "(Flashblock \<Rightarrow> string) \<Rightarrow> 'tx eth_lib \<Rightarrow> websocketConfig \<Rightarrow> 'e pump_dir \<Rightarrow> 'e pump_dir \<Rightarrow> bool" where
  "calm_step marshal eth cfg d d' \<longleftrightarrow> (\<exists>es. dir_step marshal eth cfg d es d') \<and> writer d' \<noteq> Crashed"

lemma pump_run_lift:
  assumes "(calm_step marshal eth cfg)\<^sup>*\<^sup>* d0 d" "writer d0 \<noteq> Crashed"
    and put: "\<And>d q es d'. writer d \<noteq> Crashed \<Longrightarrow> dir_step marshal eth cfg d es d' \<Longrightarrow>
      pump_step marshal eth cfg (put d q) (put d' (notifyOnFailure es q))"
  shows "\<exists>q. pump_run marshal eth cfg (put d0 q0) (put d q)"
proof -
  from assms(1,2) have "(\<exists>q. pump_run marshal eth cfg (put d0 q0) (put d q)) \<and> writer d \<noteq> Crashed"
  proof (induction rule: rtranclp_induct)
    case (step d d')
    then obtain q es where q: "pump_run marshal eth cfg (put d0 q0) (put d q)" "dir_step marshal eth cfg d es d'"
        "writer d \<noteq> Crashed"
      by (auto simp: calm_step_def)
    from pump_run.more [OF q(1) put [OF q(3,2)]] step(2) show ?case by (auto simp: calm_step_def)
  qed (use pump_run.rest in blast)
  then show ?thesis by blast
qed

lemma pump_run_forward:
  assumes "(calm_step marshal eth cfg)\<^sup>*\<^sup>* (fwd p) d" "alive p"
  shows "\<exists>q. pump_run marshal eth cfg p (p\<lparr>fwd := d, failure := q\<rparr>)"
proof -
  have "pump_step marshal eth cfg (p\<lparr>fwd := d, failure := q\<rparr>) (p\<lparr>fwd := d', failure := notifyOnFailure es q\<rparr>)"
    if "writer d \<noteq> Crashed" "dir_step marshal eth cfg d es d'" for d q es d'
    using pump_step.forward [of "p\<lparr>fwd := d, failure := q\<rparr>" marshal eth cfg es d'] that assms(2) by (simp add: alive_def)
  from pump_run_lift [where put = "\<lambda>d q. p\<lparr>fwd := d, failure := q\<rparr>" and ?q0.0 = "failure p", OF assms(1) _ this] assms(2)
  show ?thesis by (simp add: alive_def)
qed

lemma pump_run_reverse:
  assumes "(calm_step marshal eth cfg)\<^sup>*\<^sup>* (rev_dir p) d" "alive p"
  shows "\<exists>q. pump_run marshal eth cfg p (p\<lparr>rev_dir := d, failure := q\<rparr>)"
proof -
  have "pump_step marshal eth cfg (p\<lparr>rev_dir := d, failure := q\<rparr>) (p\<lparr>rev_dir := d', failure := notifyOnFailure es q\<rparr>)"
    if "writer d \<noteq> Crashed" "dir_step marshal eth cfg d es d'" for d q es d'
    using pump_step.reverse [of "p\<lparr>rev_dir := d, failure := q\<rparr>" marshal eth cfg es d'] that assms(2) by (simp add: alive_def)
  from pump_run_lift [where put = "\<lambda>d q. p\<lparr>rev_dir := d, failure := q\<rparr>" and ?q0.0 = "failure p", OF assms(1) _ this] assms(2)
  show ?thesis by (simp add: alive_def)
qed

text \<open>The terminator, once told, tells the reader and the writer.\<close>

definition dir_caps :: "'e pump_dir \<Rightarrow> bool" where
  "dir_caps d \<longleftrightarrow> ch_cap (messages d) = 16 \<and> length (ch_buf (messages d)) \<le> 16 \<and> ch_cap (doneReads d) = 1 \<and>
     ch_cap (doneWrites d) = 1 \<and> ch_cap (doneIn d) = 1"

definition sig :: "unit channel" where
  "sig = \<lparr>ch_cap = 1, ch_buf = [()]\<rparr>"

definition quiet :: "unit channel" where
  "quiet = \<lparr>ch_cap = 1, ch_buf = []\<rparr>"

lemma sig_quiet [simp]: "chan_recv sig = Some ((), quiet)" "chan_send () quiet = Some sig" "chan_recv quiet = None"
  by (simp_all add: sig_def quiet_def chan_recv_def chan_send_def)

definition told :: "'e pump_dir \<Rightarrow> 'e pump_dir" where
  "told d = d\<lparr>doneIn := quiet, doneReads := sig, doneWrites := sig, terminator := TerminatorDone\<rparr>"

lemma dir_is_told:
  assumes "terminator d = AwaitDone" "doneIn d = sig" "doneReads d = quiet" "doneWrites d = quiet" "writer d = Selecting"
  shows "(calm_step marshal eth cfg)\<^sup>*\<^sup>* d (told d)"
proof -
  let ?d1 = "d\<lparr>doneIn := quiet, terminator := StopReads\<rparr>"
  let ?d2 = "?d1\<lparr>doneReads := sig, terminator := StopWrites\<rparr>"
  have "calm_step marshal eth cfg d ?d1"
    unfolding calm_step_def using dir_step.term_await [of d "()" quiet marshal eth cfg] assms by auto
  moreover have "calm_step marshal eth cfg ?d1 ?d2"
    unfolding calm_step_def using dir_step.term_reads [of ?d1 sig marshal eth cfg] assms by auto
  moreover have "calm_step marshal eth cfg ?d2 (told d)"
    unfolding calm_step_def using dir_step.term_writes [of ?d2 sig marshal eth cfg] assms by (auto simp: told_def)
  ultimately show ?thesis by (meson converse_rtranclp_into_rtranclp rtranclp.rtrancl_refl)
qed

text \<open>Without chaos, a direction that is told can end: its reader, in whatever it is, and its writer.\<close>

definition ended :: "'e pump_dir \<Rightarrow> bool" where
  "ended d \<longleftrightarrow> reader d = ReaderDone \<and> writer d = WriterDone \<and> terminator d = TerminatorDone"

lemma calm_hand:
  assumes "chan_send m (messages d) = Some q" "reader d = Handing m" "writer d = Selecting"
  shows "calm_step marshal eth cfg d (d\<lparr>messages := q, reader := Checking\<rparr>)"
  unfolding calm_step_def using dir_step.read_hand [OF assms(2,1)] assms(3) by auto

lemma reader_hands_over:
  assumes "reader d = Handing m" "writer d = Selecting" "dir_caps d" "\<not> WsEnabled (WsChaos cfg)"
  shows "\<exists>d'. (calm_step marshal eth cfg)\<^sup>*\<^sup>* d d' \<and> reader d' = Checking \<and> writer d' = Selecting \<and>
    terminator d' = terminator d \<and> doneReads d' = doneReads d \<and> doneWrites d' = doneWrites d"
proof (cases "chan_send m (messages d)")
  case (Some q)
  from calm_hand [OF this assms(1,2)] show ?thesis using assms(2)
    by (intro exI [of _ "d\<lparr>messages := q, reader := Checking\<rparr>"]) auto
next
  case None
  then obtain m0 ms where full: "ch_buf (messages d) = m0 # ms" "length ms < 16"
    using assms(3) by (cases "ch_buf (messages d)") (auto simp: chan_send_def dir_caps_def split: if_splits)
  let ?q = "(messages d)\<lparr>ch_buf := ms\<rparr>"
  have recv: "chan_recv (messages d) = Some (m0, ?q)" using full by (simp add: chan_recv_def)
  obtain dr where "inject_chaos marshal (WsChaos cfg) dr m0 = Ret (Some m0)" using no_chaos_passes [OF assms(4)] by blast
  note w = dir_step.write_failure [OF assms(2) recv this]
  let ?d1 = "d\<lparr>messages := ?q, handled := handled d @ [(m0, WriteFailed undefined)]\<rparr>"
  have c1: "calm_step marshal eth cfg d ?d1" unfolding calm_step_def using w assms(2) by auto
  let ?q' = "?q\<lparr>ch_buf := ms @ [m]\<rparr>"
  have send: "chan_send m (messages ?d1) = Some ?q'" using full assms(3) by (simp add: chan_send_def dir_caps_def)
  have "calm_step marshal eth cfg ?d1 (?d1\<lparr>messages := ?q', reader := Checking\<rparr>)"
    by (rule calm_hand [OF send]) (simp_all add: assms(1,2))
  with c1 have "(calm_step marshal eth cfg)\<^sup>*\<^sup>* d (?d1\<lparr>messages := ?q', reader := Checking\<rparr>)" by auto
  then show ?thesis using assms(2) by (intro exI [of _ "?d1\<lparr>messages := ?q', reader := Checking\<rparr>"]) simp
qed

text \<open>
  What holds of a direction and its signals at any time: the terminator passes its one signal on to the
  reader and to the writer, neither of which loses it.
\<close>

definition stuck :: "websocketMessage \<Rightarrow> 'e pump_dir \<Rightarrow> bool" where
  \<comment> \<open>a reader with a message in hand, and no room for it, after the writer has ended\<close>
  "stuck m d \<longleftrightarrow> reader d = Handing m \<and> writer d = WriterDone \<and> ch_cap (messages d) \<le> length (ch_buf (messages d))"

definition signalled :: "'e pump_dir \<Rightarrow> bool" where
  "signalled d \<longleftrightarrow> ch_buf (doneIn d) \<noteq> [] \<or> terminator d \<noteq> AwaitDone"

definition chain :: "'e pump_dir \<Rightarrow> bool" where
  "chain d \<longleftrightarrow> dir_caps d \<and> length (ch_buf (doneIn d)) \<le> 1 \<and> length (ch_buf (doneReads d)) \<le> 1 \<and> length (ch_buf (doneWrites d)) \<le> 1 \<and>
     (terminator d \<noteq> AwaitDone \<longrightarrow> ch_buf (doneIn d) = []) \<and>
     (terminator d \<in> {AwaitDone, StopReads} \<longrightarrow> ch_buf (doneReads d) = []) \<and>
     (terminator d \<noteq> TerminatorDone \<longrightarrow> ch_buf (doneWrites d) = [] \<and> writer d \<noteq> WriterDone) \<and>
     (terminator d \<in> {StopWrites, TerminatorDone} \<and> ch_buf (doneReads d) = [] \<longrightarrow> reader d = ReaderDone) \<and>
     (terminator d = TerminatorDone \<and> ch_buf (doneWrites d) = [] \<longrightarrow> writer d \<noteq> Selecting)"

lemma dir_caps_step: "dir_step marshal eth cfg d es d' \<Longrightarrow> dir_caps d \<Longrightarrow> dir_caps d'"
  by (induction rule: dir_step.induct) (auto simp: dir_caps_def dest!: ch.try_send_SomeD ch.recv_SomeD)

lemma chain_step: "dir_step marshal eth cfg d es d' \<Longrightarrow> chain d \<Longrightarrow> chain d'"
proof -
  assume s: "dir_step marshal eth cfg d es d'" and c: "chain d"
  from s c have "length (ch_buf (doneIn d')) \<le> 1 \<and> length (ch_buf (doneReads d')) \<le> 1 \<and> length (ch_buf (doneWrites d')) \<le> 1 \<and>
     (terminator d' \<noteq> AwaitDone \<longrightarrow> ch_buf (doneIn d') = []) \<and>
     (terminator d' \<in> {AwaitDone, StopReads} \<longrightarrow> ch_buf (doneReads d') = []) \<and>
     (terminator d' \<noteq> TerminatorDone \<longrightarrow> ch_buf (doneWrites d') = [] \<and> writer d' \<noteq> WriterDone) \<and>
     (terminator d' \<in> {StopWrites, TerminatorDone} \<and> ch_buf (doneReads d') = [] \<longrightarrow> reader d' = ReaderDone) \<and>
     (terminator d' = TerminatorDone \<and> ch_buf (doneWrites d') = [] \<longrightarrow> writer d' \<noteq> Selecting)"
    by (induction rule: dir_step.induct) (auto simp: chain_def dir_caps_def dest!: ch.try_send_SomeD ch.recv_SomeD)
  with dir_caps_step [OF s] c show ?thesis by (simp add: chain_def)
qed

lemma signalled_step: "dir_step marshal eth cfg d es d' \<Longrightarrow> signalled d' = signalled d"
  by (induction rule: dir_step.induct) (auto simp: signalled_def dest!: ch.try_send_SomeD ch.recv_SomeD)

lemma chain_signal: "chain d \<Longrightarrow> \<not> signalled d \<Longrightarrow> chan_send () (doneIn d) = Some q \<Longrightarrow> chain (d\<lparr>doneIn := q\<rparr>) \<and> signalled (d\<lparr>doneIn := q\<rparr>)"
  by (auto simp: chain_def signalled_def dir_caps_def dest!: ch.try_send_SomeD)

lemma untold_chain: "untold d \<Longrightarrow> dir_caps d \<Longrightarrow> chain d \<and> \<not> signalled d"
  by (auto simp: untold_def chain_def signalled_def)

lemma chain_untold: "chain d \<Longrightarrow> \<not> signalled d \<Longrightarrow> untold d"
  by (auto simp: untold_def chain_def signalled_def)

lemma chain_caps: "chain d \<Longrightarrow> dir_caps d"
  by (simp add: chain_def)

lemma chain_room: "chain d \<Longrightarrow> \<not> signalled d \<Longrightarrow> \<exists>q. chan_send () (doneIn d) = Some q"
  by (simp add: chain_def signalled_def dir_caps_def chan_send_def)

text \<open>The terminator of a signalled direction goes its way; reader and writer stay as they are.\<close>

lemma term_step_ends:
  assumes "chain d" "signalled d" "terminator d \<noteq> TerminatorDone" "writer d \<noteq> Crashed"
  shows "\<exists>d'. calm_step marshal eth cfg d d' \<and> reader d' = reader d \<and> writer d' = writer d \<and> messages d' = messages d \<and>
    terminator d' = (if terminator d = AwaitDone then StopReads else if terminator d = StopReads then StopWrites else TerminatorDone)"
proof (cases "terminator d")
  case AwaitDone
  with assms obtain u us where "ch_buf (doneIn d) = u # us" by (cases "ch_buf (doneIn d)") (auto simp: signalled_def)
  from ch.recv_law [OF this] obtain q where "chan_recv (doneIn d) = Some (u, q)" by blast
  from dir_step.term_await [OF AwaitDone this, of marshal eth cfg] show ?thesis
    using AwaitDone assms(4) by (intro exI [of _ "d\<lparr>doneIn := q, terminator := StopReads\<rparr>"]) (auto simp: calm_step_def)
next
  case StopReads
  with assms obtain q where "chan_send () (doneReads d) = Some q"
    using ch.send_law [of "doneReads d" "()"] by (auto simp: chain_def dir_caps_def)
  from dir_step.term_reads [OF StopReads this, of marshal eth cfg] show ?thesis
    using StopReads assms(4) by (intro exI [of _ "d\<lparr>doneReads := q, terminator := StopWrites\<rparr>"]) (auto simp: calm_step_def)
next
  case StopWrites
  with assms obtain q where "chan_send () (doneWrites d) = Some q"
    using ch.send_law [of "doneWrites d" "()"] by (auto simp: chain_def dir_caps_def)
  from dir_step.term_writes [OF StopWrites this, of marshal eth cfg] show ?thesis
    using StopWrites assms(4) by (intro exI [of _ "d\<lparr>doneWrites := q, terminator := TerminatorDone\<rparr>"]) (auto simp: calm_step_def)
qed (use assms(3) in simp)

lemma calm_chain: "calm_step marshal eth cfg d d' \<Longrightarrow> chain d \<Longrightarrow> signalled d \<Longrightarrow> chain d' \<and> signalled d' \<and> writer d' \<noteq> Crashed"
  by (auto simp: calm_step_def chain_step signalled_step)

lemma calm_chains: "(calm_step marshal eth cfg)\<^sup>*\<^sup>* d d' \<Longrightarrow> chain d \<Longrightarrow> signalled d \<Longrightarrow> writer d \<noteq> Crashed \<Longrightarrow>
    chain d' \<and> signalled d' \<and> writer d' \<noteq> Crashed"
  by (induction rule: rtranclp_induct) (use calm_chain in blast)+

fun term_left :: "terminator \<Rightarrow> nat" where
  "term_left AwaitDone = 3" | "term_left StopReads = 2" | "term_left StopWrites = 1" | "term_left TerminatorDone = 0"

lemma terminator_ends:
  "chain d \<Longrightarrow> signalled d \<Longrightarrow> writer d \<noteq> Crashed \<Longrightarrow> \<exists>d'. (calm_step marshal eth cfg)\<^sup>*\<^sup>* d d' \<and> terminator d' = TerminatorDone \<and>
     reader d' = reader d \<and> writer d' = writer d \<and> messages d' = messages d"
proof (induction "term_left (terminator d)" arbitrary: d rule: less_induct)
  case less
  show ?case
  proof (cases "terminator d = TerminatorDone")
    case False
    from term_step_ends [OF less.prems(1,2) this less.prems(3), of marshal eth cfg] obtain d1 where d1: "calm_step marshal eth cfg d d1"
        "reader d1 = reader d" "writer d1 = writer d" "messages d1 = messages d"
        "terminator d1 = (if terminator d = AwaitDone then StopReads else if terminator d = StopReads then StopWrites else TerminatorDone)"
      by blast
    have "term_left (terminator d1) < term_left (terminator d)" using False d1(5) by (cases "terminator d") simp_all
    from less.hyps [OF this] calm_chain [OF d1(1) less.prems(1,2)] obtain d2 where "(calm_step marshal eth cfg)\<^sup>*\<^sup>* d1 d2"
        "terminator d2 = TerminatorDone" "reader d2 = reader d1" "writer d2 = writer d1" "messages d2 = messages d1"
      by blast
    with d1 show ?thesis by (metis converse_rtranclp_into_rtranclp)
  qed blast
qed

text \<open>A signalled direction can end, unless its reader is stuck; without chaos, as far as the reader has a message in hand.\<close>

lemma hand_ends:
  assumes "chain d" "signalled d" "terminator d = TerminatorDone" "writer d \<noteq> Crashed"
    and "\<And>m. reader d = Handing m \<Longrightarrow> \<not> WsEnabled (WsChaos cfg) \<and> \<not> stuck m d"
  shows "\<exists>d'. (calm_step marshal eth cfg)\<^sup>*\<^sup>* d d' \<and> terminator d' = TerminatorDone \<and> (\<forall>m. reader d' \<noteq> Handing m)"
proof (cases "reader d")
  case (Handing m)
  note h = assms(5) [OF Handing]
  show ?thesis
  proof (cases "writer d")
    case Selecting
    from reader_hands_over [OF Handing Selecting _ conjunct1 [OF h], of marshal eth] assms(1,3)
    show ?thesis by (fastforce simp: chain_def)
  next
    case WriterDone
    with h Handing obtain q where "chan_send m (messages d) = Some q"
      using ch.send_law [of "messages d" m] by (auto simp: stuck_def)
    from dir_step.read_hand [OF Handing this, of marshal eth cfg] assms(3,4)
    show ?thesis by (intro exI [of _ "d\<lparr>messages := q, reader := Checking\<rparr>"]) (auto simp: calm_step_def intro!: r_into_rtranclp)
  qed (use assms(4) in simp)
qed (use assms(3) in auto)

lemma reader_ends:
  assumes "chain d" "terminator d = TerminatorDone" "writer d \<noteq> Crashed" "\<forall>m. reader d \<noteq> Handing m"
  shows "\<exists>d'. (calm_step marshal eth cfg)\<^sup>*\<^sup>* d d' \<and> terminator d' = TerminatorDone \<and> reader d' = ReaderDone"
proof (cases "reader d")
  case Checking
  with assms obtain u us where "ch_buf (doneReads d) = u # us" by (cases "ch_buf (doneReads d)") (auto simp: chain_def)
  from ch.recv_law [OF this] obtain q where "chan_recv (doneReads d) = Some (u, q)" by blast
  from dir_step.read_stop [OF Checking this, of marshal eth cfg] assms(2,3)
  show ?thesis by (intro exI [of _ "d\<lparr>doneReads := q, reader := ReaderDone\<rparr>"]) (auto simp: calm_step_def intro!: r_into_rtranclp)
next
  case Reading
  from dir_step.read_failure [OF Reading, of marshal eth cfg undefined] assms(2,3)
  show ?thesis by (intro exI [of _ "d\<lparr>reader := ReaderDone\<rparr>"]) (auto simp: calm_step_def intro!: r_into_rtranclp)
qed (use assms in auto)

lemma writer_ends:
  assumes "chain d" "terminator d = TerminatorDone" "writer d \<noteq> Crashed" "reader d = ReaderDone"
  shows "\<exists>d'. (calm_step marshal eth cfg)\<^sup>*\<^sup>* d d' \<and> ended d'"
proof (cases "writer d")
  case Selecting
  with assms obtain u us where "ch_buf (doneWrites d) = u # us" by (cases "ch_buf (doneWrites d)") (auto simp: chain_def)
  from ch.recv_law [OF this] obtain q where "chan_recv (doneWrites d) = Some (u, q)" by blast
  from dir_step.write_stop [OF Selecting this, of marshal eth cfg] assms(2,4)
  show ?thesis by (intro exI [of _ "d\<lparr>doneWrites := q, writer := WriterDone\<rparr>"]) (auto simp: calm_step_def ended_def intro!: r_into_rtranclp)
qed (use assms in \<open>auto simp: ended_def\<close>)

lemma signalled_ends:
  assumes "chain d" "signalled d" "writer d \<noteq> Crashed" "\<And>m. reader d = Handing m \<Longrightarrow> \<not> WsEnabled (WsChaos cfg) \<and> \<not> stuck m d"
  shows "\<exists>d'. (calm_step marshal eth cfg)\<^sup>*\<^sup>* d d' \<and> ended d'"
proof -
  obtain d1 where d1: "(calm_step marshal eth cfg)\<^sup>*\<^sup>* d d1" "terminator d1 = TerminatorDone"
      "reader d1 = reader d" "writer d1 = writer d" "messages d1 = messages d"
    using terminator_ends [OF assms(1-3), of marshal eth cfg] by blast
  have c1: "chain d1" "signalled d1" "writer d1 \<noteq> Crashed" using calm_chains [OF d1(1) assms(1-3)] by simp_all
  have free: "\<And>m. reader d1 = Handing m \<Longrightarrow> \<not> WsEnabled (WsChaos cfg) \<and> \<not> stuck m d1" using assms(4) d1(3-5) by (simp add: stuck_def)
  obtain d2 where d2: "(calm_step marshal eth cfg)\<^sup>*\<^sup>* d1 d2" "terminator d2 = TerminatorDone" "\<forall>m. reader d2 \<noteq> Handing m"
    using hand_ends [OF c1(1,2) d1(2) c1(3) free, of marshal eth] by blast
  have c2: "chain d2" "signalled d2" "writer d2 \<noteq> Crashed" using calm_chains [OF d2(1) c1] by simp_all
  obtain d3 where d3: "(calm_step marshal eth cfg)\<^sup>*\<^sup>* d2 d3" "terminator d3 = TerminatorDone" "reader d3 = ReaderDone"
    using reader_ends [OF c2(1) d2(2) c2(3) d2(3), of marshal eth cfg] by blast
  obtain d4 where "(calm_step marshal eth cfg)\<^sup>*\<^sup>* d3 d4" "ended d4"
    using writer_ends [OF _ d3(2) _ d3(3), of marshal eth cfg] calm_chains [OF d3(1) c2] by blast
  with d1(1) d2(1) d3(1) show ?thesis by (meson rtranclp_trans)
qed

section \<open>The pump told to stop\<close>

definition gave_up :: "'e pump \<Rightarrow> bool" where
  \<comment> \<open>\<open>run\<close> left its loop because of a failure\<close>
  "gave_up p \<longleftrightarrow> active p \<and> (\<exists>es. runner p = Exhausting es \<or> runner p = Returned es)"

definition stop_inv :: "'e pump \<Rightarrow> bool" where
  "stop_inv p \<longleftrightarrow> chain (fwd p) \<and> chain (rev_dir p) \<and> ch_cap (stop_chan p) = 1 \<and> length (ch_buf (stop_chan p)) \<le> 1 \<and>
     (runner p = Waiting \<longrightarrow> active p) \<and> (active p \<longrightarrow> \<not> signalled (fwd p) \<and> \<not> signalled (rev_dir p)) \<and>
     (case runner p of
        Starting \<Rightarrow> \<not> active p \<and> \<not> signalled (fwd p) \<and> \<not> signalled (rev_dir p)
      | Waiting \<Rightarrow> True
      | NotifyForward \<Rightarrow> \<not> active p \<and> \<not> signalled (fwd p) \<and> \<not> signalled (rev_dir p)
      | NotifyReverse \<Rightarrow> \<not> active p \<and> signalled (fwd p) \<and> \<not> signalled (rev_dir p)
      | _ \<Rightarrow> active p \<or> signalled (fwd p) \<and> signalled (rev_dir p))"

lemma stop_inv_step: "pump_step marshal eth cfg p p' \<Longrightarrow> stop_inv p \<Longrightarrow> stop_inv p'"
  by (induction rule: pump_step.induct)
    (auto simp: stop_inv_def chain_step signalled_step chain_signal split: runner.splits dest: ch.try_send_SomeD ch.recv_SomeD)

lemma stop_inv_reached: "pump_run marshal eth cfg p p' \<Longrightarrow> stop_inv p \<Longrightarrow> stop_inv p'"
  by (induction rule: pump_run.induct) (auto dest: stop_inv_step)

lemma stop_inv_new: "stop_inv newWebsocketPump"
  by (simp add: stop_inv_def newWebsocketPump_def chain_def signalled_def dir_caps_def new_dir_def make_chan_def)

lemma untold_channels:
  assumes "untold d" "dir_caps d" "writer d \<noteq> Crashed"
  shows "terminator d = AwaitDone \<and> doneIn d = quiet \<and> doneReads d = quiet \<and> doneWrites d = quiet \<and> writer d = Selecting"
  using assms by (cases "writer d") (auto simp: untold_def dir_caps_def quiet_def)

lemma pump_exhausts:
  "alive p \<Longrightarrow> runner p = Exhausting es \<Longrightarrow> \<exists>es' q. pump_run marshal eth cfg p (p\<lparr>failure := q, runner := Returned es'\<rparr>)"
proof (induction "ch_buf (failure p)" arbitrary: p es)
  case Nil
  then have "pump_step marshal eth cfg p (p\<lparr>runner := Returned es\<rparr>)"
    by (intro pump_step.run_return) (simp_all add: chan_recv_def)
  from pump_run_step [OF this pump_run.rest] show ?case by (intro exI [of _ es] exI [of _ "failure p"]) simp
next
  case (Cons e q)
  let ?p1 = "p\<lparr>failure := (failure p)\<lparr>ch_buf := q\<rparr>, runner := Exhausting (es @ [e])\<rparr>"
  have s: "pump_step marshal eth cfg p ?p1"
    using Cons(2) by (intro pump_step.run_exhaust [OF Cons(3,4)]) (simp add: chan_recv_def flip: Cons(2))
  have "\<exists>es' q. pump_run marshal eth cfg ?p1 (?p1\<lparr>failure := q, runner := Returned es'\<rparr>)"
    using Cons(1) [of ?p1 "es @ [e]"] Cons(3) by (simp add: alive_def)
  then obtain es' q' where "pump_run marshal eth cfg ?p1 (?p1\<lparr>failure := q', runner := Returned es'\<rparr>)" by blast
  from pump_run_step [OF s this] show ?case by (intro exI [of _ es'] exI [of _ q']) simp
qed

lemma pump_tells:
  assumes "stop_inv p" "alive p" "runner p = Waiting"
  shows "\<exists>es q. pump_run marshal eth cfg p (p\<lparr>stop_chan := quiet, active := False, fwd := (fwd p)\<lparr>doneIn := sig\<rparr>,
    rev_dir := (rev_dir p)\<lparr>doneIn := sig\<rparr>, failure := q, runner := Returned es\<rparr>)"
proof -
  have inv: "chain (fwd p)" "\<not> signalled (fwd p)" "chain (rev_dir p)" "\<not> signalled (rev_dir p)"
    using assms by (simp_all add: stop_inv_def)
  have un: "untold (fwd p)" "untold (rev_dir p)" "dir_caps (fwd p)" "dir_caps (rev_dir p)"
    using inv by (simp_all add: chain_untold chain_caps)
  have in_f: "doneIn (fwd p) = quiet" and in_r: "doneIn (rev_dir p) = quiet"
    using untold_channels [OF un(1,3)] untold_channels [OF un(2,4)] assms(2) by (simp_all add: alive_def)
  let ?p0 = "p\<lparr>stop_chan := sig\<rparr>"
  have r0: "pump_run marshal eth cfg p ?p0"
  proof (cases "ch_buf (stop_chan p)")
    case Nil
    with assms have "stop_chan p = quiet" by (simp add: stop_inv_def quiet_def)
    then have "pump_step marshal eth cfg p ?p0"
      using assms by (intro pump_step.stop_request) (simp_all add: stop_inv_def)
    then show ?thesis by (rule pump_run_step [OF _ pump_run.rest])
  next
    case (Cons u us)
    with assms have "stop_chan p = sig" by (simp add: stop_inv_def sig_def)
    then have "?p0 = p" by (cases p) simp
    then show ?thesis using pump_run.rest by simp
  qed
  let ?p1 = "p\<lparr>stop_chan := quiet, active := False, runner := NotifyForward\<rparr>"
  have "pump_step marshal eth cfg ?p0 ?p1"
    using pump_step.run_done [of ?p0 "()" quiet marshal eth cfg] assms(2,3) by (simp add: alive_def)
  note r1 = pump_run.more [OF r0 this]
  let ?p2 = "p\<lparr>stop_chan := quiet, active := False, fwd := (fwd p)\<lparr>doneIn := sig\<rparr>, runner := NotifyReverse\<rparr>"
  have "pump_step marshal eth cfg ?p1 ?p2"
    using pump_step.run_notify_forward [of ?p1 sig marshal eth cfg] assms(2) in_f by (simp add: alive_def)
  note r2 = pump_run.more [OF r1 this]
  let ?p3 = "p\<lparr>stop_chan := quiet, active := False, fwd := (fwd p)\<lparr>doneIn := sig\<rparr>,
    rev_dir := (rev_dir p)\<lparr>doneIn := sig\<rparr>, runner := Exhausting []\<rparr>"
  have "pump_step marshal eth cfg ?p2 ?p3"
    using pump_step.run_notify_reverse [of ?p2 sig marshal eth cfg] assms(2) in_r by (simp add: alive_def)
  note r3 = pump_run.more [OF r2 this]
  obtain es q where "pump_run marshal eth cfg ?p3 (?p3\<lparr>failure := q, runner := Returned es\<rparr>)"
    using pump_exhausts [of ?p3 "[]" marshal eth cfg] assms(2) by (auto simp: alive_def)
  from pump_run_trans [OF this r3] show ?thesis by (intro exI [of _ es] exI [of _ q]) simp
qed

text \<open>\<open>run\<close> can go on to its return from anywhere; the directions only get their signals.\<close>

definition same_dirs :: "'e pump \<Rightarrow> 'e pump \<Rightarrow> bool" where
  "same_dirs p p' \<longleftrightarrow> (\<exists>q q'. fwd p' = (fwd p)\<lparr>doneIn := q\<rparr> \<and> rev_dir p' = (rev_dir p)\<lparr>doneIn := q'\<rparr>)"

lemma same_dirs_refl: "fwd p' = fwd p \<Longrightarrow> rev_dir p' = rev_dir p \<Longrightarrow> same_dirs p p'"
  unfolding same_dirs_def by (intro exI [of _ "doneIn (fwd p)"] exI [of _ "doneIn (rev_dir p)"]) simp

lemma same_dirs_alive: "same_dirs p p' \<Longrightarrow> alive p' = alive p"
  by (auto simp: same_dirs_def alive_def)

definition returns :: "(Flashblock \<Rightarrow> string) \<Rightarrow> 'tx eth_lib \<Rightarrow> websocketConfig \<Rightarrow> 'e pump \<Rightarrow> bool" where
  "returns marshal eth cfg p \<longleftrightarrow> (\<exists>p' es. pump_run marshal eth cfg p p' \<and> same_dirs p p' \<and> runner p' = Returned es \<and> \<not> active p')"

lemma returns_step: "pump_step marshal eth cfg p p1 \<Longrightarrow> same_dirs p p1 \<Longrightarrow> returns marshal eth cfg p1 \<Longrightarrow> returns marshal eth cfg p"
  unfolding returns_def same_dirs_def using pump_run_step by fastforce

lemma exhausting_returns: "alive p \<Longrightarrow> runner p = Exhausting es \<Longrightarrow> \<not> active p \<Longrightarrow> returns marshal eth cfg p"
proof -
  assume a: "alive p" "runner p = Exhausting es" "\<not> active p"
  obtain es' q where "pump_run marshal eth cfg p (p\<lparr>failure := q, runner := Returned es'\<rparr>)"
    using pump_exhausts [OF a(1,2), of marshal eth cfg] by blast
  with a(3) show ?thesis unfolding returns_def by (fastforce intro: same_dirs_refl)
qed

lemma reverse_returns: "stop_inv p \<Longrightarrow> alive p \<Longrightarrow> runner p = NotifyReverse \<Longrightarrow> returns marshal eth cfg p"
proof -
  assume a: "stop_inv p" "alive p" "runner p = NotifyReverse"
  then obtain q where q: "chan_send () (doneIn (rev_dir p)) = Some q"
    using chain_room [of "rev_dir p"] by (auto simp: stop_inv_def)
  let ?p1 = "p\<lparr>rev_dir := (rev_dir p)\<lparr>doneIn := q\<rparr>, runner := Exhausting []\<rparr>"
  have d: "same_dirs p ?p1" unfolding same_dirs_def by (intro exI [of _ "doneIn (fwd p)"] exI [of _ q]) simp
  have "returns marshal eth cfg ?p1"
    by (rule exhausting_returns) (use a same_dirs_alive [OF d] in \<open>simp_all add: stop_inv_def\<close>)
  with pump_step.run_notify_reverse [OF a(2,3) q] d show ?thesis by (rule returns_step)
qed

lemma forward_returns: "stop_inv p \<Longrightarrow> alive p \<Longrightarrow> runner p = NotifyForward \<Longrightarrow> returns marshal eth cfg p"
proof -
  assume a: "stop_inv p" "alive p" "runner p = NotifyForward"
  then obtain q where q: "chan_send () (doneIn (fwd p)) = Some q"
    using chain_room [of "fwd p"] by (auto simp: stop_inv_def)
  let ?p1 = "p\<lparr>fwd := (fwd p)\<lparr>doneIn := q\<rparr>, runner := NotifyReverse\<rparr>"
  have s: "pump_step marshal eth cfg p ?p1" by (rule pump_step.run_notify_forward [OF a(2,3) q])
  have d: "same_dirs p ?p1" unfolding same_dirs_def by (intro exI [of _ q] exI [of _ "doneIn (rev_dir p)"]) simp
  show ?thesis
    by (rule returns_step [OF s d reverse_returns])
      (use stop_inv_step [OF s a(1)] same_dirs_alive [OF d] a(2) in simp_all)
qed

lemma waiting_returns: "stop_inv p \<Longrightarrow> alive p \<Longrightarrow> runner p = Waiting \<Longrightarrow> returns marshal eth cfg p"
proof -
  assume a: "stop_inv p" "alive p" "runner p = Waiting"
  have told: "returns marshal eth cfg p0" if "stop_inv p0" "alive p0" "runner p0 = Waiting" "ch_buf (stop_chan p0) = u # us" for p0 u us
  proof -
    from ch.recv_law [OF that(4)] obtain q where q: "chan_recv (stop_chan p0) = Some (u, q)" by blast
    have s: "pump_step marshal eth cfg p0 (p0\<lparr>stop_chan := q, active := False, runner := NotifyForward\<rparr>)"
      by (rule pump_step.run_done [OF that(2,3) q])
    have d: "same_dirs p0 (p0\<lparr>stop_chan := q, active := False, runner := NotifyForward\<rparr>)" by (rule same_dirs_refl) simp_all
    show ?thesis
      by (rule returns_step [OF s d forward_returns])
        (use stop_inv_step [OF s that(1)] same_dirs_alive [OF d] that(2) in simp_all)
  qed
  show ?thesis
  proof (cases "ch_buf (stop_chan p)")
    case Nil
    then obtain q where q: "chan_send () (stop_chan p) = Some q" "ch_buf q = [()]"
      using ch.send_law [of "stop_chan p" "()"] a(1) by (auto simp: stop_inv_def)
    have s: "pump_step marshal eth cfg p (p\<lparr>stop_chan := q\<rparr>)"
      using pump_step.stop_request [OF a(2) _ q(1)] a(1,3) by (simp add: stop_inv_def)
    have d: "same_dirs p (p\<lparr>stop_chan := q\<rparr>)" by (rule same_dirs_refl) simp_all
    show ?thesis
      by (rule returns_step [OF s d told]) (use stop_inv_step [OF s a(1)] same_dirs_alive [OF d] a(2,3) q(2) in simp_all)
  qed (use told [OF a] in blast)
qed

lemma pump_returns:
  assumes "stop_inv p" "alive p" "\<not> gave_up p"
  shows "returns marshal eth cfg p"
proof (cases "runner p")
  case Starting
  have s: "pump_step marshal eth cfg p (p\<lparr>active := True, runner := Waiting\<rparr>)" by (rule pump_step.start [OF assms(2) Starting])
  have d: "same_dirs p (p\<lparr>active := True, runner := Waiting\<rparr>)" by (rule same_dirs_refl) simp_all
  show ?thesis
    by (rule returns_step [OF s d waiting_returns]) (use stop_inv_step [OF s assms(1)] same_dirs_alive [OF d] assms(2) in simp_all)
next
  case (Exhausting es)
  show ?thesis by (rule exhausting_returns [OF assms(2) Exhausting]) (use assms(3) Exhausting in \<open>simp add: gave_up_def\<close>)
next
  case (Returned es)
  then show ?thesis using assms(3) pump_run.rest same_dirs_refl unfolding returns_def gave_up_def by blast
qed (use assms waiting_returns forward_returns reverse_returns in blast)+

text \<open>What rules an end out stays.\<close>

lemma stuck_step: "dir_step marshal eth cfg d es d' \<Longrightarrow> stuck m d \<Longrightarrow> stuck m d'"
  by (induction rule: dir_step.induct) (auto simp: stuck_def chan_send_def)

lemma stuck_run:
  "pump_run marshal eth cfg p p' \<Longrightarrow> stuck m (fwd p) \<Longrightarrow> stuck m (fwd p')"
  "pump_run marshal eth cfg p p' \<Longrightarrow> stuck m (rev_dir p) \<Longrightarrow> stuck m (rev_dir p')"
proof -
  show "pump_run marshal eth cfg p p' \<Longrightarrow> stuck m (fwd p) \<Longrightarrow> stuck m (fwd p')"
  proof (induction rule: pump_run.induct)
    case (more p p1 p2)
    from more(2,3,4) show ?case by (cases rule: pump_step.cases) (auto dest: stuck_step simp: stuck_def)
  qed
  show "pump_run marshal eth cfg p p' \<Longrightarrow> stuck m (rev_dir p) \<Longrightarrow> stuck m (rev_dir p')"
  proof (induction rule: pump_run.induct)
    case (more p p1 p2)
    from more(2,3,4) show ?case by (cases rule: pump_step.cases) (auto dest: stuck_step simp: stuck_def)
  qed
qed

lemma gave_up_run: "pump_run marshal eth cfg p p' \<Longrightarrow> gave_up p \<Longrightarrow> gave_up p'"
  by (induction rule: pump_run.induct) (auto simp: gave_up_def elim: pump_step.cases)

definition all_ended :: "'e pump \<Rightarrow> bool" where
  "all_ended p \<longleftrightarrow> (\<exists>es. runner p = Returned es) \<and> \<not> active p \<and> ended (fwd p) \<and> ended (rev_dir p)"

lemma not_all_ended:
  assumes "gave_up p \<or> stuck m (fwd p) \<or> stuck m (rev_dir p)" "pump_run marshal eth cfg p p'"
  shows "\<not> all_ended p'"
  using assms(1)
proof (elim disjE)
  assume "gave_up p"
  with gave_up_run [OF assms(2)] show ?thesis by (simp add: gave_up_def all_ended_def)
qed (use stuck_run [OF assms(2), of m] in \<open>auto simp: stuck_def all_ended_def ended_def\<close>)

text \<open>
  C17: Exactly which websocket pumps can still end. In any state a pump without chaos can get into, whether it has been
  told to stop or not, it can come to the state in which \<open>run\<close> has returned and marked it inactive and the
  reader, the writer and the terminator of both directions have ended, unless one of two things has
  happened: \<open>run\<close> has left its loop because of a failure, or a reader has a message in hand for a full queue
  that its writer has left. Then it never will. (That it can end says that some continuation does: peers that go on sending
  may keep the readers from it. A pump that crashed took the process with it.)
\<close>

theorem pump_stops:
  assumes "pump_run marshal eth cfg newWebsocketPump p" "alive p" "\<not> WsEnabled (WsChaos cfg)"
  shows "(\<exists>p'. pump_run marshal eth cfg p p' \<and> all_ended p') \<longleftrightarrow>
    \<not> gave_up p \<and> (\<forall>m. \<not> stuck m (fwd p) \<and> \<not> stuck m (rev_dir p))"
proof (intro iffI)
  assume "\<exists>p'. pump_run marshal eth cfg p p' \<and> all_ended p'"
  then show "\<not> gave_up p \<and> (\<forall>m. \<not> stuck m (fwd p) \<and> \<not> stuck m (rev_dir p))" using not_all_ended by blast
next
  assume ok: "\<not> gave_up p \<and> (\<forall>m. \<not> stuck m (fwd p) \<and> \<not> stuck m (rev_dir p))"
  have inv: "stop_inv p" by (rule stop_inv_reached [OF assms(1) stop_inv_new])
  obtain p1 es where p1: "pump_run marshal eth cfg p p1" "same_dirs p p1" "runner p1 = Returned es" "\<not> active p1"
    using pump_returns [OF inv assms(2), of marshal eth cfg] ok by (auto simp: returns_def)
  have alive1: "alive p1" using same_dirs_alive [OF p1(2)] assms(2) by simp
  have chains: "chain (fwd p1)" "signalled (fwd p1)" "chain (rev_dir p1)" "signalled (rev_dir p1)"
    using stop_inv_reached [OF p1(1) inv] p1(3,4) by (simp_all add: stop_inv_def)
  have free: "\<not> stuck m (fwd p1)" "\<not> stuck m (rev_dir p1)" for m using ok p1(2) by (auto simp: same_dirs_def stuck_def)
  obtain f where f: "(calm_step marshal eth cfg)\<^sup>*\<^sup>* (fwd p1) f" "ended f"
    using signalled_ends [where cfg = cfg and marshal = marshal and eth = eth, OF chains(1,2)] alive1 assms(3) free(1) by (auto simp: alive_def)
  obtain r where r: "(calm_step marshal eth cfg)\<^sup>*\<^sup>* (rev_dir p1) r" "ended r"
    using signalled_ends [where cfg = cfg and marshal = marshal and eth = eth, OF chains(3,4)] alive1 assms(3) free(2) by (auto simp: alive_def)
  obtain q where p2: "pump_run marshal eth cfg p1 (p1\<lparr>fwd := f, failure := q\<rparr>)" using pump_run_forward [OF f(1) alive1] by blast
  let ?p2 = "p1\<lparr>fwd := f, failure := q\<rparr>"
  have "alive ?p2" using alive1 f(2) by (simp add: alive_def ended_def)
  then obtain q' where p3: "pump_run marshal eth cfg ?p2 (?p2\<lparr>rev_dir := r, failure := q'\<rparr>)"
    using pump_run_reverse [of marshal eth cfg ?p2 r] r(1) by auto
  from pump_run_trans [OF p3 pump_run_trans [OF p2 p1(1)]] p1(3,4) f(2) r(2) show "\<exists>p'. pump_run marshal eth cfg p p' \<and> all_ended p'"
    by (intro exI [of _ "?p2\<lparr>rev_dir := r, failure := q'\<rparr>"]) (simp add: all_ended_def)
qed

section \<open>A reader left behind\<close>

lemma reads_one:
  assumes "reader d = Checking" "doneReads d = quiet" "writer d = Selecting"
  shows "(calm_step marshal eth cfg)\<^sup>*\<^sup>* d (d\<lparr>reader := Handing m, received := received d @ [m]\<rparr>)"
proof -
  have "calm_step marshal eth cfg d (d\<lparr>reader := Reading\<rparr>)"
    unfolding calm_step_def using dir_step.read_go [of d marshal eth cfg] assms by auto
  moreover have "calm_step marshal eth cfg (d\<lparr>reader := Reading\<rparr>) (d\<lparr>reader := Handing m, received := received d @ [m]\<rparr>)"
    unfolding calm_step_def using dir_step.read_message [of "d\<lparr>reader := Reading\<rparr>" marshal eth cfg m] assms by auto
  ultimately show ?thesis by auto
qed

definition filled :: "websocketMessage list \<Rightarrow> 'e pump_dir" where
  "filled ms = new_dir\<lparr>messages := \<lparr>ch_cap = 16, ch_buf = ms\<rparr>, received := ms\<rparr>"

lemma filled_Nil: "filled [] = new_dir"
  by (simp add: filled_def new_dir_def make_chan_def)

lemma fills: "length ms \<le> 16 \<Longrightarrow> (calm_step marshal eth cfg)\<^sup>*\<^sup>* (new_dir :: 'e pump_dir) (filled ms)"
proof (induction ms rule: rev_induct)
  case Nil
  then show ?case by (simp add: filled_Nil)
next
  case (snoc m ms)
  then have IH: "(calm_step marshal eth cfg)\<^sup>*\<^sup>* (new_dir :: 'e pump_dir) (filled ms)" by simp
  let ?d = "filled ms\<lparr>reader := Handing m, received := ms @ [m]\<rparr> :: 'e pump_dir"
  have r: "(calm_step marshal eth cfg)\<^sup>*\<^sup>* (filled ms) ?d"
    using reads_one [of "filled ms" marshal eth cfg m] by (simp add: filled_def new_dir_def make_chan_def quiet_def)
  have "calm_step marshal eth cfg ?d (?d\<lparr>messages := \<lparr>ch_cap = 16, ch_buf = ms @ [m]\<rparr>, reader := Checking\<rparr>)"
    by (rule calm_hand) (use snoc(2) in \<open>simp_all add: filled_def new_dir_def chan_send_def\<close>)
  moreover have "?d\<lparr>messages := \<lparr>ch_cap = 16, ch_buf = ms @ [m]\<rparr>, reader := Checking\<rparr> = filled (ms @ [m])"
    by (simp add: filled_def new_dir_def)
  ultimately show ?case using IH r by (metis rtranclp.rtrancl_into_rtrancl rtranclp_trans)
qed

text \<open>
  C27: But a stop can leave a reader behind for ever: when 17 messages have come in faster than they
  are written, the writer may take its signal to end before the queue has room for the last
  one. The pump then counts as stopped, and everything else has ended, while the reader waits
  to hand over a message no one will take.
\<close>

theorem pump_stop_leaks:
  assumes "length ms = 16"
  shows "\<exists>p. pump_run marshal eth cfg newWebsocketPump p \<and> (\<exists>es. runner p = Returned es) \<and> \<not> active p \<and> ended (rev_dir p) \<and>
    terminator (fwd p) = TerminatorDone \<and> writer (fwd p) = WriterDone \<and> received (fwd p) = ms @ [m] \<and>
    (\<forall>p'. pump_run marshal eth cfg p p' \<longrightarrow> reader (fwd p') = Handing m)"
proof -
  let ?d = "filled ms\<lparr>reader := Handing m, received := ms @ [m]\<rparr> :: 'a pump_dir"
  let ?p0 = "newWebsocketPump\<lparr>active := True, runner := Waiting\<rparr> :: 'a pump"
  have "(calm_step marshal eth cfg)\<^sup>*\<^sup>* (filled ms) ?d"
    using reads_one [of "filled ms" marshal eth cfg m] by (simp add: filled_def new_dir_def make_chan_def quiet_def)
  moreover have "(calm_step marshal eth cfg)\<^sup>*\<^sup>* new_dir (filled ms :: 'a pump_dir)" by (rule fills) (simp add: assms)
  ultimately have "(calm_step marshal eth cfg)\<^sup>*\<^sup>* (fwd ?p0) ?d"
    by (simp add: newWebsocketPump_def)
  from pump_run_forward [OF this] obtain q where "pump_run marshal eth cfg ?p0 (?p0\<lparr>fwd := ?d, failure := q\<rparr>)"
    by (auto simp: alive_def newWebsocketPump_def new_dir_def)
  then have p1: "pump_run marshal eth cfg newWebsocketPump (?p0\<lparr>fwd := ?d, failure := q\<rparr>)"
    by (rule pump_run_step [OF demo_started])
  let ?p1 = "?p0\<lparr>fwd := ?d, failure := q\<rparr>"
  have alive1: "alive ?p1" by (simp add: alive_def newWebsocketPump_def new_dir_def filled_def)
  have inv: "stop_inv ?p1" by (rule stop_inv_reached [OF p1 stop_inv_new])
  obtain p2 es where p2: "pump_run marshal eth cfg ?p1 p2" "fwd p2 = ?d\<lparr>doneIn := sig\<rparr>"
      "rev_dir p2 = new_dir\<lparr>doneIn := sig\<rparr>" "\<not> active p2" "runner p2 = Returned es"
    using pump_tells [OF inv alive1, of marshal eth cfg] by (fastforce simp: newWebsocketPump_def)
  have alive2: "alive p2" by (simp add: alive_def p2(2,3) new_dir_def filled_def)
  let ?f = "(told (fwd p2))\<lparr>doneWrites := quiet, writer := WriterDone\<rparr>"
  have "(calm_step marshal eth cfg)\<^sup>*\<^sup>* (fwd p2) (told (fwd p2))"
    by (intro dir_is_told) (simp_all add: p2(2) filled_def new_dir_def make_chan_def quiet_def)
  moreover have "calm_step marshal eth cfg (told (fwd p2)) ?f"
    unfolding calm_step_def using dir_step.write_stop [of "told (fwd p2)" "()" quiet marshal eth cfg]
    by (auto simp: told_def p2(2) filled_def new_dir_def)
  ultimately have f: "(calm_step marshal eth cfg)\<^sup>*\<^sup>* (fwd p2) ?f" by auto
  obtain q' where p3: "pump_run marshal eth cfg p2 (p2\<lparr>fwd := ?f, failure := q'\<rparr>)"
    using pump_run_forward [OF f alive2] by blast
  let ?p3 = "p2\<lparr>fwd := ?f, failure := q'\<rparr>"
  obtain r where r: "(calm_step marshal eth cfg)\<^sup>*\<^sup>* (rev_dir p2) r" "ended r"
    using signalled_ends [of "new_dir\<lparr>doneIn := sig\<rparr>" cfg marshal eth]
    by (auto simp: p2(3) chain_def signalled_def dir_caps_def new_dir_def make_chan_def sig_def)
  have "alive ?p3" using alive2 by (simp add: alive_def)
  then obtain q'' where p4: "pump_run marshal eth cfg ?p3 (?p3\<lparr>rev_dir := r, failure := q''\<rparr>)"
    using pump_run_reverse [of marshal eth cfg ?p3 r] r(1) by auto
  let ?p4 = "?p3\<lparr>rev_dir := r, failure := q''\<rparr>"
  have "stuck m (fwd ?p4)" using assms by (simp add: stuck_def told_def p2(2) filled_def)
  then have "reader (fwd p') = Handing m" if "pump_run marshal eth cfg ?p4 p'" for p'
    using stuck_run(1) [OF that] by (simp add: stuck_def)
  moreover have "pump_run marshal eth cfg newWebsocketPump ?p4"
    by (rule pump_run_trans [OF p4 pump_run_trans [OF p3 pump_run_trans [OF p2(1) p1]]])
  ultimately show ?thesis using p2(2,4,5) r(2) by (intro exI [of _ ?p4]) (simp add: told_def)
qed

section \<open>Witnesses\<close>

theorem pump_stops_witness:
  "\<exists>p' :: string pump. pump_run (\<lambda>b. []) demo_eth demo_ws_config demo_pump p' \<and> all_ended p'"
proof -
  have a: "alive demo_pump" "\<not> WsEnabled (WsChaos demo_ws_config)"
    by (simp_all add: demo_pump_def pump_defs demo_ws_config_def)
  have "\<not> gave_up demo_pump" "\<not> stuck m (fwd demo_pump)" "\<not> stuck m (rev_dir demo_pump)" for m
    by (simp_all add: demo_pump_def gave_up_def stuck_def newWebsocketPump_def new_dir_def)
  with pump_stops [OF demo_pump_run a] show ?thesis by blast
qed

theorem pump_stop_leaks_witness:
  "\<exists>p :: string pump. pump_run (\<lambda>b. []) demo_eth demo_ws_config newWebsocketPump p \<and> \<not> active p \<and>
     reader (fwd p) = Handing \<lparr>msgType = 1, bytes = ''x''\<rparr>"
  using pump_stop_leaks [of "replicate 16 \<lparr>msgType = 1, bytes = ''y''\<rparr>" "\<lambda>b. []" demo_eth demo_ws_config
      "\<lparr>msgType = 1, bytes = ''x''\<rparr>"] pump_run.rest
  by fastforce

end
