(* ===== verification/Httplogger.thy ===== *)
theory Httplogger
  imports Go_Prelude
begin

text \<open>
  The package \<open>httplogger\<close>: a middleware that logs the status of each response and answers 500 for
  a handler that panics. The response writer of \<open>net/http\<close> sends the first final status it is
  given, 200 if the body comes first, and panics on a status that has not three digits. A handler
  is the sequence of its calls. The request's id, times and log texts are left out.
\<close>

section \<open>The code\<close>

text \<open>The writer of \<open>net/http\<close>: informational statuses sent, the final one, and the body.\<close>

record http_writer =
  hw_informational :: "int list"
  hw_status :: "int option"
  hw_body :: string

definition new_writer :: http_writer where
  "new_writer = \<lparr>hw_informational = [], hw_status = None, hw_body = []\<rparr>"

definition http_WriteHeader :: "int \<Rightarrow> http_writer \<Rightarrow> http_writer go" where
  "http_WriteHeader code w =
     (if hw_status w \<noteq> None then Ret w
      else if code < 100 \<or> code > 999 then Panic
      else if code \<le> 199 \<and> code \<noteq> 101 then Ret (w\<lparr>hw_informational := hw_informational w @ [code]\<rparr>)
      else Ret (w\<lparr>hw_status := Some code\<rparr>))"

definition http_Write :: "string \<Rightarrow> http_writer \<Rightarrow> http_writer" where
  "http_Write b w =
     w\<lparr>hw_status := Some (case hw_status w of None \<Rightarrow> 200 | Some c \<Rightarrow> c), hw_body := hw_body w @ b\<rparr>"

definition sent_status :: "http_writer \<Rightarrow> int" where
  \<comment> \<open>once the handler is done\<close>
  "sent_status w = (case hw_status w of None \<Rightarrow> 200 | Some c \<Rightarrow> c)"

record responseWriter =
  ResponseWriter :: http_writer
  rw_status :: int
  rw_wroteHeader :: bool

definition wrapResponseWriter :: "http_writer \<Rightarrow> responseWriter" where
  "wrapResponseWriter w = \<lparr>ResponseWriter = w, rw_status = 0, rw_wroteHeader = False\<rparr>"

definition Status :: "responseWriter \<Rightarrow> int" where
  "Status rw = (if rw_wroteHeader rw then rw_status rw else 200)"

text \<open>The writer beneath is shared: the flag says whether the call panicked.\<close>

definition WriteHeader :: "int \<Rightarrow> responseWriter \<Rightarrow> responseWriter \<times> bool" where
  "WriteHeader code rw =
     (if rw_wroteHeader rw then (rw, False)
      else let rw1 = rw\<lparr>rw_status := code\<rparr>
           in case http_WriteHeader code (ResponseWriter rw1) of
             Panic \<Rightarrow> (rw1, True)
           | Ret w \<Rightarrow> (rw1\<lparr>ResponseWriter := w, rw_wroteHeader := True\<rparr>, False))"

datatype handler_call = SetStatus int | WriteBody string | HandlerPanics

fun ServeHTTP :: "handler_call list \<Rightarrow> responseWriter \<Rightarrow> responseWriter \<times> bool" where
  "ServeHTTP [] rw = (rw, False)"
| "ServeHTTP (SetStatus code # calls) rw =
     (case WriteHeader code rw of (rw1, panicked) \<Rightarrow> if panicked then (rw1, True) else ServeHTTP calls rw1)"
| "ServeHTTP (WriteBody b # calls) rw = ServeHTTP calls (rw\<lparr>ResponseWriter := http_Write b (ResponseWriter rw)\<rparr>)"
| "ServeHTTP (HandlerPanics # calls) rw = (rw, True)"

text \<open>The response and the status in the access log; a handler that panicked has none.\<close>

definition Middleware :: "handler_call list \<Rightarrow> http_writer \<Rightarrow> (http_writer \<times> int option) go" where
  "Middleware handler w =
     (case ServeHTTP handler (wrapResponseWriter w) of
        (rw, panicked) \<Rightarrow>
          if panicked then go_map (\<lambda>w. (w, None)) (http_WriteHeader 500 (ResponseWriter rw))
          else Ret (ResponseWriter rw, Some (Status rw)))"

section \<open>What is logged and what is sent\<close>

fun first_status :: "handler_call list \<Rightarrow> int" where
  "first_status [] = 200"
| "first_status (SetStatus code # calls) = code"
| "first_status (c # calls) = first_status calls"

fun first_sent :: "handler_call list \<Rightarrow> int \<Rightarrow> int" where
  "first_sent [] otherwise = otherwise"
| "first_sent (SetStatus code # calls) otherwise = code"
| "first_sent (WriteBody b # calls) otherwise = 200"
| "first_sent (HandlerPanics # calls) otherwise = otherwise"

fun final_statuses :: "handler_call list \<Rightarrow> bool" where
  "final_statuses [] = True"
| "final_statuses (SetStatus code # calls) \<longleftrightarrow> 200 \<le> code \<and> code \<le> 999 \<and> final_statuses calls"
| "final_statuses (c # calls) \<longleftrightarrow> final_statuses calls"

lemma WriteHeader_final: "200 \<le> code \<Longrightarrow> code \<le> 999 \<Longrightarrow> \<exists>rw1. WriteHeader code rw = (rw1, False)"
  by (auto simp: WriteHeader_def http_WriteHeader_def Let_def)

lemma WriteHeader_again: "rw_wroteHeader rw \<Longrightarrow> WriteHeader code rw = (rw, False)"
  by (simp add: WriteHeader_def)

lemma ServeHTTP_panics: "final_statuses calls \<Longrightarrow> snd (ServeHTTP calls rw) \<longleftrightarrow> HandlerPanics \<in> set calls"
proof (induction calls arbitrary: rw)
  case (Cons call calls)
  show ?case
  proof (cases call)
    case (SetStatus code)
    with Cons.prems WriteHeader_final obtain rw1 where "WriteHeader code rw = (rw1, False)" by fastforce
    with SetStatus Cons show ?thesis by simp
  qed (use Cons in simp_all)
qed simp

lemma ServeHTTP_written:
  "rw_wroteHeader rw \<Longrightarrow> hw_status (ResponseWriter rw) = Some c \<Longrightarrow>
   hw_status (ResponseWriter (fst (ServeHTTP calls rw))) = Some c \<and> Status (fst (ServeHTTP calls rw)) = rw_status rw"
proof (induction calls arbitrary: rw)
  case (Cons call calls)
  then show ?case by (cases call) (simp_all add: WriteHeader_again http_Write_def Status_def)
qed (simp add: Status_def)

lemma ServeHTTP_body_first:
  "\<not> rw_wroteHeader rw \<Longrightarrow> hw_status (ResponseWriter rw) = Some c \<Longrightarrow>
   hw_status (ResponseWriter (fst (ServeHTTP calls rw))) = Some c \<and>
   (HandlerPanics \<notin> set calls \<longrightarrow> Status (fst (ServeHTTP calls rw)) = first_status calls)"
proof (induction calls arbitrary: rw)
  case (Cons call calls)
  show ?case
  proof (cases call)
    case (SetStatus code)
    let ?rw = "rw\<lparr>rw_status := code, rw_wroteHeader := True\<rparr>"
    have "WriteHeader code rw = (?rw, False)"
      using Cons.prems by (simp add: WriteHeader_def http_WriteHeader_def Let_def)
    with ServeHTTP_written [of ?rw c calls] Cons.prems SetStatus show ?thesis by simp
  qed (use Cons in \<open>simp_all add: http_Write_def\<close>)
qed (simp add: Status_def)

text \<open>
  For a handler that sets final statuses only: if it panics, no access is logged, and the
  response is what it had begun, or 500 if nothing; else the status logged is the first one it
  set, while the one sent is 200 whenever the body came first. So the two differ exactly for a
  handler that writes and then sets another status than 200.
\<close>

theorem access_log_status:
  assumes "final_statuses handler" "Middleware handler new_writer = r"
  shows "\<exists>w log. r = Ret (w, log) \<and>
    (if HandlerPanics \<in> set handler then log = None \<and> sent_status w = first_sent handler 500
     else log = Some (first_status handler) \<and> sent_status w = first_sent handler 200)"
proof -
  let ?rw = "wrapResponseWriter new_writer" and ?r = "ServeHTTP handler (wrapResponseWriter new_writer)"
  have status: "(case hw_status (ResponseWriter (fst ?r)) of None \<Rightarrow> otherwise | Some c \<Rightarrow> c) = first_sent handler otherwise \<and>
      (HandlerPanics \<notin> set handler \<longrightarrow> Status (fst ?r) = first_status handler)" for otherwise
  proof (cases handler)
    case Nil
    then show ?thesis by (simp add: wrapResponseWriter_def new_writer_def Status_def)
  next
    case (Cons call calls)
    show ?thesis
    proof (cases call)
      case (SetStatus code)
      let ?rw1 = "?rw\<lparr>ResponseWriter := new_writer\<lparr>hw_status := Some code\<rparr>, rw_status := code, rw_wroteHeader := True\<rparr>"
      have "WriteHeader code ?rw = (?rw1, False)"
        using assms(1) Cons SetStatus
        by (simp add: WriteHeader_def http_WriteHeader_def wrapResponseWriter_def new_writer_def Let_def)
      with ServeHTTP_written [of ?rw1 code calls] Cons SetStatus show ?thesis by simp
    next
      case (WriteBody b)
      have "\<not> rw_wroteHeader (?rw\<lparr>ResponseWriter := http_Write b new_writer\<rparr>)"
          "hw_status (ResponseWriter (?rw\<lparr>ResponseWriter := http_Write b new_writer\<rparr>)) = Some 200"
        by (simp_all add: wrapResponseWriter_def new_writer_def http_Write_def)
      from ServeHTTP_body_first [OF this, of calls] Cons WriteBody show ?thesis
        by (simp add: wrapResponseWriter_def)
    next
      case HandlerPanics
      with Cons show ?thesis by (simp add: wrapResponseWriter_def new_writer_def)
    qed
  qed
  obtain rw b where r: "?r = (rw, b)" by (cases ?r) auto
  with ServeHTTP_panics [OF assms(1), of ?rw] have b: "b \<longleftrightarrow> HandlerPanics \<in> set handler" by simp
  have "\<exists>w. http_WriteHeader 500 (ResponseWriter rw) = Ret w \<and>
      sent_status w = (case hw_status (ResponseWriter rw) of None \<Rightarrow> 500 | Some c \<Rightarrow> c)"
    by (simp add: http_WriteHeader_def sent_status_def split: option.split)
  then show ?thesis
    using status [of 200] status [of 500] assms(2) unfolding Middleware_def r
    by (cases b) (auto simp: b sent_status_def)
qed

theorem access_log_status_witness:
  "\<exists>w. Middleware [WriteBody ''no'', SetStatus 503] new_writer = Ret (w, Some 503) \<and> sent_status w = 200"
  using access_log_status [of "[WriteBody ''no'', SetStatus 503]", OF _ refl] by simp

end
