(* ===== verification/Spec2Isabelle.thy ===== *)
theory Spec2Isabelle
  imports Healthcheck Rpc Authrpc Connections Dispatch Http_Jobs Http_Replies Candlestick Utils Config_Checks
    Flashblock Ws_Messages Ws_Pump Websocket Server Flags Metrics Program
    Job_Queues Proxy_System Ws_Stop Httplogger
begin

text \<open>
  bproxy: a proxy in front of an Ethereum block builder. It forwards engine API calls (\<open>authrpc\<close>), user
  calls (\<open>rpc\<close>) and a websocket stream (\<open>flashblocks\<close>) to a backend, mirrors some of the calls to peers,
  checks the backend's health, and can inject faults for testing. This development models its Go
  code and proves what makes it correct, component by component and across components.

  \<^bold>\<open>How the program works.\<close> \<open>cmd/main.go\<close> and \<open>cmd/serve.go\<close> read the flags into a \<open>config.Config\<close>, which
  \<open>Config.Validate\<close> checks and normalises. \<open>server.New\<close> builds the enabled proxies; \<open>Server.Run\<close> sets up
  the metrics, starts the proxies and waits for a signal or a failure, then stops everything. An
  HTTP proxy (\<open>proxy/http.go\<close>) triages each request (\<open>proxy/rpc.go\<close> or \<open>proxy/authrpc.go\<close>, on the calls
  \<open>jrpc\<close> parses), makes a job of it, queues the job by priority and a copy for each peer if it is to be
  mirrored, and waits; job loops take jobs, call the backend or the peer, log (sanitized by
  \<open>jrpc/sanitize.go\<close>) and count. The websocket proxy (\<open>proxy/websocket.go\<close>) runs a pump
  (\<open>proxy/websocket_pump.go\<close>) for each connection. A healthcheck (\<open>proxy/healthcheck.go\<close>, on the ring
  buffer of \<open>data\<close>) resets a proxy's connections when its backend turns unhealthy.

  \<^bold>\<open>The theories\<close>, each opening with its own account of what it models:
  \<^item> Foundations: \<open>Go_Prelude\<close> (outcomes of Go code: a value or a panic; slices, strings, decimals),
    \<open>Interfaces\<close> (the locales), \<open>Json_Text\<close> (what is used of \<open>encoding/json\<close>: scanner, unquoting,
    decoding), \<open>Json_Print\<close> (a renderer, against which hand-written bodies are held), \<open>Json_Grammar\<close> (the grammar of
    RFC 8259, every text of which the scanner reads), \<open>Json_Lex\<close> (a condition on quotes that every JSON text meets).
  \<^item> Data: \<open>Ring_Buffer\<close> (\<open>data/ring_buffer.go\<close>), \<open>Candlestick\<close> and \<open>Metrics\<close> (\<open>metrics\<close>), \<open>Utils\<close> (\<open>utils\<close>).
  \<^item> Calls: \<open>Jrpc_Call\<close> and \<open>Sanitize\<close> (\<open>jrpc\<close>), \<open>Triaged\<close> (\<open>triaged\<close>), \<open>Jwt\<close> (\<open>jwt\<close>), \<open>Rpc\<close> (\<open>proxy/rpc.go\<close>),
    \<open>Authrpc\<close> (\<open>proxy/authrpc.go\<close>), \<open>Flashblock\<close> (\<open>flashblock\<close>, \<open>proxy/websocket_message.go\<close>).
  \<^item> The HTTP proxy: \<open>Connections\<close> (the maps of client connections), \<open>Dispatch\<close> (one pair of queues and
    its loop), \<open>Http_Jobs\<close> (a request from triage to reply), \<open>Http_Replies\<close> (bodies, logs, latencies),
    \<open>Job_Queues\<close> (all queues of a proxy together, one step for each send and receive), \<open>Proxy_System\<close> (handlers and the
    loop, from request to reply, where a handler replies some time after its job is done); \<open>Healthcheck\<close>.
  \<^item> The websocket proxy: \<open>Ws_Messages\<close>, \<open>Ws_Pump\<close>, \<open>Ws_Stop\<close> (which pumps can still end), \<open>Websocket\<close> (the registry
    with its pumps, and what stopping them does).
  \<^item> The program: \<open>Config\<close> and \<open>Config_Checks\<close> (\<open>config\<close>), \<open>Flags\<close> (the flag tables), \<open>Server\<close>
    (\<open>server/server.go\<close>, with the websocket sessions that begin and end meanwhile), \<open>Program\<close> (logger, goroutines started, exit status), \<open>Httplogger\<close>
    (\<open>httplogger\<close>). This theory holds the properties that span components.

  \<^bold>\<open>How code is modelled.\<close> A struct is a \<^theory_text>\<open>record\<close> with the source's fields, a function a definition of the
  same name, with the receiver as an argument that is returned updated. A run-time panic is the
  value \<^const>\<open>Panic\<close>, an error a sum or an option. Where a lock makes an operation atomic, executions
  are sequences of operations (healthcheck, fork choices, connections, candlestick); where
  goroutines share channels, they are step relations that interleave (\<^const>\<open>dispatch_step\<close>,
  \<^const>\<open>queue_step\<close>, \<^const>\<open>system_step\<close>, \<^const>\<open>pump_step\<close>, \<^const>\<open>server_step\<close>), and a \<open>select\<close> with several ready cases may take
  any. A reset of connections is one step, also where it waits for pumps to end: it writes nothing they read but one signal
  each, and what it sees of them is an input. Time, random draws and the answers of the network are inputs of the steps. Code outside the
  repository is a parameter: go-ethereum (\<open>eth_lib\<close>), the TDX guest library (\<open>tdx_lib\<close>), the parsers,
  the resolver and the files of the host (\<open>host_env\<close>), OpenTelemetry (\<open>metrics_lib\<close>), the URI parser and
  the certificate loader of the constructors. No theorem restricts them by more than the text above
  it says, in most cases by nothing.

  \<^bold>\<open>Interfaces.\<close> \<open>fifo_log\<close> and, extending it, \<open>window_log\<close>: what the healthcheck needs of the ring buffer
  (interpreted as \<open>rb\<close> in \<open>Ring_Buffer\<close>). \<open>unhealthy_handler\<close>: what a proxy promises the healthcheck
  (\<open>http_handler\<close> in \<open>Connections\<close>, \<open>ws_handler\<close> in \<open>Websocket\<close>). \<open>bounded_queue\<close>: Go's buffered channels
  (\<open>ch\<close> in \<open>Dispatch\<close>), on which the conservation and typing of queues rest.

  \<^bold>\<open>What is shown.\<close>
  \<^item> Refinement and equivalence: the ring buffer is a double-ended queue; the connection maps are what
    each connection's life says; the in-place loop over peers is an idempotent filter; sanitizing is
    rewriting at declared paths; the triage of a batch is that of its calls.
  \<^item> Invariants, typing and order: queues conserve their jobs in order, hold only jobs meant for them,
    and have one consumer each; a prioritised job is overtaken at most once; a pump delivers messages
    in order; the healthcheck sees exactly the last results; the metrics are complete.
  \<^item> Safety across components: a transaction reaches the backend and every peer; an unhealthy backend
    closes or drains every connection; chaos touches neither backend nor peers; only repeated fork choices are
    suppressed; shutdown stops every part in order and every session begun before it; an accepted configuration never panics before
    the loop of the server.
  \<^item> From request to reply: no request is answered twice or with another's answer, jobs are executed in the
    order of their class, and, if nothing panics, every order of steps ends, within a bound, with all requests answered.
  \<^item> Liveness and termination: a waiting job can always be started; a pump can come to an end unless
    its run left on a failure or a reader is stuck; a server asked to stop can always
    be brought to return.
  \<^item> Round trips and errors: requests and tokens are read back from their texts; and where the code
    does not do what it means to, a theorem says what it does instead: batches with string ids,
    tokens in the URL-safe alphabet, error bodies that are not JSON, connections never told to close,
    flapping during warm-up, pumps that leak after a failure or a stop, sessions that outlive the stop of their proxy,
    messages without a diff.

  \<^bold>\<open>Bounds and fuel.\<close> The JSON scanner recurses on fuel: two more than twice the length of the text is
  enough (\<open>scan_fuel\<close> and \<open>json_parse_fuel\<close> in \<open>Json_Text\<close>), and Go's nesting limit of 10000 is in the model. Every other
  recursion terminates by a measure. Integers that count or index are unbounded; those whose width
  shows are wrapped or checked at 64 bits (candlestick, latencies, \<open>ParseUint\<close>, block timestamps).
  Probabilities are rationals: NaN, infinities and rounding of floats are left out. Of a number in a logged
  body only its text is kept, and whether it is in the range of a \<open>float64\<close>, beyond which Go's decoding fails.

  \<^bold>\<open>Not modelled.\<close> The libraries themselves (fasthttp, the websocket library, zap, OpenTelemetry,
  urfave/cli), beyond their use; the HTTP servers of the metrics and of the profiler; the adapters of
  \<open>logutils\<close> that hand a logger to another library, log texts, what a job is
  logged with besides its request and response, and labels of metrics; help texts and
  the help command; the histograms a job records besides its counter; YAML tags, which nothing
  reads. Object pools (\<open>AcquireRequest\<close> and the like) are taken as fresh values. The standard
  library's \<open>net/http\<close> response writer is modelled as far as \<open>httplogger\<close> needs it.
\<close>

section \<open>A transaction's way through the RPC proxy\<close>

lemma newProxyJob_calm:
  assumes "\<not> Enabled (Chaos (cfg p))"
  shows "newProxyJob p draws (t, res) ctx =
    \<lparr>pj_req = forwarded p (backendURI p) ctx, pj_res = res,
     pj_triage = t\<lparr>Mirror := (Mirror t \<or> JrpcMethod t \<in> set (extraMirroredJrpcMethods p))\<rparr>,
     pj_proxy = (if Proxy t then BackendDo else FakeResponse)\<rparr>"
  using assms by (simp add: newProxyJob_def chaos_action_def Let_def split: prod.splits)

lemma receive_schedule_prioritised:
  assumes "Prioritise (pj_triage pj)" "Mirror (pj_triage pj)" "length (ch_buf (queueProxyHi q)) < ch_cap (queueProxyHi q)"
  shows "\<exists>q' ms. receive_schedule p ctx pj q = Some (q', ms) \<and>
    ch_buf (queueProxyHi q') = ch_buf (queueProxyHi q) @ [pj] \<and> queueProxyLo q' = queueProxyLo q \<and>
    queueMirrorLo q' = queueMirrorLo q \<and>
    queueMirrorHi q' = fst (mirror_all p ctx pj (peerURIs p) (queueMirrorHi q)) \<and>
    ms = snd (mirror_all p ctx pj (peerURIs p) (queueMirrorHi q))"
proof -
  from assms(3) obtain c where c: "chan_send pj (queueProxyHi q) = Some c" "ch_buf c = ch_buf (queueProxyHi q) @ [pj]"
    using ch.send_law [of "queueProxyHi q" pj] by blast
  obtain qs ms where m: "mirror_all p ctx pj (peerURIs p) (queueMirrorHi q) = (qs, ms)" by fastforce
  from c m assms(1,2) show ?thesis by (simp add: receive_schedule_def Let_def)
qed

text \<open>
  C1: A call that sends a transaction or a bundle, received by an RPC proxy without chaos: it is
  queued ahead of the ordinary calls, for the backend, with its body unchanged and its method and
  id known; and for every peer of the configuration, at once, a copy is queued if there is room,
  and otherwise a drop is counted and nothing else happens.
\<close>

theorem transaction_reaches_all:
  assumes "NewRpc tls parse c = Ret (Some p)" "\<not> Enabled (Chaos c)"
    and "Unmarshal (rq_Body ctx) = Some call" "is_tx_method (GetMethod call)"
    and "Rpc_triage eth tdx (rq_Body ctx) = Ret triaged"
    and "pj = newProxyJob p draws triaged ctx"
    and "length (ch_buf (queueProxyHi q)) < ch_cap (queueProxyHi q)"
  shows "\<exists>q' ms. receive_schedule p ctx pj q = Some (q', ms) \<and>
    ch_buf (queueProxyHi q') = ch_buf (queueProxyHi q) @ [pj] \<and> queueProxyLo q' = queueProxyLo q \<and>
    pj_proxy pj = BackendDo \<and> rq_Body (pj_req pj) = rq_Body ctx \<and> rq_URI (pj_req pj) = Some (backendURI p) \<and>
    JrpcMethod (pj_triage pj) = GetMethod call \<and> JrpcID (pj_triage pj) = GetID call \<and>
    (\<forall>host uri qh. (host, uri) \<in> set (peerURIs p) \<longrightarrow> map_of (queueMirrorHi q) host = Some qh \<longrightarrow>
       map_of (queueMirrorHi q') host =
         Some (if length (ch_buf qh) < ch_cap qh then qh\<lparr>ch_buf := ch_buf qh @ [newMirrorJob p ctx pj (host, uri)]\<rparr> else qh) \<and>
       (MirrorDrop host (GetMethod call) \<in> set ms) = (ch_cap qh \<le> length (ch_buf qh)))"
proof -
  obtain t res where tr: "triaged = (t, res)" by (cases triaged)
  have new: "newHTTP tls parse (HttpProxy.extend c (httpConfig.fields ''bproxy-rpc'')) = Ret (Some p)"
    using assms(1) by (simp add: NewRpc_def new_http_def)
  have "Chaos (cfg p) = Chaos c"
    using newHTTP_SomeD [OF new] by (simp add: HttpProxy.extend_def)
  then have calm: "\<not> Enabled (Chaos (cfg p))" using assms(2) by simp
  have "triageSingle eth tdx call = Ret (t, res)"
    using assms(3,5) tr by (simp add: Rpc_triage_def)
  from triageSingle_decides [OF this] assms(4)
  have t: "Proxy t" "Mirror t" "Prioritise t" "JrpcMethod t = GetMethod call" "JrpcID t = GetID call"
    by (auto simp: is_tx_method_def HasPrefix_def)
  have pj: "pj_proxy pj = BackendDo" "Mirror (pj_triage pj)" "Prioritise (pj_triage pj)"
      "JrpcMethod (pj_triage pj) = GetMethod call" "JrpcID (pj_triage pj) = GetID call"
      "pj_req pj = forwarded p (backendURI p) ctx"
    unfolding assms(6) tr newProxyJob_calm [OF calm] using t by simp_all
  obtain q' ms where q': "receive_schedule p ctx pj q = Some (q', ms)"
      "ch_buf (queueProxyHi q') = ch_buf (queueProxyHi q) @ [pj]" "queueProxyLo q' = queueProxyLo q"
      "queueMirrorHi q' = fst (mirror_all p ctx pj (peerURIs p) (queueMirrorHi q))"
      "ms = snd (mirror_all p ctx pj (peerURIs p) (queueMirrorHi q))"
    using receive_schedule_prioritised [OF pj(3,2) assms(7)] by blast
  show ?thesis
  proof (intro exI conjI allI impI)
    fix host uri qh
    assume "(host, uri) \<in> set (peerURIs p)" "map_of (queueMirrorHi q) host = Some qh"
    from mirror_all_each_peer [OF newHTTP_peers_distinct [OF new] this, of p ctx pj]
    show "map_of (queueMirrorHi q') host = Some (if length (ch_buf qh) < ch_cap qh
        then qh\<lparr>ch_buf := ch_buf qh @ [newMirrorJob p ctx pj (host, uri)]\<rparr> else qh)"
      and "(MirrorDrop host (GetMethod call) \<in> set ms) = (ch_cap qh \<le> length (ch_buf qh))"
      by (simp_all add: q'(4,5) pj(4))
  qed (use q' pj in \<open>simp_all add: forwarded_def\<close>)
qed

definition demo_tx :: Call where
  "demo_tx = demo_call ''eth_sendRawTransaction'' ''0x12''"

definition demo_tx_body :: string where
  "demo_tx_body = json_print (request_json demo_tx (GetParams demo_tx))"

lemma demo_tx_parsed: "Unmarshal demo_tx_body = Some demo_tx"
  unfolding demo_tx_body_def
  by (rule Unmarshal_print) (simp add: demo_tx_def demo_call_def call_ok_def plain_def plain_char_def maxNestingDepth_def)

theorem transaction_reaches_all_witness:
  "\<exists>p pj q' ms. NewRpc False demo_parse (HttpProxy.truncate (demo_config no_chaos)) = Ret (Some p) \<and>
     pj_proxy pj = BackendDo \<and> receive_schedule p (demo_ctx demo_tx_body) pj (new_queues p) = Some (q', ms) \<and>
     (\<exists>c. map_of (queueMirrorHi q') ''p'' = Some c \<and> length (ch_buf c) = 1)"
proof -
  let ?c = "HttpProxy.truncate (demo_config no_chaos)"
  obtain p where p: "NewRpc False demo_parse ?c = Ret (Some p)" "peerURIs p = [(''p'', ''http://p''), (''q'', ''http://q'')]"
    by (simp add: NewRpc_def new_http_def newHTTP_def HttpProxy.truncate_def HttpProxy.extend_def httpConfig.fields_def
        demo_config_def demo_parse_def HasPrefix_def Let_def)
  obtain tr where tr: "Rpc_triage demo_eth demo_tdx (rq_Body (demo_ctx demo_tx_body)) = Ret tr"
    using demo_tx_parsed by (simp add: Rpc_triage_def demo_ctx_def demo_tx_def demo_call_def triageSingle_def HasPrefix_def)
  let ?pj = "newProxyJob p (0, 0, 0) tr (demo_ctx demo_tx_body)"
  have chaos: "\<not> Enabled (Chaos ?c)" by (simp add: HttpProxy.truncate_def demo_config_def no_chaos_def)
  have tx: "is_tx_method (GetMethod demo_tx)" by (simp add: demo_tx_def demo_call_def is_tx_method_def HasPrefix_def)
  have room: "length (ch_buf (queueProxyHi (new_queues p))) < ch_cap (queueProxyHi (new_queues p))"
    by (simp add: new_queues_def make_chan_def)
  have body: "Unmarshal (rq_Body (demo_ctx demo_tx_body)) = Some demo_tx" using demo_tx_parsed by (simp add: demo_ctx_def)
  from transaction_reaches_all [OF p(1) chaos body tx tr refl room]
  obtain q' ms where q': "receive_schedule p (demo_ctx demo_tx_body) ?pj (new_queues p) = Some (q', ms)" "pj_proxy ?pj = BackendDo"
      "\<And>host uri qh. (host, uri) \<in> set (peerURIs p) \<Longrightarrow> map_of (queueMirrorHi (new_queues p)) host = Some qh \<Longrightarrow>
        map_of (queueMirrorHi q') host = Some (if length (ch_buf qh) < ch_cap qh
          then qh\<lparr>ch_buf := ch_buf qh @ [newMirrorJob p (demo_ctx demo_tx_body) ?pj (host, uri)]\<rparr> else qh)"
    by blast
  have "map_of (queueMirrorHi (new_queues p)) ''p'' = Some (make_chan 512)" by (simp add: new_queues_def p(2))
  from q'(3) [OF _ this, of "''http://p''"] have "\<exists>c. map_of (queueMirrorHi q') ''p'' = Some c \<and> length (ch_buf c) = 1"
    by (simp add: p(2) make_chan_def)
  with p(1) q'(1,2) show ?thesis by blast
qed

section \<open>An unhealthy backend\<close>

text \<open>
  C4: When a check of its backend leaves the HTTP proxy unhealthy, none of its connections is
  active any more and exactly those that were active or draining are draining; a check that
  leaves it healthy touches none. Over any sequence of checks no connection is lost or invented.
\<close>

theorem unhealthy_drains:
  assumes "hc_inv h" "check backendUnhealthy probe (h, s) = Ret (h', s')"
    and "check_all backendUnhealthy probes (h', s') = Ret (h'', s'')"
  shows "(isHealthy h' \<longrightarrow> s' = s) \<and>
    (\<not> isHealthy h' \<longrightarrow> connections s' = [] \<and>
       fst ` set (drainingConnections s') = fst ` set (drainingConnections s) \<union> fst ` set (connections s)) \<and>
    fst ` set (drainingConnections s'') \<union> fst ` set (connections s'')
      = fst ` set (drainingConnections s) \<union> fst ` set (connections s)"
proof -
  have one: "isHealthy h' \<Longrightarrow> s' = s"
      "\<not> isHealthy h' \<Longrightarrow> fst ` set (connections s') = {} \<and>
         fst ` set (drainingConnections s') = fst ` set (drainingConnections s) \<union> fst ` set (connections s)"
    using http_handler.check_closes [OF assms(1,2)] by blast+
  have "check_all backendUnhealthy (probe # probes) (h, s) = Ret (h'', s'')" using assms(2,3) by simp
  from http_handler.check_all_closes [OF assms(1) this] one show ?thesis by auto
qed

theorem unhealthy_drains_witness:
  "\<exists>h h' s'. newHealthcheck (\<lambda>_. True) ''http://h'' 1000000000 1 1 = Ret (Some h) \<and>
     check backendUnhealthy (ProbeStatus 500) (h, no_conns\<lparr>connections := [(''a:1'', 7)]\<rparr>) = Ret (h', s') \<and>
     connections s' = [] \<and> fst ` set (drainingConnections s') = {''a:1''}"
proof -
  obtain h where h: "newHealthcheck (\<lambda>_. True) ''http://h'' 1000000000 1 1 = Ret (Some h)"
    by (simp add: newHealthcheck_def)
  from newHealthcheck_inv [OF h] have inv: "hc_inv h" "hc_list h = []" "isHealthy h" "depth h = 1"
      "thresholdHealthy h = 1" "thresholdUnhealthy h = 1" by simp_all
  let ?s = "no_conns\<lparr>connections := [(''a:1'', 7)]\<rparr>"
  obtain h' s' where c: "check backendUnhealthy (ProbeStatus 500) (h, ?s) = Ret (h', s')" "\<not> isHealthy h'"
    using check_list [OF inv(1), of backendUnhealthy "ProbeStatus 500" ?s] inv(2-)
    by (auto simp: probe_ok_def lastn_def verdict_def)
  have "check_all backendUnhealthy [] (h', s') = Ret (h', s')" by simp
  from unhealthy_drains [OF inv(1) c(1) this] c(2)
  have "connections s' = []" "fst ` set (drainingConnections s') = {''a:1''}" by (simp_all add: no_conns_def)
  with h c show ?thesis by blast
qed

section \<open>A configuration that validates can be run\<close>

text \<open>
  C8: Once a configuration is accepted, constructing the server from it cannot panic (no ticker
  has a non-positive interval), whatever the parsers and certificates do; and the latency injected
  into a job or a websocket message never panics and is at most a minute.
\<close>

theorem accepted_config_runs:
  assumes "Config_Validate env c = Ret (None, c')"
  shows "Server_New tls parse c' \<noteq> Panic \<and>
    (\<forall>p \<in> {cfgRpc c', AuthrpcProxy (cfgAuthrpc c')}. \<forall>draw elapsed.
       \<exists>s. injected_sleep (Chaos p) draw elapsed = Ret s \<and> 0 \<le> s \<and> (0 \<le> elapsed \<longrightarrow> s \<le> Minute)) \<and>
    (\<forall>draw elapsed. \<exists>s. ws_injected_sleep (WsChaos (cfgFlashblocks c')) draw elapsed = Ret s \<and> 0 \<le> s \<and>
       (0 \<le> elapsed \<longrightarrow> s \<le> Minute))"
proof -
  note acc = accepted_config [OF assms]
  have "Server_New tls parse c' \<noteq> Panic" using assms by (rule accepted_New)
  moreover have "chaos_ok (Chaos (AuthrpcProxy (cfgAuthrpc c)))" "chaos_ok (Chaos (cfgRpc c))"
    using acc by (auto simp: http_ok_def)
  moreover have "ws_chaos_ok (WsChaos (cfgFlashblocks c))" using acc by (simp add: ws_ok_def)
  then have "\<exists>s. ws_injected_sleep (WsChaos (cfgFlashblocks c')) draw elapsed = Ret s \<and> 0 \<le> s \<and> (0 \<le> elapsed \<longrightarrow> s \<le> Minute)"
    for draw elapsed unfolding acc(7) by (rule ws_injected_sleep_ok)
  ultimately show ?thesis using injected_sleep_ok by (simp add: acc(5,6))
qed

theorem accepted_config_runs_witness:
  "\<exists>c'. Config_Validate demo_host (demo_cfg ''http://b'') = Ret (None, c') \<and>
     Server_New (\<lambda>crt key. True) demo_parse c' \<noteq> Panic"
  using demo_accepted accepted_config_runs by blast

end
